(* ===== verification/Prelude.thy ===== *)
theory Prelude imports Main "HOL-Library.Sublist" begin

text \<open>
  What every component shares: Go's error values with \<open>errors.Is\<close>, the result type of a
  fallible call, the collections of rewrite rules the component proofs use, and lemmas on
  lists that are not in the library.

  A Go \<open>string\<close> and a Go \<open>[]byte\<close> are both a list of bytes, which is the type
  \<^typ>\<open>string\<close> (a \<^typ>\<open>char\<close> has exactly 256 values).
\<close>

named_theorems go_defs \<open>definitions unfolded by component proofs\<close>
named_theorems ascii_simps \<open>byte class tests\<close>

section \<open>Errors\<close>

text \<open>
  \<open>Sentinel\<close> is a package level \<open>errors.New\<close> value, identified by its text (the texts of the
  program's sentinels are pairwise different); \<open>Errorf\<close> an error that wraps nothing;
  \<open>Wrap pre e post\<close> is \<open>fmt.Errorf\<close> with \<open>%w\<close> between the texts \<open>pre\<close> and \<open>post\<close>.
\<close>

datatype go_error =
    Sentinel string
  | Errorf string
  | Wrap string go_error string

fun error_text :: "go_error \<Rightarrow> string" where
  "error_text (Sentinel s) = s"
| "error_text (Errorf s) = s"
| "error_text (Wrap p e q) = p @ error_text e @ q"

fun errors_is :: "go_error \<Rightarrow> go_error \<Rightarrow> bool" where
  "errors_is (Wrap p e q) t \<longleftrightarrow> Wrap p e q = t \<or> errors_is e t"
| "errors_is e t \<longleftrightarrow> e = t"

type_synonym 'a result = "go_error + 'a"

lemma errors_is_refl [simp]: "errors_is e e"
  by (cases e) auto

lemma errors_is_Sentinel [simp]:
  "errors_is (Sentinel s) t \<longleftrightarrow> t = Sentinel s"
  "errors_is (Errorf s) t \<longleftrightarrow> t = Errorf s"
  by auto

definition res_map :: "('a \<Rightarrow> 'b) \<Rightarrow> 'a result \<Rightarrow> 'b result" where
  "res_map f r = (case r of Inl e \<Rightarrow> Inl e | Inr x \<Rightarrow> Inr (f x))"

lemma res_map_simps [simp]:
  "res_map f (Inl e) = Inl e" "res_map f (Inr x) = Inr (f x)"
  by (simp_all add: res_map_def)

section \<open>Lists\<close>

lemma prefix_append_self [simp]: "prefix p (p @ s)"
  by (simp add: prefix_def)

lemma prefix_code_drop: "prefix p s \<Longrightarrow> s = p @ drop (length p) s"
  by (auto simp: prefix_def)

lemma prefix_Cons_Cons: "prefix (x # xs) (y # ys) \<longleftrightarrow> x = y \<and> prefix xs ys"
  by simp

lemma not_prefix_hd: "p \<noteq> [] \<Longrightarrow> s \<noteq> [] \<Longrightarrow> hd p \<noteq> hd s \<Longrightarrow> \<not> prefix p s"
  by (cases p; cases s) auto

lemma list_all_take_mono: "list_all P (take k xs) \<Longrightarrow> j \<le> k \<Longrightarrow> list_all P (take j xs)"
  by (metis list_all_append append_take_drop_id min.absorb1 take_take)

end
