(* ===== verification/GoStrings.thy ===== *)
theory GoStrings imports Prelude begin

text \<open>
  What the program uses of Go's \<open>strings\<close>, \<open>bytes\<close>, \<open>unicode/utf8\<close>, \<open>strconv\<close>,
  \<open>encoding/hex\<close> and \<open>fmt\<close>: searching and cutting, white space trimming, UTF-8 decoding,
  decimal and hexadecimal numbers and the \<open>%q\<close> quoting.
\<close>

section \<open>Byte classes\<close>

abbreviation byte :: "char \<Rightarrow> nat" where
  "byte \<equiv> of_char"

definition is_lower :: "char \<Rightarrow> bool" where
  "is_lower c \<longleftrightarrow> 97 \<le> byte c \<and> byte c \<le> 122"

definition is_upper :: "char \<Rightarrow> bool" where
  "is_upper c \<longleftrightarrow> 65 \<le> byte c \<and> byte c \<le> 90"

definition is_digit :: "char \<Rightarrow> bool" where
  "is_digit c \<longleftrightarrow> 48 \<le> byte c \<and> byte c \<le> 57"

definition is_lower_hex :: "char \<Rightarrow> bool" where
  "is_lower_hex c \<longleftrightarrow> is_digit c \<or> (97 \<le> byte c \<and> byte c \<le> 102)"

definition is_ascii :: "char \<Rightarrow> bool" where
  "is_ascii c \<longleftrightarrow> byte c < 128"

definition is_ascii_space :: "char \<Rightarrow> bool" where
  \<comment> \<open>\<open>unicode.IsSpace\<close> on the ASCII range: tab, newline, VT, FF, CR, space\<close>
  "is_ascii_space c \<longleftrightarrow> (9 \<le> byte c \<and> byte c \<le> 13) \<or> byte c = 32"

lemmas byte_classes = is_lower_def is_upper_def is_digit_def is_lower_hex_def is_ascii_def
  is_ascii_space_def

lemma byte_less [simp]: "byte c < 256"
  using of_char_mod_256 [of c, where 'a = nat]
  by (metis mod_less_divisor zero_less_numeral)

lemma byte_inject [simp]: "byte c = byte d \<longleftrightarrow> c = d"
  by (metis char_of_char)

lemma byte_char_of: "n < 256 \<Longrightarrow> byte (char_of n) = n"
  by simp

section \<open>Searching\<close>

text \<open>\<open>strings.Cut\<close>: the text before and after the first occurrence of \<open>pat\<close>.\<close>

fun cut :: "string \<Rightarrow> string \<Rightarrow> (string \<times> string) option" where
  "cut pat [] = (if pat = [] then Some ([], []) else None)"
| "cut pat (c # s) =
     (if prefix pat (c # s) then Some ([], drop (length pat) (c # s))
      else case cut pat s of None \<Rightarrow> None | Some (b, a) \<Rightarrow> Some (c # b, a))"

text \<open>\<open>strings.Index\<close>: \<open>None\<close> for \<open>-1\<close>.\<close>

definition index_of :: "string \<Rightarrow> string \<Rightarrow> nat option" where
  "index_of s pat = (case cut pat s of None \<Rightarrow> None | Some (b, a) \<Rightarrow> Some (length b))"

lemma cut_Some_eq: "cut pat s = Some (b, a) \<Longrightarrow> s = b @ pat @ a"
proof (induction s arbitrary: b a)
  case Nil
  then show ?case by (simp split: if_splits)
next
  case (Cons c s)
  then show ?case
    by (auto split: if_splits option.splits prod.splits dest: prefix_code_drop)
qed

lemma cut_None_iff: "cut pat s = None \<longleftrightarrow> \<not> sublist pat s"
  by (induction s) (auto split: option.splits simp: sublist_Cons_right)

lemma cut_first:
  assumes "cut pat s = Some (b, a)" and "b = b1 @ b2" and "b2 \<noteq> []"
  shows "\<not> prefix pat (b2 @ pat @ a)"
  using assms
proof (induction s arbitrary: b b1)
  case Nil
  then show ?case by (auto split: if_splits)
next
  case (Cons c s)
  then show ?case
    by (cases b1) (auto split: if_splits option.splits prod.splits dest: cut_Some_eq)
qed

lemma cut_prefix: "prefix pat s \<Longrightarrow> cut pat s = Some ([], drop (length pat) s)"
  by (cases s) (auto simp: prefix_def)

lemma cut_appendI:
  assumes "\<And>b1 b2. b = b1 @ b2 \<Longrightarrow> b2 \<noteq> [] \<Longrightarrow> \<not> prefix pat (b2 @ pat @ a)"
  shows "cut pat (b @ pat @ a) = Some (b, a)"
  using assms
proof (induction b)
  case Nil
  then show ?case by (simp add: cut_prefix)
next
  case (Cons c b)
  have "\<not> prefix pat ((c # b) @ pat @ a)"
    using Cons.prems [of "[]" "c # b"] by simp
  moreover have "cut pat (b @ pat @ a) = Some (b, a)"
    by (rule Cons.IH) (metis Cons.prems append_Cons)
  ultimately show ?case by simp
qed

text \<open>A pattern whose first byte does not occur in the text before it is found at once.\<close>

lemma cut_hd_fresh:
  assumes "pat \<noteq> []" and "hd pat \<notin> set b"
  shows "cut pat (b @ pat @ a) = Some (b, a)"
proof (rule cut_appendI)
  fix b1 b2 assume "b = b1 @ b2" "b2 \<noteq> []"
  with assms have "hd pat \<noteq> hd (b2 @ pat @ a)" by (auto simp: neq_Nil_conv)
  with \<open>b2 \<noteq> []\<close> \<open>pat \<noteq> []\<close> show "\<not> prefix pat (b2 @ pat @ a)"
    by (intro not_prefix_hd) auto
qed

text \<open>\<open>strings.Split\<close> and \<open>strings.Join\<close> on a one byte separator, \<open>strings.TrimPrefix\<close>,
  \<open>strings.TrimRight\<close> on one byte.\<close>

fun split_on :: "char \<Rightarrow> string \<Rightarrow> string list" where
  "split_on sep [] = [[]]"
| "split_on sep (c # s) =
     (if c = sep then [] # split_on sep s
      else case split_on sep s of [] \<Rightarrow> [[c]] | l # ls \<Rightarrow> (c # l) # ls)"

fun join_with :: "char \<Rightarrow> string list \<Rightarrow> string" where
  "join_with sep [] = []"
| "join_with sep [l] = l"
| "join_with sep (l # ls) = l @ sep # join_with sep ls"

lemma split_on_nonempty [simp]: "split_on sep s \<noteq> []"
  by (induction s) (auto split: list.splits)

lemma join_with_Cons: "ls \<noteq> [] \<Longrightarrow> join_with sep (l # ls) = l @ sep # join_with sep ls"
  by (cases ls) auto

lemma join_split [simp]: "join_with sep (split_on sep s) = s"
proof (induction s)
  case (Cons c s)
  then show ?case by (cases "split_on sep s"; cases "tl (split_on sep s)") auto
qed simp

definition trim_prefix :: "string \<Rightarrow> string \<Rightarrow> string" where
  "trim_prefix s p = (if prefix p s then drop (length p) s else s)"

definition trim_right_byte :: "string \<Rightarrow> char \<Rightarrow> string" where
  "trim_right_byte s c = rev (dropWhile (\<lambda>x. x = c) (rev s))"

section \<open>UTF-8\<close>

definition is_cont :: "char \<Rightarrow> bool" where
  "is_cont c \<longleftrightarrow> 128 \<le> byte c \<and> byte c \<le> 191"

text \<open>
  \<open>utf8.DecodeRune\<close> on a nonempty string: the code point and the number of bytes of the first
  rune, or \<open>None\<close> where Go returns \<open>(RuneError, 1)\<close>. Overlong forms, surrogates and values
  above U+10FFFF are invalid.
\<close>

fun utf8_decode :: "string \<Rightarrow> (nat \<times> nat) option" where
  "utf8_decode [] = None"
| "utf8_decode (c # t) =
     (let b = byte c in
      if b < 128 then Some (b, 1)
      else if b < 194 then None
      else if b < 224 then
        (case t of c1 # _ \<Rightarrow>
           if is_cont c1 then Some ((b - 192) * 64 + (byte c1 - 128), 2) else None
         | _ \<Rightarrow> None)
      else if b < 240 then
        (case t of c1 # c2 # _ \<Rightarrow>
           if (if b = 224 then 160 else 128) \<le> byte c1
              \<and> byte c1 \<le> (if b = 237 then 159 else 191) \<and> is_cont c2
           then Some ((b - 224) * 4096 + (byte c1 - 128) * 64 + (byte c2 - 128), 3) else None
         | _ \<Rightarrow> None)
      else if b < 245 then
        (case t of c1 # c2 # c3 # _ \<Rightarrow>
           if (if b = 240 then 144 else 128) \<le> byte c1
              \<and> byte c1 \<le> (if b = 244 then 143 else 191) \<and> is_cont c2 \<and> is_cont c3
           then Some ((b - 240) * 262144 + (byte c1 - 128) * 4096 + (byte c2 - 128) * 64
                      + (byte c3 - 128), 4) else None
         | _ \<Rightarrow> None)
      else None)"

lemma utf8_decode_size:
  "utf8_decode s = Some (r, n) \<Longrightarrow> 0 < n \<and> n \<le> length s"
  by (cases s) (auto simp: Let_def split: if_splits list.splits)

declare utf8_decode.simps(2) [simp del]

lemma utf8_decode_ascii: "is_ascii c \<Longrightarrow> utf8_decode (c # s) = Some (byte c, 1)"
  by (simp add: is_ascii_def Let_def utf8_decode.simps(2))

text \<open>\<open>utf8.AppendRune\<close> on a code point that is not a surrogate and at most U+10FFFF.\<close>

definition utf8_encode :: "nat \<Rightarrow> string" where
  "utf8_encode r =
     (if r < 128 then [char_of r]
      else if r < 2048 then [char_of (192 + r div 64), char_of (128 + r mod 64)]
      else if r < 65536 then
        [char_of (224 + r div 4096), char_of (128 + r div 64 mod 64), char_of (128 + r mod 64)]
      else
        [char_of (240 + r div 262144), char_of (128 + r div 4096 mod 64),
         char_of (128 + r div 64 mod 64), char_of (128 + r mod 64)])"

lemma of_char_eqI: "byte c = n \<Longrightarrow> char_of n = c"
  by auto

lemma div64: "b < 64 \<Longrightarrow> (a * 64 + b) div 64 = (a :: nat)"
  and mod64: "b < 64 \<Longrightarrow> (a * 64 + b) mod 64 = (b :: nat)"
  by simp_all

lemma utf8_decode_encode:
  assumes "utf8_decode s = Some (r, n)"
  shows "take n s = utf8_encode r"
proof (cases s)
  case (Cons c t)
  let ?b = "byte c"
  consider "?b < 128" | "194 \<le> ?b" "?b < 224" | "224 \<le> ?b" "?b < 240" | "240 \<le> ?b" "?b < 245"
    using assms Cons by (fastforce simp: utf8_decode.simps(2) Let_def split: if_splits)
  then show ?thesis
  proof cases
    case 1
    then show ?thesis using assms Cons by (auto simp: utf8_decode.simps(2) Let_def utf8_encode_def)
  next
    case 2
    then obtain c1 t' where t: "t = c1 # t'" "is_cont c1" "r = (?b - 192) * 64 + (byte c1 - 128)" "n = 2"
      using assms Cons by (auto simp: utf8_decode.simps(2) Let_def split: if_splits list.splits)
    define x y where "x = ?b - 192" and "y = byte c1 - 128"
    have xy: "?b = x + 192" "byte c1 = y + 128" "2 \<le> x" "x < 32" "y < 64"
      using 2 t by (auto simp: x_def y_def is_cont_def)
    have r: "r = x * 64 + y" using t by (simp add: x_def y_def)
    have "r div 64 = x" "r mod 64 = y" using xy unfolding r by simp_all
    then show ?thesis using t xy Cons
      by (auto simp: utf8_encode_def numeral_2_eq_2 r intro!: of_char_eqI [symmetric])
  next
    case 3
    then obtain c1 c2 t' where t: "t = c1 # c2 # t'" "is_cont c1" "is_cont c2" "n = 3"
      "(if ?b = 224 then 160 else 128) \<le> byte c1"
      "r = (?b - 224) * 4096 + (byte c1 - 128) * 64 + (byte c2 - 128)"
      using assms Cons
      by (auto simp: utf8_decode.simps(2) Let_def is_cont_def split: if_splits list.splits)
    define x y z where "x = ?b - 224" and "y = byte c1 - 128" and "z = byte c2 - 128"
    have xyz: "?b = x + 224" "byte c1 = y + 128" "byte c2 = z + 128" "x < 16" "y < 64" "z < 64"
      "x = 0 \<Longrightarrow> 32 \<le> y"
      using 3 t by (auto simp: x_def y_def z_def is_cont_def split: if_splits)
    have r: "r = (x * 64 + y) * 64 + z" using t by (simp add: x_def y_def z_def)
    have d: "r div 64 = x * 64 + y" "r mod 64 = z" unfolding r using xyz by (simp_all only: div64 mod64)
    have "r div 4096 = r div 64 div 64" by (simp flip: div_mult2_eq)
    with d have d4: "r div 4096 = x" "r div 64 mod 64 = y" using xyz by (simp_all only: div64 mod64)
    have "2048 \<le> r" "r < 65536" using xyz unfolding r by (cases "x = 0"; simp)+
    then show ?thesis using t xyz Cons d d4
      by (auto simp: utf8_encode_def numeral_3_eq_3 intro!: of_char_eqI [symmetric])
  next
    case 4
    then obtain c1 c2 c3 t' where t: "t = c1 # c2 # c3 # t'" "is_cont c1" "is_cont c2" "is_cont c3" "n = 4"
      "(if ?b = 240 then 144 else 128) \<le> byte c1"
      "r = (?b - 240) * 262144 + (byte c1 - 128) * 4096 + (byte c2 - 128) * 64 + (byte c3 - 128)"
      using assms Cons
      by (auto simp: utf8_decode.simps(2) Let_def is_cont_def split: if_splits list.splits)
    define x y z u where "x = ?b - 240" and "y = byte c1 - 128" and "z = byte c2 - 128"
      and "u = byte c3 - 128"
    have xyz: "?b = x + 240" "byte c1 = y + 128" "byte c2 = z + 128" "byte c3 = u + 128"
      "x < 5" "y < 64" "z < 64" "u < 64" "x = 0 \<Longrightarrow> 16 \<le> y"
      using 4 t by (auto simp: x_def y_def z_def u_def is_cont_def split: if_splits)
    have r: "r = ((x * 64 + y) * 64 + z) * 64 + u" using t by (simp add: x_def y_def z_def u_def)
    have d: "r div 64 = (x * 64 + y) * 64 + z" "r mod 64 = u"
      unfolding r using xyz by (simp_all only: div64 mod64)
    have e: "r div 4096 = r div 64 div 64" "r div 262144 = r div 64 div 64 div 64"
      by (simp_all flip: div_mult2_eq)
    have d4: "r div 64 mod 64 = z" "r div 4096 = x * 64 + y"
      unfolding e d using xyz by (simp_all only: div64 mod64)
    have d5: "r div 4096 mod 64 = y" "r div 262144 = x"
      unfolding d4 e d using xyz by (simp_all only: div64 mod64)
    have "65536 \<le> r" using xyz unfolding r by (cases "x = 0") simp_all
    then show ?thesis using t xyz Cons d d4 d5
      by (auto simp: utf8_encode_def intro!: of_char_eqI [symmetric])
  qed
qed (use assms in simp)

lemma utf8_decode_local:
  assumes "utf8_decode s = Some (r, n)"
  shows "utf8_decode (take n s @ x) = Some (r, n)"
proof (cases s)
  case (Cons c t)
  show ?thesis
    using assms
    by (auto simp: Cons utf8_decode.simps(2) Let_def split: if_splits list.splits)
qed (use assms in simp)

lemma utf8_decode_non_ascii: "\<not> is_ascii c \<Longrightarrow> utf8_decode (c # s) = Some (r, n) \<Longrightarrow> 128 \<le> r"
  using utf8_decode_encode [of "c # s" r n] utf8_decode_size [of "c # s" r n]
  by (cases n) (auto simp: utf8_encode_def is_ascii_def split: if_splits)

text \<open>A string all of whose bytes belong to valid runes (\<open>utf8.ValidString\<close>).\<close>

function utf8_valid :: "string \<Rightarrow> bool" where
  "utf8_valid s =
     (s = [] \<or> (case utf8_decode s of None \<Rightarrow> False | Some (r, n) \<Rightarrow> utf8_valid (drop n s)))"
  by pat_completeness auto
termination
  by (relation "measure length") (auto dest: utf8_decode_size)

declare utf8_valid.simps [simp del]

lemma utf8_valid_Nil [simp]: "utf8_valid []"
  by (simp add: utf8_valid.simps)

lemma utf8_valid_ascii_Cons [simp]: "is_ascii c \<Longrightarrow> utf8_valid (c # s) = utf8_valid s"
  by (simp add: utf8_valid.simps [of "c # s"] utf8_decode_ascii)

lemma utf8_valid_ascii: "list_all is_ascii s \<Longrightarrow> utf8_valid s"
  by (induction s) auto

section \<open>White space trimming\<close>

text \<open>
  \<open>strings.TrimSpace\<close> and \<open>bytes.TrimSpace\<close> strip the runes of \<open>unicode.IsSpace\<close>. Each is
  given by its UTF-8 encoding; an encoding is recognised at either end of a string whatever
  the bytes next to it are.
\<close>

definition space_encodings :: "string list" where
  \<comment> \<open>U+0009 to U+000D, U+0020, U+0085, U+00A0, U+1680, U+2000 to U+200A, U+2028, U+2029,
    U+202F, U+205F, U+3000\<close>
  "space_encodings =
     [[CHR 0x09], [CHR 0x0A], [CHR 0x0B], [CHR 0x0C], [CHR 0x0D], [CHR 0x20],
      [CHR 0xC2, CHR 0x85], [CHR 0xC2, CHR 0xA0], [CHR 0xE1, CHR 0x9A, CHR 0x80],
      [CHR 0xE2, CHR 0x80, CHR 0x80], [CHR 0xE2, CHR 0x80, CHR 0x81],
      [CHR 0xE2, CHR 0x80, CHR 0x82], [CHR 0xE2, CHR 0x80, CHR 0x83],
      [CHR 0xE2, CHR 0x80, CHR 0x84], [CHR 0xE2, CHR 0x80, CHR 0x85],
      [CHR 0xE2, CHR 0x80, CHR 0x86], [CHR 0xE2, CHR 0x80, CHR 0x87],
      [CHR 0xE2, CHR 0x80, CHR 0x88], [CHR 0xE2, CHR 0x80, CHR 0x89],
      [CHR 0xE2, CHR 0x80, CHR 0x8A], [CHR 0xE2, CHR 0x80, CHR 0xA8],
      [CHR 0xE2, CHR 0x80, CHR 0xA9], [CHR 0xE2, CHR 0x80, CHR 0xAF],
      [CHR 0xE2, CHR 0x81, CHR 0x9F], [CHR 0xE3, CHR 0x80, CHR 0x80]]"

definition match_first :: "string list \<Rightarrow> string \<Rightarrow> string option" where
  "match_first ps s = find (\<lambda>p. p \<noteq> [] \<and> prefix p s) ps"

function strip_any :: "string list \<Rightarrow> string \<Rightarrow> string" where
  "strip_any ps s =
     (case match_first ps s of None \<Rightarrow> s | Some p \<Rightarrow> strip_any ps (drop (length p) s))"
  by pat_completeness auto
termination
  by (relation "measure (\<lambda>(ps, s). length s)")
     (auto simp: match_first_def find_Some_iff prefix_def)

declare strip_any.simps [simp del]

definition trim_left :: "string \<Rightarrow> string" where
  "trim_left = strip_any space_encodings"

definition trim_right :: "string \<Rightarrow> string" where
  "trim_right s = rev (strip_any (map rev space_encodings) (rev s))"

definition trim_space :: "string \<Rightarrow> string" where
  "trim_space s = trim_right (trim_left s)"

lemma strip_any_Nil [simp]: "strip_any ps [] = []"
  by (subst strip_any.simps) (auto simp: match_first_def find_Some_iff split: option.splits)

lemma strip_any_suffix: "suffix (strip_any ps s) s"
proof (induction ps s rule: strip_any.induct)
  case (1 ps s)
  show ?case
    by (subst strip_any.simps)
       (auto split: option.splits dest!: 1 simp: suffix_drop intro: suffix_order.trans)
qed

lemma strip_any_none: "match_first ps s = None \<Longrightarrow> strip_any ps s = s"
  by (subst strip_any.simps) simp

lemma match_first_None_iff: "match_first ps s = None \<longleftrightarrow> (\<forall>p\<in>set ps. p \<noteq> [] \<longrightarrow> \<not> prefix p s)"
  by (auto simp: match_first_def find_None_iff)

lemma match_first_strip_any [simp]: "match_first ps (strip_any ps s) = None"
proof (induction ps s rule: strip_any.induct)
  case (1 ps s)
  show ?case
    by (subst strip_any.simps) (auto split: option.splits dest: 1)
qed

lemma char_eq_byte: "c = d \<longleftrightarrow> byte c = byte d"
  by simp

lemma is_ascii_space_iff:
  "is_ascii_space c \<longleftrightarrow> c = CHR 0x09 \<or> c = CHR 0x0A \<or> c = CHR 0x0B \<or> c = CHR 0x0C
     \<or> c = CHR 0x0D \<or> c = CHR 0x20"
  unfolding char_eq_byte is_ascii_space_def by auto

lemma ascii_not_lead:
  assumes "is_ascii c"
  shows "c \<noteq> CHR 0xC2" "c \<noteq> CHR 0xE1" "c \<noteq> CHR 0xE2" "c \<noteq> CHR 0xE3"
    "c \<noteq> CHR 0x85" "c \<noteq> CHR 0xA0" "\<And>b. 128 \<le> byte b \<Longrightarrow> c \<noteq> b"
  using assms unfolding is_ascii_def by auto

lemma match_first_ascii:
  assumes "is_ascii c"
  shows "match_first space_encodings (c # s) = (if is_ascii_space c then Some [c] else None)"
    and "match_first (map rev space_encodings) (c # s) = (if is_ascii_space c then Some [c] else None)"
proof -
  have ne: "c \<noteq> b" if "128 \<le> byte b" for b
    using assms that by (auto simp: is_ascii_def)
  have [simp]: "c \<noteq> CHR 0xC2" "c \<noteq> CHR 0xE1" "c \<noteq> CHR 0xE2" "c \<noteq> CHR 0xE3"
    "c \<noteq> CHR 0x85" "c \<noteq> CHR 0xA0" "c \<noteq> CHR 0x80" "c \<noteq> CHR 0x81" "c \<noteq> CHR 0x82"
    "c \<noteq> CHR 0x83" "c \<noteq> CHR 0x84" "c \<noteq> CHR 0x86" "c \<noteq> CHR 0x87"
    "c \<noteq> CHR 0x88" "c \<noteq> CHR 0x89" "c \<noteq> CHR 0x8A" "c \<noteq> CHR 0xA8" "c \<noteq> CHR 0xA9"
    "c \<noteq> CHR 0xAF" "c \<noteq> CHR 0x9F"
    by (rule ne; simp)+
  note [simp] = this [symmetric]
  show "match_first space_encodings (c # s) = (if is_ascii_space c then Some [c] else None)"
    by (auto simp: match_first_def space_encodings_def is_ascii_space_iff)
  show "match_first (map rev space_encodings) (c # s) = (if is_ascii_space c then Some [c] else None)"
    by (auto simp: match_first_def space_encodings_def is_ascii_space_iff)
qed

lemma is_ascii_spaceD: "is_ascii_space c \<Longrightarrow> is_ascii c"
  by (auto simp: is_ascii_space_def is_ascii_def)

lemma strip_any_ascii:
  assumes "is_ascii c"
  shows "strip_any space_encodings (c # s) =
      (if is_ascii_space c then strip_any space_encodings s else c # s)"
    and "strip_any (map rev space_encodings) (c # s) =
      (if is_ascii_space c then strip_any (map rev space_encodings) s else c # s)"
  by (subst strip_any.simps, simp add: match_first_ascii [OF assms])+

lemma trim_left_spaces: "list_all is_ascii_space w \<Longrightarrow> trim_left (w @ s) = trim_left s"
  by (induction w) (auto simp: trim_left_def strip_any_ascii is_ascii_spaceD)

lemma trim_right_spaces: "list_all is_ascii_space w \<Longrightarrow> trim_right (s @ w) = trim_right s"
  by (induction w rule: rev_induct) (auto simp: trim_right_def strip_any_ascii is_ascii_spaceD)

lemma trim_left_keep: "s \<noteq> [] \<Longrightarrow> is_ascii (hd s) \<Longrightarrow> \<not> is_ascii_space (hd s) \<Longrightarrow> trim_left s = s"
  by (cases s) (auto simp: trim_left_def strip_any_ascii)

lemma trim_right_keep:
  "s \<noteq> [] \<Longrightarrow> is_ascii (last s) \<Longrightarrow> \<not> is_ascii_space (last s) \<Longrightarrow> trim_right s = s"
  by (cases s rule: rev_cases) (auto simp: trim_right_def strip_any_ascii)

text \<open>Padding a text with ASCII white space does not change what is left after trimming.\<close>

lemma trim_space_pad:
  assumes "s \<noteq> []" "is_ascii (hd s)" "\<not> is_ascii_space (hd s)"
    and "is_ascii (last s)" "\<not> is_ascii_space (last s)"
    and "list_all is_ascii_space w1" "list_all is_ascii_space w2"
  shows "trim_space (w1 @ s @ w2) = s"
proof -
  have "trim_left (w1 @ s @ w2) = s @ w2"
    using assms by (simp add: trim_left_spaces) (simp add: trim_left_keep)
  then show ?thesis
    using assms by (simp add: trim_space_def trim_right_spaces trim_right_keep)
qed

lemma trim_space_Nil [simp]: "trim_space [] = []"
  by (simp add: trim_space_def trim_left_def trim_right_def)

section \<open>Numbers and quoting\<close>

definition digit_char :: "nat \<Rightarrow> char" where
  "digit_char d = char_of (48 + d)"

definition hex_char :: "nat \<Rightarrow> char" where
  "hex_char d = (if d < 10 then char_of (48 + d) else char_of (87 + d))"

text \<open>\<open>strconv.Itoa\<close> and \<open>%d\<close>; \<open>big.Int.Text(16)\<close> on a nonnegative number.\<close>

fun show_base :: "nat \<Rightarrow> nat \<Rightarrow> string" where
  "show_base b n =
     (if b < 2 \<or> n < b then [hex_char n] else show_base b (n div b) @ [hex_char (n mod b)])"

declare show_base.simps [simp del]

definition show_nat :: "nat \<Rightarrow> string" where
  "show_nat n = show_base 10 n"

definition show_int :: "int \<Rightarrow> string" where
  "show_int i = (if i < 0 then CHR ''-'' # show_nat (nat (- i)) else show_nat (nat i))"

text \<open>\<open>hex.EncodeToString\<close>.\<close>

definition hex_byte :: "char \<Rightarrow> string" where
  "hex_byte c = [hex_char (byte c div 16), hex_char (byte c mod 16)]"

definition hex_encode :: "string \<Rightarrow> string" where
  "hex_encode bs = concat (map hex_byte bs)"

text \<open>
  \<open>strconv.Quote\<close>, which \<open>%q\<close> uses. ASCII is exact and bytes of invalid UTF-8 become
  \<open>\x\<close> escapes; valid runes beyond ASCII are all kept, where Go writes the unprintable ones
  as \<open>\u\<close> escapes (this only shapes the text of a message).
\<close>

definition quote_ascii :: "char \<Rightarrow> string" where
  "quote_ascii c =
     (if c = CHR 0x22 then [CHR 0x5C, CHR 0x22]
      else if c = CHR 0x5C then [CHR 0x5C, CHR 0x5C]
      else if 32 \<le> byte c \<and> byte c < 127 then [c]
      else if byte c = 7 then CHR 0x5C # ''a''
      else if byte c = 8 then CHR 0x5C # ''b''
      else if byte c = 12 then CHR 0x5C # ''f''
      else if byte c = 10 then CHR 0x5C # ''n''
      else if byte c = 13 then CHR 0x5C # ''r''
      else if byte c = 9 then CHR 0x5C # ''t''
      else if byte c = 11 then CHR 0x5C # ''v''
      else CHR 0x5C # CHR ''x'' # hex_byte c)"

function quote_body :: "string \<Rightarrow> string" where
  "quote_body s =
     (case s of [] \<Rightarrow> []
      | c # t \<Rightarrow>
          if is_ascii c then quote_ascii c @ quote_body t
          else (case utf8_decode s of
                  None \<Rightarrow> CHR 0x5C # CHR ''x'' # hex_byte c @ quote_body t
                | Some (r, n) \<Rightarrow> take n s @ quote_body (drop n s)))"
  by pat_completeness auto
termination
  by (relation "measure length") (auto dest: utf8_decode_size)

declare quote_body.simps [simp del]

definition go_quote :: "string \<Rightarrow> string" where
  "go_quote s = CHR 0x22 # quote_body s @ [CHR 0x22]"

lemma length_hex_encode [simp]: "length (hex_encode bs) = 2 * length bs"
  by (induction bs) (auto simp: hex_encode_def hex_byte_def)

lemma hex_encode_simps [simp]:
  "hex_encode [] = []" "hex_encode (c # bs) = hex_byte c @ hex_encode bs"
  by (simp_all add: hex_encode_def)

lemma byte_hex_char: "d < 16 \<Longrightarrow> byte (hex_char d) = (if d < 10 then 48 + d else 87 + d)"
  by (simp add: hex_char_def)

lemma is_lower_hex_hex_char: "d < 16 \<Longrightarrow> is_lower_hex (hex_char d)"
  by (auto simp: is_lower_hex_def is_digit_def byte_hex_char)

lemma hex_char_inj: "d < 16 \<Longrightarrow> e < 16 \<Longrightarrow> hex_char d = hex_char e \<longleftrightarrow> d = e"
  by (auto simp: char_eq_byte byte_hex_char split: if_splits simp del: byte_inject)

lemma hex_encode_lower_hex: "list_all is_lower_hex (hex_encode bs)"
proof (induction bs)
  case (Cons c bs)
  have "byte c div 16 < 16" using byte_less [of c] by linarith
  then show ?case using Cons by (simp add: hex_byte_def is_lower_hex_hex_char)
qed simp

lemma hex_encode_inj: "hex_encode a = hex_encode b \<Longrightarrow> a = b"
proof (induction a arbitrary: b)
  case Nil
  then show ?case by (cases b) (auto simp: hex_byte_def)
next
  case (Cons c a)
  then obtain d b' where b: "b = d # b'" by (cases b) (auto simp: hex_byte_def)
  have lt: "byte x div 16 < 16" for x using byte_less [of x] by linarith
  from Cons.prems b have "byte c div 16 = byte d div 16" "byte c mod 16 = byte d mod 16"
    by (auto simp: hex_byte_def hex_char_inj lt)
  then have "byte c = byte d" by (metis div_mult_mod_eq)
  with Cons b show ?case by (auto simp: hex_byte_def)
qed

lemma is_lower_hex_ascii: "is_lower_hex c \<Longrightarrow> is_ascii c \<and> \<not> is_ascii_space c"
  by (auto simp: is_lower_hex_def is_digit_def is_ascii_def is_ascii_space_def)

end
