(* ===== verification/GoRegexp.thy ===== *)
theory GoRegexp imports GoStrings begin

text \<open>
  The fragment of Go's \<open>regexp\<close> the program uses: byte classes, concatenation, alternation,
  greedy and lazy stars, bounded repetition, groups and the anchors of a pattern without the
  \<open>m\<close> flag (\<open>$\<close> matches at the very end of the text only). Matching is leftmost first, as
  in Perl: \<open>rm\<close> lists the ways a pattern matches at a place in order of preference, and
  \<open>re_find\<close> takes the first way at the leftmost place.

  The program's classes only separate ASCII bytes from each other, so that matching bytes and
  matching runes give the same result on every text.
\<close>

datatype re =
    Eps
  | Cls "char \<Rightarrow> bool"
  | Cat re re
  | Alt re re
  | Star bool re \<comment> \<open>\<open>True\<close>: greedy, \<open>False\<close>: lazy\<close>
  | Rep nat nat re \<comment> \<open>greedy \<open>{lo,hi}\<close>, \<open>lo + n\<close> written as \<open>Rep lo n\<close> optional rounds\<close>
  | Grp re
  | Bol
  | Eol

text \<open>A way to match: the groups captured, in order, and the rest of the text.\<close>

type_synonym way = "string list \<times> string"
type_synonym matcher = "bool \<Rightarrow> string \<Rightarrow> way list"

definition seq_m :: "matcher \<Rightarrow> matcher \<Rightarrow> matcher" where
  "seq_m f g b s =
     concat (map (\<lambda>(c1, s1). map (\<lambda>(c2, s2). (c1 @ c2, s2))
                               (g (b \<and> length s1 = length s) s1)) (f b s))"

definition shorter :: "string \<Rightarrow> way list \<Rightarrow> way list" where
  "shorter s ws = filter (\<lambda>w. length (snd w) < length s) ws"

text \<open>\<open>n\<close> bounds the rounds of a star; every round consumes, so \<open>length s\<close> is enough.\<close>

fun star_m :: "matcher \<Rightarrow> bool \<Rightarrow> nat \<Rightarrow> matcher" where
  "star_m f greedy 0 b s = [([], s)]"
| "star_m f greedy (Suc n) b s =
     (let more = concat (map (\<lambda>(c1, s1). map (\<lambda>(c2, s2). (c1 @ c2, s2)) (star_m f greedy n False s1))
                           (shorter s (f b s)))
      in if greedy then more @ [([], s)] else ([], s) # more)"

text \<open>\<open>lo\<close> rounds that must happen, then up to \<open>n\<close> more, as many as possible first.\<close>

fun rep_m :: "matcher \<Rightarrow> nat \<Rightarrow> nat \<Rightarrow> matcher" where
  "rep_m f 0 0 b s = [([], s)]"
| "rep_m f 0 (Suc n) b s = seq_m f (rep_m f 0 n) b s @ [([], s)]"
| "rep_m f (Suc lo) n b s = seq_m f (rep_m f lo n) b s"

definition cls_m :: "(char \<Rightarrow> bool) \<Rightarrow> matcher" where
  "cls_m p b s = (case s of [] \<Rightarrow> [] | c # t \<Rightarrow> if p c then [([], t)] else [])"

primrec rm :: "re \<Rightarrow> matcher" where
  "rm Eps = (\<lambda>b s. [([], s)])"
| "rm (Cls p) = cls_m p"
| "rm (Cat r1 r2) = seq_m (rm r1) (rm r2)"
| "rm (Alt r1 r2) = (\<lambda>b s. rm r1 b s @ rm r2 b s)"
| "rm (Star g r) = (\<lambda>b s. star_m (rm r) g (length s) b s)"
| "rm (Rep lo n r) = rep_m (rm r) lo n"
| "rm (Grp r) = (\<lambda>b s. map (\<lambda>(c, t). (take (length s - length t) s # c, t)) (rm r b s))"
| "rm Bol = (\<lambda>b s. if b then [([], s)] else [])"
| "rm Eol = (\<lambda>b s. if s = [] then [([], s)] else [])"

fun lit :: "string \<Rightarrow> re" where
  "lit [] = Eps"
| "lit (c # s) = Cat (Cls (\<lambda>x. x = c)) (lit s)"

text \<open>The leftmost match: the text before it, the match, its groups.\<close>

fun re_search :: "re \<Rightarrow> bool \<Rightarrow> string \<Rightarrow> (string \<times> string \<times> string list) option" where
  "re_search r b s =
     (case rm r b s of
        (c, t) # _ \<Rightarrow> Some ([], take (length s - length t) s, c)
      | [] \<Rightarrow> (case s of [] \<Rightarrow> None
               | x # s' \<Rightarrow> map_option (\<lambda>(p, m, c). (x # p, m, c)) (re_search r False s')))"

declare re_search.simps [simp del]

definition re_match :: "re \<Rightarrow> string \<Rightarrow> bool" where
  "re_match r s \<longleftrightarrow> re_search r True s \<noteq> None"

text \<open>\<open>FindString\<close> returns the empty string when nothing matches.\<close>

definition re_find :: "re \<Rightarrow> string \<Rightarrow> string" where
  "re_find r s = (case re_search r True s of None \<Rightarrow> [] | Some (p, m, c) \<Rightarrow> m)"

definition re_groups :: "re \<Rightarrow> string \<Rightarrow> string list option" where
  "re_groups r s = map_option (\<lambda>(p, m, c). c) (re_search r True s)"

section \<open>Literals\<close>

lemma rm_lit: "rm (lit p) b s = (if prefix p s then [([], drop (length p) s)] else [])"
  by (induction p arbitrary: b s) (auto simp: seq_m_def cls_m_def split: list.splits)

lemma seq_m_lit:
  "seq_m (rm (lit p)) g b s =
     (if prefix p s then g (b \<and> p = []) (drop (length p) s) else [])"
proof (cases "prefix p s")
  case True
  then have "length s - length p = length s \<longleftrightarrow> p = []"
    using prefix_length_le [OF True] by (cases p) auto
  with True show ?thesis by (simp add: seq_m_def rm_lit case_prod_beta)
qed (simp add: seq_m_def rm_lit)

section \<open>Classes repeated\<close>

lemma seq_m_cls:
  "seq_m (cls_m p) g b [] = []"
  "seq_m (cls_m p) g b (x # s) = (if p x then g False s else [])"
  by (auto simp: seq_m_def cls_m_def)

lemma ex_le_Suc: "(\<exists>k\<le>Suc n. Q k) \<longleftrightarrow> Q 0 \<or> (\<exists>k\<le>n. Q (Suc k))"
proof
  assume "\<exists>k\<le>Suc n. Q k"
  then obtain k where "k \<le> Suc n" "Q k" by blast
  then show "Q 0 \<or> (\<exists>k\<le>n. Q (Suc k))" by (cases k) auto
qed auto

lemma set_opt_cls:
  "(c, t) \<in> set (rep_m (cls_m p) 0 n b s) \<longleftrightarrow>
     c = [] \<and> (\<exists>k\<le>n. k \<le> length s \<and> list_all p (take k s) \<and> t = drop k s)"
proof (induction n arbitrary: b s)
  case (Suc n)
  show ?case
  proof (cases s)
    case (Cons x s')
    have "(c, t) \<in> set (rep_m (cls_m p) 0 (Suc n) b s) \<longleftrightarrow>
        (p x \<and> c = [] \<and> (\<exists>k\<le>n. k \<le> length s' \<and> list_all p (take k s') \<and> t = drop k s'))
        \<or> c = [] \<and> t = s"
      by (auto simp: Cons seq_m_cls Suc.IH)
    also have "\<dots> \<longleftrightarrow> c = [] \<and> (\<exists>k\<le>Suc n. k \<le> length s \<and> list_all p (take k s) \<and> t = drop k s)"
      by (subst ex_le_Suc) (auto simp: Cons)
    finally show ?thesis .
  qed (auto simp: seq_m_cls)
qed auto

lemma set_rep_cls:
  "(c, t) \<in> set (rep_m (cls_m p) lo n b s) \<longleftrightarrow>
     c = [] \<and> (\<exists>k. lo \<le> k \<and> k \<le> lo + n \<and> k \<le> length s \<and> list_all p (take k s) \<and> t = drop k s)"
proof (induction lo arbitrary: b s)
  case 0
  then show ?case by (auto simp: set_opt_cls)
next
  case (Suc lo)
  show ?case
  proof (cases s)
    case Nil
    then show ?thesis by (cases n) (auto simp: seq_m_cls)
  next
    case (Cons x s')
    have "(c, t) \<in> set (rep_m (cls_m p) (Suc lo) n b s) \<longleftrightarrow>
        p x \<and> (c, t) \<in> set (rep_m (cls_m p) lo n False s')"
      by (simp add: Cons seq_m_cls)
    also have "\<dots> \<longleftrightarrow> p x \<and> c = [] \<and> (\<exists>k. lo \<le> k \<and> k \<le> lo + n \<and> k \<le> length s'
        \<and> list_all p (take k s') \<and> t = drop k s')"
      by (simp add: Suc.IH)
    also have "\<dots> \<longleftrightarrow> c = [] \<and> (\<exists>k. Suc lo \<le> Suc k \<and> Suc k \<le> Suc lo + n \<and> Suc k \<le> length s
        \<and> list_all p (take (Suc k) s) \<and> t = drop (Suc k) s)"
      by (auto simp: Cons)
    also have "\<dots> \<longleftrightarrow> c = [] \<and> (\<exists>k. Suc lo \<le> k \<and> k \<le> Suc lo + n \<and> k \<le> length s
        \<and> list_all p (take k s) \<and> t = drop k s)"
      by (metis Suc_le_D)
    finally show ?thesis .
  qed
qed

section \<open>Anchored patterns\<close>

lemma set_seq_m:
  "(c, t) \<in> set (seq_m f g b s) \<longleftrightarrow>
     (\<exists>c1 t1 c2. (c1, t1) \<in> set (f b s) \<and> (c2, t) \<in> set (g (b \<and> length t1 = length s) t1)
        \<and> c = c1 @ c2)"
  by (force simp: seq_m_def)

lemma re_search_anchored: "re_search (Cat Bol r) False s = None"
proof (induction s)
  case Nil
  then show ?case by (subst re_search.simps) (simp add: seq_m_def)
next
  case (Cons x s)
  then show ?case by (subst re_search.simps) (simp add: seq_m_def)
qed

lemma re_match_anchored: "re_match (Cat Bol r) s \<longleftrightarrow> rm r True s \<noteq> []"
proof -
  have "rm (Cat Bol r) True s = rm r True s"
    by (simp add: seq_m_def)
  then show ?thesis
    by (subst re_match_def, subst re_search.simps)
       (auto simp: re_search_anchored split: list.splits)
qed

lemma ways_nonempty_iff: "ws \<noteq> [] \<longleftrightarrow> (\<exists>c t. (c, t) \<in> set ws)"
  by (cases ws) auto

section \<open>Exact repetition and the leftmost match\<close>

lemma rep_cls_exact:
  "rep_m (cls_m p) n 0 b s =
     (if n \<le> length s \<and> list_all p (take n s) then [([], drop n s)] else [])"
proof (induction n arbitrary: b s)
  case (Suc n)
  then show ?case by (cases s) (simp_all add: seq_m_cls)
qed simp

lemma re_search_None:
  "re_search r b s = None \<longleftrightarrow> (\<forall>k\<le>length s. rm r (b \<and> k = 0) (drop k s) = [])"
proof (induction s arbitrary: b)
  case Nil
  then show ?case by (subst re_search.simps) (auto split: list.splits)
next
  case (Cons x s)
  have "re_search r b (x # s) = None \<longleftrightarrow> rm r b (x # s) = [] \<and> re_search r False s = None"
    by (subst re_search.simps) (auto split: list.splits)
  also have "\<dots> \<longleftrightarrow> (\<forall>k\<le>length (x # s). rm r (b \<and> k = 0) (drop k (x # s)) = [])"
    unfolding Cons.IH
  proof (intro iffI allI impI conjI; (elim conjE)?)
    fix k assume "rm r b (x # s) = []" "\<forall>k\<le>length s. rm r (False \<and> k = 0) (drop k s) = []" "k \<le> length (x # s)"
    then show "rm r (b \<and> k = 0) (drop k (x # s)) = []" by (cases k) auto
  next
    fix k assume *: "\<forall>k\<le>length (x # s). rm r (b \<and> k = 0) (drop k (x # s)) = []" and "k \<le> length s"
    then show "rm r (False \<and> k = 0) (drop k s) = []" using spec [OF *, of "Suc k"] by simp
  next
    assume *: "\<forall>k\<le>length (x # s). rm r (b \<and> k = 0) (drop k (x # s)) = []"
    then show "rm r b (x # s) = []" using spec [OF *, of 0] by simp
  qed
  finally show ?case .
qed

lemma re_search_Some:
  "re_search r b s = Some (p, m, c) \<longleftrightarrow>
     (\<exists>t ws. prefix p s \<and> rm r (b \<and> p = []) (drop (length p) s) = (c, t) # ws \<and>
        m = take (length s - length p - length t) (drop (length p) s)) \<and>
     (\<forall>k<length p. rm r (b \<and> k = 0) (drop k s) = [])"
proof (induction s arbitrary: b p)
  case Nil
  then show ?case by (subst re_search.simps) (auto split: list.splits)
next
  case (Cons x s)
  show ?case
  proof (cases "rm r b (x # s)")
    case (Cons w ws)
    then show ?thesis
      by (subst re_search.simps) (cases p; cases w; auto)
  next
    case Nil
    show ?thesis
    proof (cases p)
      case Nil2: Nil
      with Nil show ?thesis by (subst re_search.simps) auto
    next
      case (Cons y p')
      have "re_search r b (x # s) = Some (p, m, c) \<longleftrightarrow> x = y \<and> re_search r False s = Some (p', m, c)"
        using Nil Cons by (subst re_search.simps) auto
      then show ?thesis
        unfolding Cons.IH using Nil Cons by (auto simp: less_Suc_eq_0_disj)
    qed
  qed
qed

section \<open>Blocks: a literal, then as little as possible up to another literal\<close>

abbreviation any_char :: "char \<Rightarrow> bool" where
  "any_char \<equiv> (\<lambda>c. True)"

lemma star_any_lazy:
  "length s \<le> n \<Longrightarrow>
     star_m (cls_m any_char) False n b s = map (\<lambda>k. ([], drop k s)) [0..<Suc (length s)]"
proof (induction n arbitrary: b s)
  case (Suc n)
  show ?case
  proof (cases s)
    case (Cons x s')
    have "star_m (cls_m any_char) False (Suc n) b s = ([], s) # star_m (cls_m any_char) False n False s'"
      by (simp add: Cons cls_m_def shorter_def)
    also have "\<dots> = ([], s) # map (\<lambda>k. ([], drop k s')) [0..<Suc (length s')]"
      using Suc by (simp add: Cons)
    also have "\<dots> = map (\<lambda>k. ([], drop k s)) [0..<Suc (length s)]"
      by (simp add: Cons map_upt_Suc del: upt_Suc)
    finally show ?thesis .
  qed (simp add: cls_m_def shorter_def)
qed simp

definition block_re :: "string \<Rightarrow> string \<Rightarrow> re" where
  "block_re p e = Cat (lit p) (Cat (Star False (Cls any_char)) (lit e))"

lemma concat_filter_hd:
  "concat (map (\<lambda>k. if P k then [f k] else []) ks) = map f (filter P ks)"
  by (induction ks) auto

lemma rm_lazy:
  "rm (Cat (Star False (Cls any_char)) (lit e)) b s =
     map (\<lambda>k. ([], drop (k + length e) s)) (filter (\<lambda>k. prefix e (drop k s)) [0..<Suc (length s)])"
proof -
  have "rm (Cat (Star False (Cls any_char)) (lit e)) b s =
      concat (map (\<lambda>k. if prefix e (drop k s) then [([], drop (k + length e) s)] else []) [0..<Suc (length s)])"
    unfolding rm.simps seq_m_def star_any_lazy [OF order_refl]
    by (simp add: rm_lit comp_def if_distrib add.commute cong: if_cong del: upt_Suc)
  then show ?thesis by (simp only: concat_filter_hd)
qed

lemma filter_upt_first:
  assumes "k \<le> n" "P k" "\<forall>j<k. \<not> P j"
  shows "\<exists>ks. filter P [0..<Suc n] = k # ks"
proof -
  obtain d where n: "n = k + d" using assms(1) le_Suc_ex by blast
  have "[0..<Suc n] = [0..<k] @ k # [Suc k..<Suc n]"
    using upt_add_eq_append [of 0 k "Suc d"] upt_conv_Cons [of k "Suc n"] by (simp add: n del: upt_Suc)
  moreover have "filter P [0..<k] = []" using assms(3) by auto
  ultimately show ?thesis using assms(2) by simp
qed

lemma cut_first_drop:
  assumes "cut e s = Some (m, r)" "j < length m"
  shows "\<not> prefix e (drop j s)"
proof -
  have "\<not> prefix e (drop j m @ e @ r)"
    by (rule cut_first [OF assms(1), of "take j m"]) (use assms(2) in simp_all)
  moreover have "drop j s = drop j m @ e @ r"
    using cut_Some_eq [OF assms(1)] assms(2) by simp
  ultimately show ?thesis by simp
qed

lemma rm_lazy_cut:
  "cut e s = Some (m, r) \<Longrightarrow> \<exists>ws. rm (Cat (Star False (Cls any_char)) (lit e)) b s = ([], r) # ws"
proof -
  assume c: "cut e s = Some (m, r)"
  have "\<forall>j<length m. \<not> prefix e (drop j s)"
    using cut_first_drop [OF c] by blast
  moreover have s: "s = m @ e @ r" using cut_Some_eq [OF c] .
  moreover have "length m \<le> length s" "prefix e (drop (length m) s)" using s by simp_all
  ultimately obtain ks where *: "filter (\<lambda>k. prefix e (drop k s)) [0..<Suc (length s)] = length m # ks"
    using filter_upt_first [of "length m" "length s" "\<lambda>k. prefix e (drop k s)"] by blast
  have "drop (length m + length e) s = r" using s by simp
  then show ?thesis unfolding rm_lazy * by simp
qed

lemma rm_lazy_None: "cut e s = None \<Longrightarrow> rm (Cat (Star False (Cls any_char)) (lit e)) b s = []"
proof -
  assume "cut e s = None"
  then have "\<not> prefix e (drop k s)" for k
    unfolding cut_None_iff sublist_def prefix_def by (metis append_take_drop_id)
  then show ?thesis unfolding rm_lazy by simp
qed

text \<open>A block at the head of a text.\<close>

lemma rm_block:
  assumes "p \<noteq> []"
  shows "rm (block_re p e) b s = [] \<longleftrightarrow> \<not> (prefix p s \<and> sublist e (drop (length p) s))"
    and "prefix p s \<Longrightarrow> cut e (drop (length p) s) = Some (m, r) \<Longrightarrow>
           \<exists>ws. rm (block_re p e) b s = ([], r) # ws"
proof -
  show "rm (block_re p e) b s = [] \<longleftrightarrow> \<not> (prefix p s \<and> sublist e (drop (length p) s))"
  proof (cases "cut e (drop (length p) s)")
    case None
    then have "\<not> sublist e (drop (length p) s)" by (simp add: cut_None_iff)
    with rm_lazy_None [OF None, of "b \<and> p = []"] show ?thesis
      unfolding block_re_def rm.simps(3) [of "lit p"] seq_m_lit by simp
  next
    case (Some mr)
    then have "sublist e (drop (length p) s)" using cut_None_iff [of e "drop (length p) s"] by auto
    moreover obtain m r where "cut e (drop (length p) s) = Some (m, r)" using Some by (cases mr) auto
    then obtain ws where "rm (Cat (Star False (Cls any_char)) (lit e)) (b \<and> p = []) (drop (length p) s) = ([], r) # ws"
      using rm_lazy_cut by blast
    ultimately show ?thesis
      unfolding block_re_def rm.simps(3) [of "lit p"] seq_m_lit by simp
  qed
  assume "prefix p s" and c: "cut e (drop (length p) s) = Some (m, r)"
  moreover obtain ws where "rm (Cat (Star False (Cls any_char)) (lit e)) (b \<and> p = []) (drop (length p) s) = ([], r) # ws"
    using rm_lazy_cut [OF c] by blast
  ultimately show "\<exists>ws. rm (block_re p e) b s = ([], r) # ws"
    unfolding block_re_def rm.simps(3) [of "lit p"] seq_m_lit by simp
qed

text \<open>What \<open>FindString\<close> gives for a block: the first opening that has a closing after it, up to the
  first such closing.\<close>

lemma re_find_block:
  assumes "p \<noteq> []" and pre: "\<forall>k<length a. \<not> (prefix p (drop k s) \<and> sublist e (drop (length p + k) s))"
    and s: "s = a @ p @ m @ e @ r" and cut: "cut e (m @ e @ r) = Some (m, r)"
  shows "re_find (block_re p e) s = p @ m @ e"
proof -
  have "prefix p (drop (length a) s)" "drop (length p) (drop (length a) s) = m @ e @ r"
    using s by simp_all
  then obtain ws where "rm (block_re p e) (a = []) (drop (length a) s) = ([], r) # ws"
    using rm_block(2) [OF assms(1), of "drop (length a) s" e m r] cut by metis
  moreover have "\<forall>k<length a. rm (block_re p e) (k = 0) (drop k s) = []"
    unfolding rm_block(1) [OF assms(1)] using pre by simp
  ultimately have "re_search (block_re p e) True s = Some (a, p @ m @ e, [])"
    unfolding re_search_Some using s by auto
  then show ?thesis by (simp add: re_find_def)
qed

lemma re_search_block_Some:
  assumes "p \<noteq> []" "re_search (block_re p e) True s = Some (a, x, c)"
  shows "\<exists>m r. s = a @ p @ m @ e @ r \<and> x = p @ m @ e \<and> cut e (m @ e @ r) = Some (m, r)
     \<and> (\<forall>k<length a. \<not> (prefix p (drop k s) \<and> sublist e (drop (length p + k) s)))"
proof -
  from assms(2) obtain t ws where *: "prefix a s"
    "rm (block_re p e) (a = []) (drop (length a) s) = (c, t) # ws"
    "x = take (length s - length a - length t) (drop (length a) s)"
    "\<forall>k<length a. rm (block_re p e) (k = 0) (drop k s) = []"
    by (auto simp: re_search_Some)
  let ?s = "drop (length a) s"
  have "rm (block_re p e) (a = []) ?s \<noteq> []" using *(2) by simp
  then have pr: "prefix p ?s" "sublist e (drop (length p) ?s)"
    unfolding rm_block(1) [OF assms(1)] by simp_all
  then obtain m r where cut: "cut e (drop (length p) ?s) = Some (m, r)"
    by (cases "cut e (drop (length p) ?s)") (auto simp: cut_None_iff)
  then have r: "t = r" using rm_block(2) [OF assms(1) pr(1) cut, of "a = []"] *(2) by auto
  have d: "drop (length p) ?s = m @ e @ r" using cut_Some_eq [OF cut] .
  have s: "s = a @ p @ m @ e @ r"
    using prefix_code_drop [OF *(1)] prefix_code_drop [OF pr(1)] d by metis
  have "x = p @ m @ e" using *(3) s r by simp
  moreover have "\<forall>k<length a. \<not> (prefix p (drop k s) \<and> sublist e (drop (length p + k) s))"
    using *(4) unfolding rm_block(1) [OF assms(1)] by simp
  ultimately show ?thesis using s cut d by metis
qed

lemma re_find_block_nonempty:
  assumes "p \<noteq> []" "re_find (block_re p e) s \<noteq> []"
  shows "\<exists>a m r. s = a @ p @ m @ e @ r \<and> re_find (block_re p e) s = p @ m @ e \<and> cut e (m @ e @ r) = Some (m, r)"
  using assms re_search_block_Some [OF assms(1), of e s]
  by (fastforce simp: re_find_def split: option.splits)

lemma re_find_block_empty:
  assumes "p \<noteq> []"
  shows "re_find (block_re p e) s = [] \<longleftrightarrow> (\<nexists>a m r. s = a @ p @ m @ e @ r)"
proof
  assume f: "re_find (block_re p e) s = []"
  have "re_search (block_re p e) True s = None"
  proof (cases "re_search (block_re p e) True s")
    case (Some x)
    then obtain a y c where "re_search (block_re p e) True s = Some (a, y, c)" by (cases x) auto
    with f re_search_block_Some [OF assms this] assms show ?thesis by (auto simp: re_find_def)
  qed
  then have none: "\<forall>k\<le>length s. \<not> (prefix p (drop k s) \<and> sublist e (drop (length p) (drop k s)))"
    unfolding re_search_None rm_block(1) [OF assms] by simp
  show "\<nexists>a m r. s = a @ p @ m @ e @ r"
  proof clarify
    fix a m r assume "s = a @ p @ m @ e @ r"
    then have "length a \<le> length s" "prefix p (drop (length a) s)" "sublist e (drop (length p) (drop (length a) s))"
      by (auto simp: sublist_def)
    with none show False by blast
  qed
next
  assume "\<nexists>a m r. s = a @ p @ m @ e @ r"
  then show "re_find (block_re p e) s = []"
    using re_find_block_nonempty [OF assms, of e s] by blast
qed

end
