(* ===== verification/Appid.thy ===== *)
theory Appid imports GoRegexp begin

text \<open>
  \<open>internal/appid\<close>: the appId grammar, the ASCII-only case folding, the strict check used for
  certificate common names and the folding one used for \<open>info.xml\<close> ids.
\<close>

section \<open>Definitions\<close>

definition Pattern :: string where
  "Pattern = ''^[a-z][a-z0-9_.-]{2,63}$''"

definition ErrInvalid :: go_error where
  "ErrInvalid = Sentinel ''appid: invalid app id''"

definition appid_char :: "char \<Rightarrow> bool" where
  "appid_char c \<longleftrightarrow> is_lower c \<or> is_digit c \<or> c = CHR ''_'' \<or> c = CHR ''.'' \<or> c = CHR ''-''"

text \<open>The compiled \<open>Pattern\<close>.\<close>

definition pattern :: re where
  "pattern = Cat Bol (Cat (Cls is_lower) (Cat (Rep 2 61 (Cls appid_char)) Eol))"

definition fold_byte :: "char \<Rightarrow> char" where
  "fold_byte c = (if is_upper c then char_of (byte c + 32) else c)"

definition Fold :: "string \<Rightarrow> string" where
  "Fold s = map fold_byte s"

definition Valid :: "string \<Rightarrow> bool" where
  "Valid s \<longleftrightarrow> re_match pattern s"

definition ValidateStrict :: "string \<Rightarrow> string result" where
  "ValidateStrict cn = (if \<not> Valid cn then Inl ErrInvalid else Inr cn)"

definition Canonicalize :: "string \<Rightarrow> string result" where
  "Canonicalize raw =
     (let folded = Fold raw in if \<not> Valid folded then Inl ErrInvalid else Inr folded)"

section \<open>Lemmas\<close>

lemma Valid_iff:
  "Valid s \<longleftrightarrow> 3 \<le> length s \<and> length s \<le> 64 \<and> is_lower (hd s) \<and> list_all appid_char (tl s)"
proof -
  have "Valid s \<longleftrightarrow> (\<exists>c t. (c, t) \<in> set (rm (Cat (Cls is_lower) (Cat (Rep 2 61 (Cls appid_char)) Eol)) True s))"
    unfolding Valid_def pattern_def re_match_anchored ways_nonempty_iff ..
  also have "\<dots> \<longleftrightarrow> 3 \<le> length s \<and> length s \<le> 64 \<and> is_lower (hd s) \<and> list_all appid_char (tl s)"
  proof (cases s)
    case (Cons x s')
    have "(\<exists>c t. (c, t) \<in> set (seq_m (rep_m (cls_m appid_char) 2 61) (rm Eol) False s')) \<longleftrightarrow>
        (\<exists>k. 2 \<le> k \<and> k \<le> 63 \<and> k \<le> length s' \<and> list_all appid_char (take k s') \<and> drop k s' = [])"
      by (auto simp: set_seq_m set_rep_cls)
    also have "\<dots> \<longleftrightarrow> 2 \<le> length s' \<and> length s' \<le> 63 \<and> list_all appid_char s'"
      by (auto intro: exI [of _ "length s'"])
    finally show ?thesis
      by (auto simp: Cons seq_m_cls)
  qed (simp add: seq_m_cls)
  finally show ?thesis .
qed

lemma appid_char_ascii: "appid_char c \<Longrightarrow> is_ascii c"
  by (auto simp: appid_char_def byte_classes)

lemma appid_char_not_upper: "appid_char c \<Longrightarrow> \<not> is_upper c"
  by (auto simp: appid_char_def byte_classes)

lemma is_lower_appid_char: "is_lower c \<Longrightarrow> appid_char c"
  by (simp add: appid_char_def)

lemma Valid_all: "Valid s \<Longrightarrow> list_all appid_char s"
  by (cases s) (auto simp: Valid_iff is_lower_appid_char)

lemma Valid_nonempty: "Valid s \<Longrightarrow> s \<noteq> []"
  by (auto simp: Valid_iff)

lemma fold_byte_appid: "appid_char c \<Longrightarrow> fold_byte c = c"
  by (simp add: fold_byte_def appid_char_not_upper)

lemma Fold_Valid: "Valid s \<Longrightarrow> Fold s = s"
  unfolding Fold_def using Valid_all [of s] by (simp add: list_all_iff fold_byte_appid map_idI)

lemma fold_byte_idem [simp]: "fold_byte (fold_byte c) = fold_byte c"
proof (cases "is_upper c")
  case True
  then have "byte (fold_byte c) = byte c + 32"
    by (simp add: fold_byte_def is_upper_def)
  then have "\<not> is_upper (fold_byte c)"
    using True by (simp add: is_upper_def)
  then show ?thesis by (simp add: fold_byte_def [of "fold_byte c"])
qed (simp add: fold_byte_def)

lemma Fold_idem [simp]: "Fold (Fold s) = Fold s"
  by (simp add: Fold_def)

lemma length_Fold [simp]: "length (Fold s) = length s"
  by (simp add: Fold_def)

lemma ValidateStrict_Inr [simp]: "ValidateStrict cn = Inr a \<longleftrightarrow> Valid cn \<and> a = cn"
  by (auto simp: ValidateStrict_def)

lemma ValidateStrict_Inl [simp]: "ValidateStrict cn = Inl e \<longleftrightarrow> \<not> Valid cn \<and> e = ErrInvalid"
  by (auto simp: ValidateStrict_def)

lemma Canonicalize_Inr [simp]: "Canonicalize raw = Inr a \<longleftrightarrow> Valid (Fold raw) \<and> a = Fold raw"
  by (auto simp: Canonicalize_def Let_def)

lemma Canonicalize_Inl [simp]: "Canonicalize raw = Inl e \<longleftrightarrow> \<not> Valid (Fold raw) \<and> e = ErrInvalid"
  by (auto simp: Canonicalize_def Let_def)

end
