(* ===== verification/GoJson.thy ===== *)
theory GoJson imports GoStrings "HOL-Library.Monad_Syntax" begin

text \<open>
  What the program uses of Go's \<open>encoding/json\<close>, on bytes: the syntax of JSON values and the
  printer of an \<open>Encoder\<close> with \<open>SetEscapeHTML(false)\<close> and a two space indent. A value is a
  tree that keeps the members of an object in order, duplicates included; the decoding of a
  tree into a Go struct is with the struct (theory \<open>Ledger\<close>).

  Go's limit of 10000 nested values is not modelled. Which syntax error is reported is not
  modelled either: there is one error value.
\<close>

datatype json =
    JNull
  | JBool bool
  | JNum string
  | JStr string
  | JArr "json list"
  | JObj "(string \<times> json) list"

section \<open>Printing\<close>

definition escape_ascii :: "char \<Rightarrow> string" where
  "escape_ascii c =
     (if c = CHR 0x22 \<or> c = CHR 0x5C then [CHR 0x5C, c]
      else if byte c = 8 then CHR 0x5C # ''b''
      else if byte c = 12 then CHR 0x5C # ''f''
      else if byte c = 10 then CHR 0x5C # ''n''
      else if byte c = 13 then CHR 0x5C # ''r''
      else if byte c = 9 then CHR 0x5C # ''t''
      else if byte c < 32 then CHR 0x5C # ''u00'' @ hex_byte c
      else [c])"

function escape_string :: "string \<Rightarrow> string" where
  "escape_string s =
     (case s of [] \<Rightarrow> []
      | c # t \<Rightarrow>
          if is_ascii c then escape_ascii c @ escape_string t
          else (case utf8_decode s of
                  None \<Rightarrow> CHR 0x5C # ''ufffd'' @ escape_string t
                | Some (r, n) \<Rightarrow>
                    (if r = 8232 then CHR 0x5C # ''u2028''
                     else if r = 8233 then CHR 0x5C # ''u2029'' else take n s)
                    @ escape_string (drop n s)))"
  by pat_completeness auto
termination
  by (relation "measure length") (auto dest: utf8_decode_size)

declare escape_string.simps [simp del]

definition print_string :: "string \<Rightarrow> string" where
  "print_string s = CHR 0x22 # escape_string s @ [CHR 0x22]"

definition newline :: "nat \<Rightarrow> string" where
  "newline d = CHR 0x0A # replicate (2 * d) (CHR '' '')"

fun print_json :: "nat \<Rightarrow> json \<Rightarrow> string"
and print_elems :: "nat \<Rightarrow> json list \<Rightarrow> string"
and print_members :: "nat \<Rightarrow> (string \<times> json) list \<Rightarrow> string" where
  "print_json d JNull = ''null''"
| "print_json d (JBool b) = (if b then ''true'' else ''false'')"
| "print_json d (JNum n) = n"
| "print_json d (JStr s) = print_string s"
| "print_json d (JArr []) = ''[]''"
| "print_json d (JArr (v # vs)) =
     ''['' @ newline (Suc d) @ print_json (Suc d) v @ print_elems (Suc d) vs @ newline d @ '']''"
| "print_json d (JObj []) = ''{}''"
| "print_json d (JObj ((k, v) # ms)) =
     ''{'' @ newline (Suc d) @ print_string k @ '': '' @ print_json (Suc d) v
       @ print_members (Suc d) ms @ newline d @ ''}''"
| "print_elems d [] = []"
| "print_elems d (v # vs) = '','' @ newline d @ print_json d v @ print_elems d vs"
| "print_members d [] = []"
| "print_members d ((k, v) # ms) =
     '','' @ newline d @ print_string k @ '': '' @ print_json d v @ print_members d ms"

section \<open>Parsing\<close>

definition is_json_ws :: "char \<Rightarrow> bool" where
  "is_json_ws c \<longleftrightarrow> byte c = 32 \<or> byte c = 9 \<or> byte c = 10 \<or> byte c = 13"

definition skip_ws :: "string \<Rightarrow> string" where
  "skip_ws = dropWhile is_json_ws"

definition hex_val :: "char \<Rightarrow> nat option" where
  "hex_val c =
     (if is_digit c then Some (byte c - 48)
      else if 97 \<le> byte c \<and> byte c \<le> 102 then Some (byte c - 87)
      else if 65 \<le> byte c \<and> byte c \<le> 70 then Some (byte c - 55) else None)"

fun getu4 :: "string \<Rightarrow> (nat \<times> string) option" where
  "getu4 (a # b # c # d # s) = do {
     x \<leftarrow> hex_val a; y \<leftarrow> hex_val b; z \<leftarrow> hex_val c; w \<leftarrow> hex_val d;
     Some (((x * 16 + y) * 16 + z) * 16 + w, s) }"
| "getu4 _ = None"

lemma getu4_length: "getu4 s = Some (u, r) \<Longrightarrow> length r < length s"
  by (cases s rule: getu4.cases) (auto split: bind_splits)

definition replacement :: string where
  "replacement = [CHR 0xEF, CHR 0xBF, CHR 0xBD]"

text \<open>
  The escape after a backslash: the bytes it stands for and the rest. A surrogate pair is one
  rune, a lone surrogate is replaced.
\<close>

definition unescape :: "string \<Rightarrow> (string \<times> string) option" where
  "unescape s =
     (case s of [] \<Rightarrow> None
      | e # r \<Rightarrow>
          if e = CHR 0x22 \<or> e = CHR 0x5C \<or> e = CHR ''/'' then Some ([e], r)
          else if e = CHR ''b'' then Some ([CHR 0x08], r)
          else if e = CHR ''f'' then Some ([CHR 0x0C], r)
          else if e = CHR ''n'' then Some ([CHR 0x0A], r)
          else if e = CHR ''r'' then Some ([CHR 0x0D], r)
          else if e = CHR ''t'' then Some ([CHR 0x09], r)
          else if e = CHR ''u'' then
            (case getu4 r of None \<Rightarrow> None
             | Some (u, r1) \<Rightarrow>
                 if 55296 \<le> u \<and> u \<le> 57343 then
                   (case r1 of
                      b # v # r2 \<Rightarrow>
                        if b = CHR 0x5C \<and> v = CHR ''u'' then
                          (case getu4 r2 of None \<Rightarrow> Some (replacement, r1)
                           | Some (l, r3) \<Rightarrow>
                               if u \<le> 56319 \<and> 56320 \<le> l \<and> l \<le> 57343
                               then Some (utf8_encode ((u - 55296) * 1024 + (l - 56320) + 65536), r3)
                               else Some (replacement, r1))
                        else Some (replacement, r1)
                    | _ \<Rightarrow> Some (replacement, r1))
                 else Some (utf8_encode u, r1))
          else None)"

lemma unescape_length: "unescape s = Some (x, r) \<Longrightarrow> length r < length s"
  by (auto simp: unescape_def split: list.splits option.splits if_splits dest!: getu4_length)

text \<open>The rest of a string after its opening quote.\<close>

function parse_string :: "string \<Rightarrow> (string \<times> string) option" where
  "parse_string s =
     (case s of [] \<Rightarrow> None
      | c # t \<Rightarrow>
          if c = CHR 0x22 then Some ([], t)
          else if c = CHR 0x5C then
            (case unescape t of None \<Rightarrow> None
             | Some (x, r) \<Rightarrow> map_option (apfst ((@) x)) (parse_string r))
          else if byte c < 32 then None
          else if is_ascii c then map_option (apfst ((#) c)) (parse_string t)
          else (case utf8_decode s of
                  None \<Rightarrow> map_option (apfst ((@) replacement)) (parse_string t)
                | Some (r, n) \<Rightarrow> map_option (apfst ((@) (take n s))) (parse_string (drop n s))))"
  by pat_completeness auto
termination
  by (relation "measure length") (auto dest: utf8_decode_size unescape_length)

declare parse_string.simps [simp del]

text \<open>The longest prefix that is a JSON number.\<close>

definition span_digits :: "string \<Rightarrow> string \<times> string" where
  "span_digits s = (takeWhile is_digit s, dropWhile is_digit s)"

fun parse_int_part :: "string \<Rightarrow> (string \<times> string) option" where
  "parse_int_part [] = None"
| "parse_int_part (c # s) =
     (if c = CHR ''0'' then Some (''0'', s)
      else if is_digit c then (case span_digits s of (d, r) \<Rightarrow> Some (c # d, r)) else None)"

definition parse_frac_part :: "string \<Rightarrow> (string \<times> string) option" where
  "parse_frac_part s =
     (case s of c # t \<Rightarrow>
        if c = CHR ''.'' then
          (case span_digits t of (d, r) \<Rightarrow> if d = [] then None else Some (c # d, r))
        else Some ([], s)
      | [] \<Rightarrow> Some ([], []))"

definition parse_exp_part :: "string \<Rightarrow> (string \<times> string) option" where
  "parse_exp_part s =
     (case s of c # t \<Rightarrow>
        if c = CHR ''e'' \<or> c = CHR ''E'' then
          (let (sg, u) = (case t of x # y \<Rightarrow> if x = CHR ''+'' \<or> x = CHR ''-'' then ([x], y) else ([], t)
                          | [] \<Rightarrow> ([], []))
           in case span_digits u of (d, r) \<Rightarrow> if d = [] then None else Some (c # sg @ d, r))
        else Some ([], s)
      | [] \<Rightarrow> Some ([], []))"

definition parse_number :: "string \<Rightarrow> (string \<times> string) option" where
  "parse_number s = do {
     let (sg, s1) = (case s of c # t \<Rightarrow> if c = CHR ''-'' then ([c], t) else ([], s) | [] \<Rightarrow> ([], []));
     (i, s2) \<leftarrow> parse_int_part s1;
     (f, s3) \<leftarrow> parse_frac_part s2;
     (e, s4) \<leftarrow> parse_exp_part s3;
     Some (sg @ i @ f @ e, s4) }"

definition strip :: "string \<Rightarrow> string \<Rightarrow> string option" where
  "strip p s = (if prefix p s then Some (drop (length p) s) else None)"

text \<open>
  The value parser. The first argument bounds the recursion; every second call consumes a byte,
  so that one more than twice the length of the text is always enough (lemma \<open>parse_fuel\<close>).
\<close>

fun parse_value :: "nat \<Rightarrow> string \<Rightarrow> (json \<times> string) option"
and parse_elems :: "nat \<Rightarrow> string \<Rightarrow> (json list \<times> string) option"
and parse_members :: "nat \<Rightarrow> string \<Rightarrow> ((string \<times> json) list \<times> string) option" where
  "parse_value 0 s = None"
| "parse_value (Suc n) s =
     (case skip_ws s of [] \<Rightarrow> None
      | c # r \<Rightarrow>
          if c = CHR ''{'' then
            (case strip ''}'' (skip_ws r) of
               Some r' \<Rightarrow> Some (JObj [], r')
             | None \<Rightarrow> map_option (apfst JObj) (parse_members n r))
          else if c = CHR ''['' then
            (case strip '']'' (skip_ws r) of
               Some r' \<Rightarrow> Some (JArr [], r')
             | None \<Rightarrow> map_option (apfst JArr) (parse_elems n r))
          else if c = CHR 0x22 then map_option (apfst JStr) (parse_string r)
          else if c = CHR ''t'' then map_option (Pair (JBool True)) (strip ''rue'' r)
          else if c = CHR ''f'' then map_option (Pair (JBool False)) (strip ''alse'' r)
          else if c = CHR ''n'' then map_option (Pair JNull) (strip ''ull'' r)
          else map_option (apfst JNum) (parse_number (c # r)))"
| "parse_elems 0 s = None"
| "parse_elems (Suc n) s =
     (case parse_value n s of None \<Rightarrow> None
      | Some (v, r) \<Rightarrow>
          (case skip_ws r of [] \<Rightarrow> None
           | c # r' \<Rightarrow>
               if c = CHR '','' then map_option (apfst ((#) v)) (parse_elems n r')
               else if c = CHR '']'' then Some ([v], r') else None))"
| "parse_members 0 s = None"
| "parse_members (Suc n) s =
     (case strip [CHR 0x22] (skip_ws s) of None \<Rightarrow> None
      | Some s1 \<Rightarrow>
          (case parse_string s1 of None \<Rightarrow> None
           | Some (k, s2) \<Rightarrow>
               (case strip '':'' (skip_ws s2) of None \<Rightarrow> None
                | Some s3 \<Rightarrow>
                    (case parse_value n s3 of None \<Rightarrow> None
                     | Some (v, r) \<Rightarrow>
                         (case skip_ws r of [] \<Rightarrow> None
                          | c # r' \<Rightarrow>
                              if c = CHR '','' then map_option (apfst ((#) (k, v))) (parse_members n r')
                              else if c = CHR ''}'' then Some ([(k, v)], r') else None)))))"

text \<open>\<open>Decoder.Decode\<close> reads one value and leaves the rest of the input alone;
  \<open>json.Unmarshal\<close> wants white space only after the value.\<close>

definition parse_first :: "string \<Rightarrow> json option" where
  "parse_first s = map_option fst (parse_value (Suc (2 * length s)) s)"

definition parse_whole :: "string \<Rightarrow> json option" where
  "parse_whole s =
     (case parse_value (Suc (2 * length s)) s of
        Some (v, r) \<Rightarrow> if skip_ws r = [] then Some v else None
      | None \<Rightarrow> None)"

section \<open>Strings round trip\<close>

lemma escape_string_Nil [simp]: "escape_string [] = []"
  by (simp add: escape_string.simps)

lemma escape_string_ascii: "is_ascii c \<Longrightarrow> escape_string (c # s) = escape_ascii c @ escape_string s"
  by (simp add: escape_string.simps [of "c # s"])

lemma parse_string_quote: "parse_string (CHR 0x22 # r) = Some ([], r)"
  by (simp add: parse_string.simps)

lemma parse_string_escape:
  "unescape t = Some (x, r) \<Longrightarrow> parse_string (CHR 0x5C # t) = map_option (apfst ((@) x)) (parse_string r)"
  by (simp add: parse_string.simps [of "CHR 0x5C # t"])

lemma parse_string_plain:
  "is_ascii c \<Longrightarrow> c \<noteq> CHR 0x22 \<Longrightarrow> c \<noteq> CHR 0x5C \<Longrightarrow> 32 \<le> byte c \<Longrightarrow>
     parse_string (c # t) = map_option (apfst ((#) c)) (parse_string t)"
  by (simp add: parse_string.simps [of "c # t"])

lemma parse_string_rune:
  assumes "\<not> is_ascii c" "utf8_decode (c # t) = Some (r, n)"
  shows "parse_string (c # t) = map_option (apfst ((@) (take n (c # t)))) (parse_string (drop n (c # t)))"
proof -
  have "32 \<le> byte c" "c \<noteq> CHR 0x22" "c \<noteq> CHR 0x5C"
    using assms(1) by (auto simp: is_ascii_def)
  then show ?thesis using assms by (simp add: parse_string.simps [of "c # t"])
qed

lemma hex_val_hex_char: "d < 16 \<Longrightarrow> hex_val (hex_char d) = Some d"
  by (auto simp: hex_val_def byte_hex_char is_digit_def)

lemma getu4_hex:
  "a < 16 \<Longrightarrow> b < 16 \<Longrightarrow> c < 16 \<Longrightarrow> d < 16 \<Longrightarrow>
     getu4 (hex_char a # hex_char b # hex_char c # hex_char d # s)
       = Some (((a * 16 + b) * 16 + c) * 16 + d, s)"
  by (simp add: hex_val_hex_char)

lemma unescape_u00: "byte c < 32 \<Longrightarrow> unescape (''u00'' @ hex_byte c @ s) = Some ([c], s)"
proof -
  assume c: "byte c < 32"
  have 0: "hex_char 0 = CHR ''0''"
    by (simp add: hex_char_def char_eq_byte del: byte_inject)
  have lt: "byte c div 16 < 16" using c by simp
  have "getu4 (''00'' @ hex_byte c @ s) = Some (byte c, s)"
    using getu4_hex [OF _ _ lt, of 0 0 "byte c mod 16" s]
    by (simp add: hex_byte_def 0 del: getu4.simps)
  then show ?thesis using c by (simp add: unescape_def utf8_encode_def del: getu4.simps)
qed


lemma append_single: "(@) [c] = (#) c"
  by (rule ext) simp

lemma escape_ascii_parse:
  assumes "is_ascii c"
  shows "parse_string (escape_ascii c @ s) = map_option (apfst ((#) c)) (parse_string s)"
proof -
  consider (q) "c = CHR 0x22 \<or> c = CHR 0x5C" | (e) "c \<noteq> CHR 0x22" "c \<noteq> CHR 0x5C" "byte c \<in> {8, 12, 10, 13, 9}"
    | (u) "c \<noteq> CHR 0x22" "c \<noteq> CHR 0x5C" "byte c < 32" "byte c \<notin> {8, 12, 10, 13, 9}"
    | (p) "c \<noteq> CHR 0x22" "c \<noteq> CHR 0x5C" "32 \<le> byte c"
    by fastforce
  then show ?thesis
  proof cases
    case q
    then have "unescape (c # s) = Some ([c], s)" by (auto simp: unescape_def)
    from parse_string_escape [OF this] q show ?thesis by (auto simp: escape_ascii_def append_single)
  next
    case e
    then have "c \<in> {CHR 0x08, CHR 0x0C, CHR 0x0A, CHR 0x0D, CHR 0x09}"
      by (auto simp: char_eq_byte simp del: byte_inject)
    then obtain e where "escape_ascii c = [CHR 0x5C, e]" "unescape (e # s) = Some ([c], s)"
      by (auto simp: escape_ascii_def unescape_def)
    with parse_string_escape [OF this(2)] show ?thesis by (simp add: append_single)
  next
    case u
    have "unescape (''u00'' @ hex_byte c @ s) = Some ([c], s)" by (rule unescape_u00 [OF u(3)])
    from parse_string_escape [OF this] u show ?thesis by (auto simp: escape_ascii_def append_single)
  next
    case p
    then show ?thesis using assms by (simp add: escape_ascii_def parse_string_plain)
  qed
qed

lemma unescape_line_separators:
  "unescape (''u2028'' @ s) = Some (utf8_encode 8232, s)"
  "unescape (''u2029'' @ s) = Some (utf8_encode 8233, s)"
  by (simp_all add: unescape_def hex_val_def is_digit_def)

lemma apfst_comp_map_option [simp]:
  "map_option (apfst f) (Some (x, r)) = Some (f x, r)"
  by simp

text \<open>A string with each invalid byte replaced, as both the writer and the reader do.\<close>

function to_valid :: "string \<Rightarrow> string" where
  "to_valid s =
     (case s of [] \<Rightarrow> []
      | c # t \<Rightarrow>
          (case utf8_decode s of
             None \<Rightarrow> replacement @ to_valid t
           | Some (u, n) \<Rightarrow> take n s @ to_valid (drop n s)))"
  by pat_completeness auto
termination
  by (relation "measure length") (auto dest: utf8_decode_size)

declare to_valid.simps [simp del]

lemma to_valid_Nil [simp]: "to_valid [] = []"
  by (simp add: to_valid.simps)

lemma to_valid_ascii [simp]: "is_ascii c \<Longrightarrow> to_valid (c # t) = c # to_valid t"
  by (simp add: to_valid.simps [of "c # t"] utf8_decode_ascii)

lemma to_valid_Nil_iff [simp]: "to_valid s = [] \<longleftrightarrow> s = []"
proof (cases s)
  case (Cons c t)
  have "to_valid (c # t) \<noteq> []"
    using utf8_decode_size [of "c # t"]
    by (cases "utf8_decode (c # t)") (auto simp: to_valid.simps [of "c # t"] replacement_def)
  then show ?thesis using Cons by simp
qed simp

lemma to_valid_id: "utf8_valid s \<Longrightarrow> to_valid s = s"
proof (induction s rule: to_valid.induct)
  case (1 s)
  show ?case
  proof (cases s)
    case (Cons c t)
    with 1(3) obtain u n where dec: "utf8_decode s = Some (u, n)" and v: "utf8_valid (drop n s)"
      by (subst (asm) utf8_valid.simps) (auto split: option.splits)
    then have "to_valid (drop n s) = drop n s" using 1(2) Cons by auto
    then show ?thesis using dec Cons by (subst to_valid.simps) simp
  qed simp
qed

lemma parse_ufffd: "parse_string (CHR 0x5C # ''ufffd'' @ s) = map_option (apfst ((@) replacement)) (parse_string s)"
proof -
  have "unescape (''ufffd'' @ s) = Some (replacement, s)"
    by (simp add: unescape_def hex_val_def is_digit_def utf8_encode_def replacement_def char_eq_byte del: byte_inject)
  from parse_string_escape [OF this] show ?thesis by simp
qed

lemma parse_escape_string:
  "parse_string (escape_string s @ CHR 0x22 # r) = Some (to_valid s, r)"
proof (induction s rule: escape_string.induct)
  case (1 s)
  show ?case
  proof (cases s)
    case Nil
    then show ?thesis by (simp add: parse_string_quote)
  next
    case (Cons c t)
    show ?thesis
    proof (cases "is_ascii c")
      case True
      with 1 Cons show ?thesis
        by (simp add: escape_string_ascii escape_ascii_parse)
    next
      case False
      show ?thesis
      proof (cases "utf8_decode s")
        case None
        then have IH: "parse_string (escape_string t @ CHR 0x22 # r) = Some (to_valid t, r)"
          using 1(2) Cons False by auto
        have esc: "escape_string s = (CHR 0x5C # ''ufffd'') @ escape_string t"
          using False None Cons by (subst escape_string.simps) simp
        have "to_valid s = replacement @ to_valid t"
          using None Cons by (subst to_valid.simps) simp
        then show ?thesis
          unfolding esc append_assoc using parse_ufffd [of "escape_string t @ CHR 0x22 # r"] IH by simp
      next
        case (Some un)
        then obtain u n where dec: "utf8_decode s = Some (u, n)" by (cases un) auto
        let ?x = "escape_string (drop n s) @ CHR 0x22 # r"
        from dec Cons False have IH: "parse_string ?x = Some (to_valid (drop n s), r)"
          using 1(3) by auto
        have esc: "escape_string s =
            (if u = 8232 then CHR 0x5C # ''u2028'' else if u = 8233 then CHR 0x5C # ''u2029'' else take n s)
            @ escape_string (drop n s)"
          using False dec Cons by (subst escape_string.simps) simp
        have tk: "take n s = utf8_encode u" by (rule utf8_decode_encode [OF dec])
        have tv: "to_valid s = take n s @ to_valid (drop n s)"
          using dec Cons by (subst to_valid.simps) simp
        show ?thesis
        proof (cases "u = 8232 \<or> u = 8233")
          case True
          then have "unescape (drop 1 (escape_string s) @ CHR 0x22 # r) = Some (take n s, ?x)"
            "escape_string s = CHR 0x5C # drop 1 (escape_string s)"
            using unescape_line_separators [of ?x] by (auto simp: esc tk)
          from parse_string_escape [OF this(1)] this(2) IH tv show ?thesis
            by (metis append_Cons apfst_comp_map_option)
        next
          case F2: False
          obtain m where n: "n = Suc m" using utf8_decode_size [OF dec] by (cases n) auto
          have "utf8_decode (c # (take m t @ ?x)) = Some (u, n)"
            using utf8_decode_local [OF dec, of ?x] by (simp add: Cons n)
          from parse_string_rune [OF False this]
          have "parse_string (take n s @ ?x) =
              map_option (apfst ((@) (take n (take n s @ ?x)))) (parse_string (drop n (take n s @ ?x)))"
            by (simp add: Cons n)
          moreover have "length (take n s) = n" using utf8_decode_size [OF dec] by simp
          ultimately show ?thesis using F2 IH tv by (simp add: esc)
        qed
      qed
    qed
  qed
qed

section \<open>Values round trip\<close>

lemma parse_string_length: "parse_string s = Some (x, r) \<Longrightarrow> length r < length s"
proof (induction "length s" arbitrary: s x r rule: less_induct)
  case less
  note IH = less(1)
  have drop: "length r' < Suc (length t)"
    if "s = c # t" "utf8_decode (c # t) = Some (u, n)" "parse_string (drop n (c # t)) = Some (y, r')" for c t u n y r'
  proof -
    have "length (drop n (c # t)) < length s" using utf8_decode_size [OF that(2)] that(1) by auto
    from IH [OF this that(3)] show ?thesis by simp
  qed
  have esc: "length r' < Suc (length t)" if "s = c # t" "unescape t = Some (z, q)" "parse_string q = Some (y, r')" for c t z q y r'
    using IH [OF _ that(3)] unescape_length [OF that(2)] that(1) by simp
  have tl: "length r' < Suc (length t)" if "s = c # t" "parse_string t = Some (y, r')" for c t y r'
    using IH [OF _ that(2)] that(1) by simp
  from less(2) show ?case
    by (subst (asm) parse_string.simps)
       (auto split: list.splits if_splits option.splits simp: apfst_def map_prod_def
         dest: esc tl drop)
qed

lemma skip_ws_length: "length (skip_ws s) \<le> length s"
  by (simp add: skip_ws_def length_dropWhile_le)

lemma strip_length: "p \<noteq> [] \<Longrightarrow> strip p s = Some r \<Longrightarrow> length r < length s"
  by (auto simp: strip_def prefix_def split: if_splits)

lemma span_digits_length: "span_digits s = (d, r) \<Longrightarrow> length r \<le> length s"
  by (auto simp: span_digits_def length_dropWhile_le)

lemma parse_int_part_length: "parse_int_part s = Some (d, r) \<Longrightarrow> length r < length s"
  by (cases s) (auto split: if_splits prod.splits dest!: span_digits_length)

lemma parse_frac_part_length: "parse_frac_part s = Some (d, r) \<Longrightarrow> length r \<le> length s"
  by (auto simp: parse_frac_part_def split: list.splits if_splits prod.splits dest!: span_digits_length)

lemma parse_exp_part_length: "parse_exp_part s = Some (d, r) \<Longrightarrow> length r \<le> length s"
  by (auto simp: parse_exp_part_def Let_def split: list.splits if_splits prod.splits dest!: span_digits_length)

lemma parse_number_length: "parse_number s = Some (d, r) \<Longrightarrow> length r < length s"
  by (auto simp: parse_number_def simp del: parse_int_part.simps
      split: list.splits if_splits prod.splits bind_splits
      dest!: parse_int_part_length parse_frac_part_length parse_exp_part_length)

lemma skip_ws_Cons_length: "skip_ws s = c # r \<Longrightarrow> length r < length s"
  using skip_ws_length [of s] by simp

lemma strip_ws_length: "strip (c # p) (skip_ws r) = Some r' \<Longrightarrow> length r' < length r"
  using strip_length [of "c # p" "skip_ws r" r'] skip_ws_length [of r] by simp

lemma strip_Cons_length: "strip (c # p) r = Some r' \<Longrightarrow> length r' < length r"
  using strip_length [of "c # p" r r'] by simp

lemmas json_lengths = parse_string_length strip_Cons_length parse_number_length
  skip_ws_Cons_length

lemma parse_length:
  shows "\<And>s v r. parse_value n s = Some (v, r) \<Longrightarrow> length r < length s"
    and "\<And>s v r. parse_elems n s = Some (v, r) \<Longrightarrow> length r < length s"
    and "\<And>s v r. parse_members n s = Some (v, r) \<Longrightarrow> length r < length s"
proof (induction n)
  case (Suc n)
  note sws = skip_ws_length [THEN [2] less_le_trans]
  {
    case 1
    then show ?case
      by (auto split: list.splits if_splits option.splits simp: apfst_def map_prod_def
        dest!: Suc.IH json_lengths sws)
  next
    case 2
    then show ?case
      by (auto split: list.splits if_splits option.splits simp: apfst_def map_prod_def
        dest!: Suc.IH json_lengths)
  next
    case 3
    then show ?case
      by (auto split: list.splits if_splits option.splits simp: apfst_def map_prod_def
        dest!: Suc.IH json_lengths sws)
  }
qed auto

declare parse_value.simps(2) [simp del] parse_elems.simps(2) [simp del] parse_members.simps(2) [simp del]

text \<open>Any two bounds above the length of the text give the same result.\<close>

lemma parse_fuel_Suc:
  shows "\<And>s. 2 * length s < n \<Longrightarrow> parse_value (Suc n) s = parse_value n s"
    and "\<And>s. 2 * length s + 1 < n \<Longrightarrow> parse_elems (Suc n) s = parse_elems n s"
    and "\<And>s. 2 * length s + 1 < n \<Longrightarrow> parse_members (Suc n) s = parse_members n s"
proof (induction n)
  case (Suc n)
  {
    case 1
    have "parse_elems (Suc n) r = parse_elems n r" "parse_members (Suc n) r = parse_members n r"
      if "skip_ws s = c # r" for c r
      using 1 skip_ws_Cons_length [OF that] by (auto intro!: Suc.IH)
    then show ?case
      unfolding parse_value.simps(2) by (auto split: list.splits option.splits)
  next
    case 2
    then have "parse_value (Suc n) s = parse_value n s" by (intro Suc.IH) simp
    moreover have "parse_elems (Suc n) r' = parse_elems n r'"
      if "parse_value n s = Some (v, r)" "skip_ws r = c # r'" for v r c r'
      using 2 parse_length(1) [OF that(1)] skip_ws_Cons_length [OF that(2)] by (intro Suc.IH) simp
    ultimately show ?case
      unfolding parse_elems.simps(2) by (auto split: list.splits option.splits)
  next
    case 3
    have "parse_value (Suc n) s3 = parse_value n s3"
      if "strip [CHR 0x22] (skip_ws s) = Some s1" "parse_string s1 = Some (k, s2)"
        "strip '':'' (skip_ws s2) = Some s3" for s1 k s2 s3
      using 3 strip_ws_length [OF that(1)] strip_ws_length [OF that(3)] parse_string_length [OF that(2)]
      by (intro Suc.IH) simp
    moreover have "parse_members (Suc n) r' = parse_members n r'"
      if "strip [CHR 0x22] (skip_ws s) = Some s1" "parse_string s1 = Some (k, s2)"
        "strip '':'' (skip_ws s2) = Some s3" "parse_value n s3 = Some (v, r)" "skip_ws r = c # r'"
        for s1 k s2 s3 v r c r'
      using 3 strip_ws_length [OF that(1)] strip_ws_length [OF that(3)] parse_string_length [OF that(2)]
        parse_length(1) [OF that(4)] skip_ws_Cons_length [OF that(5)]
      by (intro Suc.IH) simp
    ultimately show ?case
      unfolding parse_members.simps(2) by (auto split: list.splits option.splits)
  }
qed auto

lemma parse_fuel:
  assumes "2 * length s < n"
  shows "parse_value n s = parse_value (Suc (2 * length s)) s"
  using assms
proof (induction n)
  case (Suc n)
  then show ?case by (cases "2 * length s < n") (auto simp: parse_fuel_Suc(1) less_Suc_eq)
qed simp

subsection \<open>Printed values\<close>

definition is_int_lit :: "string \<Rightarrow> bool" where
  "is_int_lit n =
     (let ds = (case n of c # t \<Rightarrow> if c = CHR ''-'' then t else n | [] \<Rightarrow> [])
      in ds \<noteq> [] \<and> list_all is_digit ds \<and> (hd ds = CHR ''0'' \<longrightarrow> tl ds = []))"

text \<open>Values the printer is faithful on: valid UTF-8 strings and integer literals.\<close>

fun json_ok :: "json \<Rightarrow> bool" where
  "json_ok (JNum n) = is_int_lit n"
| "json_ok (JStr s) = utf8_valid s"
| "json_ok (JArr vs) = list_all json_ok vs"
| "json_ok (JObj ms) = list_all (\<lambda>(k, v). utf8_valid k \<and> json_ok v) ms"
| "json_ok _ = True"

text \<open>A value whose numbers are literals, and the value with all its strings made valid.\<close>

fun numerals_ok :: "json \<Rightarrow> bool" where
  "numerals_ok (JNum n) = is_int_lit n"
| "numerals_ok (JArr vs) = list_all numerals_ok vs"
| "numerals_ok (JObj ms) = list_all (\<lambda>(k, v). numerals_ok v) ms"
| "numerals_ok _ = True"

fun clean_json :: "json \<Rightarrow> json" where
  "clean_json (JStr s) = JStr (to_valid s)"
| "clean_json (JArr vs) = JArr (map clean_json vs)"
| "clean_json (JObj ms) = JObj (map (\<lambda>(k, v). (to_valid k, clean_json v)) ms)"
| "clean_json v = v"

lemma json_ok_clean: "json_ok v \<Longrightarrow> numerals_ok v \<and> clean_json v = v"
proof (induction v)
  case (JArr vs)
  then show ?case by (auto simp: list_all_iff intro: map_idI)
next
  case (JObj ms)
  then show ?case by (fastforce simp: list_all_iff to_valid_id intro: map_idI)
qed (simp_all add: to_valid_id)

definition num_stop :: "string \<Rightarrow> bool" where
  "num_stop s \<longleftrightarrow> s = [] \<or> (\<not> is_digit (hd s) \<and> hd s \<notin> {CHR ''.'', CHR ''e'', CHR ''E''})"

lemma span_digits_append:
  "list_all is_digit d \<Longrightarrow> num_stop s \<Longrightarrow> span_digits (d @ s) = (d, s)"
  by (cases s) (auto simp: span_digits_def num_stop_def list_all_iff takeWhile_append2 dropWhile_append2)

lemma num_stop_parts:
  "num_stop s \<Longrightarrow> parse_frac_part s = Some ([], s)" "num_stop s \<Longrightarrow> parse_exp_part s = Some ([], s)"
  by (auto simp: num_stop_def parse_frac_part_def parse_exp_part_def split: list.splits)

lemma parse_int_part_append:
  assumes "ds \<noteq> []" "list_all is_digit ds" "hd ds = CHR ''0'' \<longrightarrow> tl ds = []" "num_stop s"
  shows "parse_int_part (ds @ s) = Some (ds, s)"
  using assms by (cases ds) (auto simp: span_digits_append)

lemma parse_number_append:
  assumes "is_int_lit n" "num_stop s"
  shows "parse_number (n @ s) = Some (n, s)"
proof (cases n)
  case (Cons c t)
  show ?thesis
  proof (cases "c = CHR ''-''")
    case True
    with assms Cons show ?thesis
      by (simp add: is_int_lit_def parse_number_def parse_int_part_append num_stop_parts)
  next
    case False
    with assms Cons show ?thesis
      using parse_int_part_append [of "c # t" s]
      by (simp add: is_int_lit_def parse_number_def num_stop_parts del: parse_int_part.simps)
  qed
qed (use assms in \<open>simp add: is_int_lit_def\<close>)


definition all_ws :: "string \<Rightarrow> bool" where
  "all_ws w \<longleftrightarrow> list_all is_json_ws w"

lemma skip_ws_append: "all_ws w \<Longrightarrow> skip_ws (w @ s) = skip_ws s"
  by (induction w) (auto simp: all_ws_def skip_ws_def)

lemma all_ws_newline [simp]: "all_ws (newline d)"
  by (simp add: all_ws_def newline_def is_json_ws_def list_all_iff)

lemma all_ws_simps [simp]: "all_ws []" "all_ws [CHR '' '']"
  by (simp_all add: all_ws_def is_json_ws_def)

lemma skip_ws_solid: "\<not> is_json_ws c \<Longrightarrow> skip_ws (c # s) = c # s"
  by (simp add: skip_ws_def)

lemma solid [simp]:
  "\<not> is_json_ws CHR ''{''" "\<not> is_json_ws CHR ''}''" "\<not> is_json_ws CHR ''[''" "\<not> is_json_ws CHR '']''"
  "\<not> is_json_ws CHR '',''" "\<not> is_json_ws CHR '':''" "\<not> is_json_ws CHR 0x22" "\<not> is_json_ws CHR ''t''"
  "\<not> is_json_ws CHR ''f''" "\<not> is_json_ws CHR ''n''" "\<not> is_json_ws CHR ''-''"
  by (simp_all add: is_json_ws_def)

lemma skip_ws_newline [simp]: "skip_ws (newline d @ s) = skip_ws s"
  by (rule skip_ws_append) simp

lemma strip_simps [simp]:
  "strip [c] (d # s) = (if c = d then Some s else None)" "strip p (p @ s) = Some s"
  by (auto simp: strip_def)

lemma is_int_lit_hd:
  "is_int_lit n \<Longrightarrow> \<exists>c t. n = c # t \<and> (is_digit c \<or> c = CHR ''-'')"
  by (cases n) (auto simp: is_int_lit_def split: if_splits)

lemma num_hd_other:
  assumes "is_digit c \<or> c = CHR ''-''"
  shows "c \<noteq> CHR ''{''" "c \<noteq> CHR ''[''" "c \<noteq> CHR 0x22" "c \<noteq> CHR ''t''" "c \<noteq> CHR ''f''" "c \<noteq> CHR ''n''"
    "c \<noteq> CHR '']''" "c \<noteq> CHR ''}''" "\<not> is_json_ws c"
  using assms by (auto simp: is_digit_def is_json_ws_def)

lemma parse_number_value:
  assumes "is_int_lit m" "num_stop s" "all_ws w" "0 < n"
  shows "parse_value n (w @ m @ s) = Some (JNum m, s)"
proof -
  obtain c t where m: "m = c # t" and c: "is_digit c \<or> c = CHR ''-''"
    using is_int_lit_hd [OF assms(1)] by blast
  have "skip_ws (w @ m @ s) = c # t @ s"
    using assms num_hd_other [OF c] by (simp add: skip_ws_append m skip_ws_solid)
  then show ?thesis
    using assms num_hd_other [OF c] parse_number_append [OF assms(1,2)]
    by (cases n) (simp_all add: parse_value.simps m)
qed

lemma parse_string_value:
  assumes "all_ws w" "0 < n"
  shows "parse_value n (w @ print_string x @ s) = Some (JStr (to_valid x), s)"
  using assms
  by (cases n) (simp_all add: parse_value.simps print_string_def skip_ws_append skip_ws_solid parse_escape_string)

text \<open>The first byte of a printed value decides how it is read, and never closes a list.\<close>

lemma print_json_hd:
  "numerals_ok v \<Longrightarrow> \<exists>c t. print_json d v = c # t \<and> \<not> is_json_ws c \<and> c \<noteq> CHR '']'' \<and> c \<noteq> CHR ''}''"
proof (cases v)
  case (JNum n)
  assume "numerals_ok v"
  with JNum is_int_lit_hd [of n] num_hd_other show ?thesis by fastforce
next
  case (JArr vs)
  then show ?thesis by (cases vs) auto
next
  case (JObj ms)
  then show ?thesis by (cases ms) (auto simp: case_prod_beta intro: prod.exhaust)
qed (auto simp: print_string_def)

lemma parse_literals:
  assumes "all_ws w" "0 < n"
  shows "parse_value n (w @ ''null'' @ s) = Some (JNull, s)"
    "parse_value n (w @ ''true'' @ s) = Some (JBool True, s)"
    "parse_value n (w @ ''false'' @ s) = Some (JBool False, s)"
  using assms
  by (cases n; simp add: parse_value.simps skip_ws_append skip_ws_solid strip_def)+

definition reads_back :: "json \<Rightarrow> bool" where
  "reads_back v \<longleftrightarrow>
     (\<forall>n d w s. all_ws w \<longrightarrow> num_stop s \<longrightarrow> 2 * length (w @ print_json d v @ s) < n \<longrightarrow>
        parse_value n (w @ print_json d v @ s) = Some (clean_json v, s))"

lemma reads_backD:
  "reads_back v \<Longrightarrow> all_ws w \<Longrightarrow> num_stop s \<Longrightarrow> 2 * length (w @ print_json d v @ s) < n \<Longrightarrow>
     parse_value n (w @ print_json d v @ s) = Some (clean_json v, s)"
  unfolding reads_back_def by blast

lemma num_stop_newline [simp]: "num_stop (newline d @ s)"
  by (simp add: num_stop_def newline_def is_digit_def)

lemma num_stop_punct [simp]: "num_stop (CHR '','' # s)" "num_stop []"
  by (simp_all add: num_stop_def is_digit_def)

lemma num_stop_elems: "num_stop (print_elems d vs @ newline e @ s)"
  by (cases vs) (simp_all add: num_stop_def newline_def is_digit_def)

lemma num_stop_members: "num_stop (print_members d ms @ newline e @ s)"
  by (cases ms) (auto simp: num_stop_def newline_def is_digit_def)

lemma parse_printed_elems:
  assumes "\<And>x. x \<in> set (v # vs) \<Longrightarrow> reads_back x" and "all_ws w"
    and "2 * length (w @ print_json d v @ print_elems d vs @ newline e @ '']'' @ s) + 1 < n"
  shows "parse_elems n (w @ print_json d v @ print_elems d vs @ newline e @ '']'' @ s) = Some (map clean_json (v # vs), s)"
  using assms
proof (induction vs arbitrary: v w n)
  case Nil
  then obtain m where n: "n = Suc m" by (cases n) auto
  have "parse_value m (w @ print_json d v @ newline e @ '']'' @ s) = Some (clean_json v, newline e @ '']'' @ s)"
    by (rule reads_backD) (use Nil n in auto)
  then show ?case by (simp add: n parse_elems.simps skip_ws_solid)
next
  case (Cons u vs)
  then obtain m where n: "n = Suc m" by (cases n) auto
  let ?r = "print_elems d (u # vs) @ newline e @ '']'' @ s"
  have "parse_value m (w @ print_json d v @ ?r) = Some (clean_json v, ?r)"
    by (rule reads_backD) (use Cons.prems n in auto)
  moreover have "parse_elems m (newline d @ print_json d u @ print_elems d vs @ newline e @ '']'' @ s)
      = Some (map clean_json (u # vs), s)"
    by (rule Cons.IH) (use Cons.prems n in auto)
  ultimately show ?case by (simp add: n parse_elems.simps skip_ws_solid)
qed

lemma parse_printed_key:
  assumes "all_ws w"
  shows "strip [CHR 0x22] (skip_ws (w @ print_string k @ s)) = Some (escape_string k @ CHR 0x22 # s)"
  using assms by (simp add: print_string_def skip_ws_append skip_ws_solid)

lemma parse_members_step:
  assumes "all_ws w" "parse_value m (CHR '' '' # x) = Some (v, r)"
  shows "parse_members (Suc m) (w @ print_string k @ '': '' @ x) =
    (case skip_ws r of [] \<Rightarrow> None
     | c # r' \<Rightarrow> if c = CHR '','' then map_option (apfst ((#) (to_valid k, v))) (parse_members m r')
                 else if c = CHR ''}'' then Some ([(to_valid k, v)], r') else None)"
  unfolding parse_members.simps(2) parse_printed_key [OF assms(1)]
  using assms by (simp add: parse_escape_string skip_ws_solid)

lemma parse_printed_members:
  assumes "\<And>k' x. (k', x) \<in> set ((k, v) # ms) \<Longrightarrow> reads_back x" and "all_ws w"
    and "2 * length (w @ print_string k @ '': '' @ print_json d v @ print_members d ms @ newline e @ ''}'' @ s) + 1 < n"
  shows "parse_members n (w @ print_string k @ '': '' @ print_json d v @ print_members d ms @ newline e @ ''}'' @ s)
    = Some (map (\<lambda>(k, v). (to_valid k, clean_json v)) ((k, v) # ms), s)"
  using assms
proof (induction ms arbitrary: k v w n)
  case Nil
  then obtain m where n: "n = Suc m" by (cases n) auto
  have "parse_value m ('' '' @ print_json d v @ newline e @ ''}'' @ s) = Some (clean_json v, newline e @ ''}'' @ s)"
    by (rule reads_backD) (use Nil n in auto)
  from parse_members_step [OF Nil(2), of m _ "clean_json v" "newline e @ ''}'' @ s" k] this Nil n
  show ?case by (simp add: skip_ws_solid)
next
  case (Cons p ms)
  obtain k2 u where p: "p = (k2, u)" by (cases p) auto
  from Cons obtain m where n: "n = Suc m" by (cases n) auto
  let ?r = "print_members d (p # ms) @ newline e @ ''}'' @ s"
  have "parse_value m ('' '' @ print_json d v @ ?r) = Some (clean_json v, ?r)"
    by (rule reads_backD) (use Cons.prems n p in auto)
  moreover have "parse_members m (newline d @ print_string k2 @ '': '' @ print_json d u @ print_members d ms @ newline e @ ''}'' @ s)
      = Some (map (\<lambda>(k, v). (to_valid k, clean_json v)) ((k2, u) # ms), s)"
    by (rule Cons.IH) (use Cons.prems n p in auto)
  ultimately show ?case
    using parse_members_step [OF Cons.prems(2), of m "print_json d v @ ?r" "clean_json v" ?r k] n p
    by (simp add: skip_ws_solid)
qed

lemma json_reads_back: "numerals_ok v \<Longrightarrow> reads_back v"
proof (induction v)
  case (JArr vs)
  show ?case
    unfolding reads_back_def
  proof (intro allI impI)
    fix n d w s
    assume w: "all_ws w" and n: "2 * length (w @ print_json d (JArr vs) @ s) < n"
    from n obtain m where m: "n = Suc m" by (cases n) auto
    show "parse_value n (w @ print_json d (JArr vs) @ s) = Some (clean_json (JArr vs), s)"
    proof (cases vs)
      case Nil
      with w m show ?thesis by (simp add: parse_value.simps skip_ws_append skip_ws_solid)
    next
      case (Cons v vs')
      have "parse_elems m (newline (Suc d) @ print_json (Suc d) v @ print_elems (Suc d) vs' @ newline d @ '']'' @ s)
          = Some (map clean_json (v # vs'), s)"
        by (rule parse_printed_elems) (use JArr Cons n m in \<open>auto simp: list_all_iff\<close>)
      moreover obtain c t where "print_json (Suc d) v = c # t" "\<not> is_json_ws c" "c \<noteq> CHR '']''"
        using print_json_hd [of v "Suc d"] JArr Cons by auto
      ultimately show ?thesis
        using w by (simp add: m Cons parse_value.simps skip_ws_append skip_ws_solid)
    qed
  qed
next
  case (JObj ms)
  show ?case
    unfolding reads_back_def
  proof (intro allI impI)
    fix n d w s
    assume w: "all_ws w" and n: "2 * length (w @ print_json d (JObj ms) @ s) < n"
    from n obtain m where m: "n = Suc m" by (cases n) auto
    show "parse_value n (w @ print_json d (JObj ms) @ s) = Some (clean_json (JObj ms), s)"
    proof (cases ms)
      case Nil
      with w m show ?thesis by (simp add: parse_value.simps skip_ws_append skip_ws_solid)
    next
      case (Cons p ms')
      obtain k v where p: "p = (k, v)" by (cases p) auto
      have "parse_members m (newline (Suc d) @ print_string k @ '': '' @ print_json (Suc d) v
            @ print_members (Suc d) ms' @ newline d @ ''}'' @ s) = Some (map (\<lambda>(k, v). (to_valid k, clean_json v)) ((k, v) # ms'), s)"
        by (rule parse_printed_members) (use JObj Cons p n m in \<open>fastforce simp: list_all_iff\<close>)+
      then show ?thesis
        using w by (simp add: m Cons p parse_value.simps skip_ws_append skip_ws_solid print_string_def)
    qed
  qed
qed (auto simp: reads_back_def parse_number_value parse_string_value parse_literals [simplified])

theorem parse_print_clean:
  assumes "numerals_ok v" "num_stop s"
  shows "parse_first (print_json d v @ s) = Some (clean_json v)"
proof -
  have "parse_value (Suc (2 * length (print_json d v @ s))) ([] @ print_json d v @ s) = Some (clean_json v, s)"
    by (rule reads_backD [OF json_reads_back]) (use assms in auto)
  then show ?thesis by (simp add: parse_first_def)
qed

lemma parse_print_json: "json_ok v \<Longrightarrow> num_stop s \<Longrightarrow> parse_first (print_json d v @ s) = Some v"
  using parse_print_clean [of v s d] json_ok_clean [of v] by simp

end
