(* ===== verification/GoTime.thy ===== *)
theory GoTime imports GoStrings "HOL-Library.Monad_Syntax" begin

text \<open>
  What the program uses of Go's \<open>time\<close>: instants, durations, comparison, the ledger's
  timestamp layout and \<open>time.Parse(time.RFC3339, _)\<close>.

  A \<open>time.Time\<close> is the number of nanoseconds since 1970-01-01T00:00:00Z, unbounded. The
  location is not part of the model: the program converts every time it prints to UTC and
  compares instants otherwise. A \<open>time.Duration\<close> is a 64 bit number of nanoseconds, on which
  \<open>Sub\<close> saturates.
\<close>

type_synonym time = int

definition nanosecond_per_second :: int where
  "nanosecond_per_second = 1000000000"

abbreviation Hour :: int where
  "Hour \<equiv> 3600000000000"

definition zero_time :: time where
  \<comment> \<open>the zero \<open>time.Time\<close>, 0001-01-01T00:00:00Z\<close>
  "zero_time = -62135596800 * nanosecond_per_second"

definition time_sub :: "time \<Rightarrow> time \<Rightarrow> int" where
  "time_sub t u = max (- (2 ^ 63)) (min (2 ^ 63 - 1) (t - u))"

definition time_add :: "time \<Rightarrow> int \<Rightarrow> time" where
  "time_add t d = t + d"

definition time_unix :: "time \<Rightarrow> int" where
  "time_unix t = t div nanosecond_per_second"

lemma time_sub_gt: "0 \<le> d \<Longrightarrow> d < 2 ^ 63 - 1 \<Longrightarrow> time_sub t u > d \<longleftrightarrow> t - u > d"
  by (auto simp: time_sub_def)

section \<open>The calendar\<close>

definition is_leap :: "int \<Rightarrow> bool" where
  "is_leap y \<longleftrightarrow> y mod 4 = 0 \<and> (y mod 100 \<noteq> 0 \<or> y mod 400 = 0)"

text \<open>Days from 0000-01-01 to the first of January of year \<open>y\<close>.\<close>

definition days_before_year :: "int \<Rightarrow> int" where
  "days_before_year y = 365 * y + (y + 3) div 4 - (y + 99) div 100 + (y + 399) div 400"

definition month_lengths :: "int \<Rightarrow> int list" where
  "month_lengths y = [31, if is_leap y then 29 else 28, 31, 30, 31, 30, 31, 31, 30, 31, 30, 31]"

definition days_in :: "int \<Rightarrow> int \<Rightarrow> int" where
  "days_in m y = month_lengths y ! nat (m - 1)"

definition days_before_month :: "int \<Rightarrow> int \<Rightarrow> int" where
  "days_before_month m y = sum_list (take (nat (m - 1)) (month_lengths y))"

definition epoch_days :: int where
  "epoch_days = 719528"

definition days_of_date :: "int \<Rightarrow> int \<Rightarrow> int \<Rightarrow> int" where
  "days_of_date y m d = days_before_year y + days_before_month m y + (d - 1)"

text \<open>\<open>time.Date\<close> in UTC.\<close>

definition time_of :: "int \<Rightarrow> int \<Rightarrow> int \<Rightarrow> int \<Rightarrow> int \<Rightarrow> int \<Rightarrow> int \<Rightarrow> time" where
  "time_of y mo d h mi s ns =
     ((days_of_date y mo d - epoch_days) * 86400 + h * 3600 + mi * 60 + s)
       * nanosecond_per_second + ns"

lemma div_ceiling_Suc:
  fixes y k :: int
  assumes "0 < k" and j: "j = k - 1"
  shows "(y + 1 + j) div k = (y + j) div k + (if y mod k = 0 then 1 else 0)"
proof -
  have eqs: "y + 1 + j = y + k" "y + j = y + k - 1"
    using j by simp_all
  define q r where "q = y div k" and "r = y mod k"
  have y: "y = k * q + r" and r: "0 \<le> r" "r < k"
    using assms by (simp_all add: q_def r_def)
  have 1: "(y + k) div k = q + 1"
    using assms by (simp add: q_def div_add_self2)
  show ?thesis
  proof (cases "r = 0")
    case True
    have "(y + k - 1) div k = q"
      by (rule int_div_pos_eq [where r = "k - 1"]) (use True y assms in auto)
    with 1 True show ?thesis by (simp add: eqs r_def)
  next
    case False
    have "(y + k - 1) div k = q + 1"
      by (rule int_div_pos_eq [where r = "r - 1"]) (use False y r in \<open>auto simp: algebra_simps\<close>)
    with 1 False show ?thesis by (simp add: eqs r_def)
  qed
qed

lemma days_before_year_Suc:
  "days_before_year (y + 1) = days_before_year y + (if is_leap y then 366 else 365)"
proof -
  have D: "y mod 400 = 0 \<Longrightarrow> y mod 100 = 0" "y mod 100 = 0 \<Longrightarrow> y mod 4 = 0"
    by (auto simp: mod_eq_0_iff_dvd elim: dvd_trans [rotated])
  have 1: "(y + 1 + 3) div 4 = (y + 3) div 4 + (if y mod 4 = 0 then 1 else 0)"
    by (rule div_ceiling_Suc) simp_all
  have 2: "(y + 1 + 99) div 100 = (y + 99) div 100 + (if y mod 100 = 0 then 1 else 0)"
    by (rule div_ceiling_Suc) simp_all
  have 3: "(y + 1 + 399) div 400 = (y + 399) div 400 + (if y mod 400 = 0 then 1 else 0)"
    by (rule div_ceiling_Suc) simp_all
  have C: "365 * (y + 1) = 365 * y + 365" by simp
  show ?thesis
    unfolding days_before_year_def 1 2 3 C is_leap_def
    by (cases "y mod 4 = 0"; cases "y mod 100 = 0"; cases "y mod 400 = 0")
       (use D in simp_all)
qed

lemma days_before_year_leaps:
  fixes y :: int
  shows "400 * ((y + 3) div 4 - (y + 99) div 100 + (y + 399) div 400) \<le> 97 * y + 700"
proof -
  have "4 * ((y + 3) div 4) \<le> y + 3" "y \<le> 100 * ((y + 99) div 100)"
    "400 * ((y + 399) div 400) \<le> y + 399" by simp_all
  then show ?thesis
    unfolding ring_distribs
    by (smt (verit) mult.assoc)
qed

lemma days_before_year_less: "days_before_year y < days_before_year (y + 1)"
  by (simp add: days_before_year_Suc)

text \<open>The year of a day number: an estimate from below, then upwards.\<close>

function year_from :: "int \<Rightarrow> int \<Rightarrow> int" where
  "year_from y n = (if days_before_year (y + 1) \<le> n then year_from (y + 1) n else y)"
  by pat_completeness auto
termination
proof (relation "measure (\<lambda>(y, n). nat (n - days_before_year y))")
  fix y n :: int
  assume "days_before_year (y + 1) \<le> n"
  with days_before_year_less [of y]
  show "((y + 1, n), (y, n)) \<in> measure (\<lambda>(y, n). nat (n - days_before_year y))"
    by (simp add: nat_mono_iff)
qed simp

declare year_from.simps [simp del]

definition year_of_days :: "int \<Rightarrow> int" where
  "year_of_days n = year_from (if 0 \<le> n then n div 366 else n div 365 - 1) n"

fun month_day :: "int list \<Rightarrow> int \<Rightarrow> int \<Rightarrow> int \<times> int" where
  "month_day [] m d = (m, d + 1)"
| "month_day (l # ls) m d = (if d < l then (m, d + 1) else month_day ls (m + 1) (d - l))"

definition date_of_days :: "int \<Rightarrow> int \<times> int \<times> int" where
  "date_of_days n =
     (let y = year_of_days n in (y, month_day (month_lengths y) 1 (n - days_before_year y)))"

lemma year_from_bounds:
  "days_before_year y \<le> n \<Longrightarrow>
     days_before_year (year_from y n) \<le> n \<and> n < days_before_year (year_from y n + 1)"
proof (induction y n rule: year_from.induct)
  case (1 y n)
  then show ?case
    by (cases "days_before_year (y + 1) \<le> n") (simp_all add: year_from.simps [of y n])
qed

lemma year_of_days_bounds:
  "days_before_year (year_of_days n) \<le> n \<and> n < days_before_year (year_of_days n + 1)"
proof -
  let ?y = "if 0 \<le> n then n div 366 else n div 365 - 1"
  have "days_before_year ?y \<le> n"
  proof (cases "0 \<le> n")
    case True
    define q where "q = n div 366"
    have "0 \<le> q" "366 * q \<le> n" using True unfolding q_def by simp_all
    moreover have "(q + 3) div 4 - (q + 99) div 100 + (q + 399) div 400 \<le> q"
    proof (cases "q < 3")
      case True
      with \<open>0 \<le> q\<close> have "q = 0 \<or> q = 1 \<or> q = 2" by linarith
      then show ?thesis by auto
    qed (use days_before_year_leaps [of q] in linarith)
    ultimately show ?thesis using True by (simp add: days_before_year_def flip: q_def)
  next
    case False
    define q where "q = n div 365"
    have "q < 0" "365 * q \<le> n" using False unfolding q_def by (simp_all add: neg_imp_zdiv_neg_iff)
    moreover have "(q - 1 + 3) div 4 - (q - 1 + 99) div 100 + (q - 1 + 399) div 400 \<le> 365"
      using days_before_year_leaps [of "q - 1"] \<open>q < 0\<close> by linarith
    ultimately show ?thesis using False by (simp add: days_before_year_def flip: q_def)
  qed
  then show ?thesis unfolding year_of_days_def by (rule year_from_bounds)
qed

lemma month_day_props:
  assumes "0 \<le> d" "d < sum_list ls" "month_day ls m0 d = (m, k)"
  shows "\<exists>i<length ls. m = m0 + int i \<and> 1 \<le> k \<and> k \<le> ls ! i \<and> d = sum_list (take i ls) + k - 1"
  using assms
proof (induction ls arbitrary: m0 d)
  case (Cons l ls)
  show ?case
  proof (cases "d < l")
    case True
    with Cons.prems show ?thesis by (intro exI [of _ 0]) auto
  next
    case False
    with Cons.prems have "0 \<le> d - l" "d - l < sum_list ls" "month_day ls (m0 + 1) (d - l) = (m, k)"
      by auto
    from Cons.IH [OF this] obtain i where "i < length ls" "m = m0 + 1 + int i" "1 \<le> k" "k \<le> ls ! i"
      "d - l = sum_list (take i ls) + k - 1" by auto
    then show ?thesis by (intro exI [of _ "Suc i"]) auto
  qed
qed simp

lemma date_of_days_props:
  assumes "date_of_days n = (y, m, d)"
  shows "days_of_date y m d = n" "1 \<le> m" "m \<le> 12" "1 \<le> d" "d \<le> days_in m y"
    "y = year_of_days n"
proof -
  from assms have y: "y = year_of_days n" and md: "month_day (month_lengths y) 1 (n - days_before_year y) = (m, d)"
    by (auto simp: date_of_days_def Let_def)
  have "sum_list (month_lengths y) = (if is_leap y then 366 else 365)"
    by (simp add: month_lengths_def)
  then have "0 \<le> n - days_before_year y" "n - days_before_year y < sum_list (month_lengths y)"
    using year_of_days_bounds [of n] days_before_year_Suc [of y] by (auto simp: y)
  from month_day_props [OF this md] obtain i where i: "i < 12" "m = 1 + int i" "1 \<le> d"
    "d \<le> month_lengths y ! i" "n - days_before_year y = sum_list (take i (month_lengths y)) + d - 1"
    by (auto simp: month_lengths_def)
  then have "nat (m - 1) = i" by simp
  with i show "days_of_date y m d = n" "1 \<le> m" "m \<le> 12" "1 \<le> d" "d \<le> days_in m y"
    by (auto simp: days_of_date_def days_before_month_def days_in_def)
  show "y = year_of_days n" by (rule y)
qed

section \<open>Printing\<close>

text \<open>Go's \<open>appendInt\<close>: zero padded to a width, with the sign in front.\<close>

definition pad_nat :: "nat \<Rightarrow> nat \<Rightarrow> string" where
  "pad_nat w n = replicate (w - length (show_nat n)) (CHR ''0'') @ show_nat n"

definition append_int :: "nat \<Rightarrow> int \<Rightarrow> string" where
  "append_int w i = (if i < 0 then CHR ''-'' # pad_nat w (nat (- i)) else pad_nat w (nat i))"

text \<open>\<open>t.UTC().Format("2006-01-02T15:04:05Z")\<close>.\<close>

definition format_utc :: "time \<Rightarrow> string" where
  "format_utc t =
     (let s = time_unix t; sod = s mod 86400
      in case date_of_days (s div 86400 + epoch_days) of (y, m, d) \<Rightarrow>
        append_int 4 y @ ''-'' @ append_int 2 m @ ''-'' @ append_int 2 d @ ''T'' @
        append_int 2 (sod div 3600) @ '':'' @ append_int 2 (sod div 60 mod 60) @ '':'' @
        append_int 2 (sod mod 60) @ ''Z'')"

section \<open>Parsing RFC 3339\<close>

text \<open>
  \<open>time.Parse(time.RFC3339, s)\<close>, with the liberties Go's parser takes beyond RFC 3339: an
  hour of one digit, a fraction after the seconds although the layout has none (with a dot or a
  comma, digits beyond the ninth dropped), offsets of up to 24 hours and 60 minutes.
\<close>

definition digit_val :: "char \<Rightarrow> int" where
  "digit_val c = int (byte c) - 48"

fun getnum :: "bool \<Rightarrow> string \<Rightarrow> (int \<times> string) option" where
  "getnum fixed [] = None"
| "getnum fixed [a] = (if is_digit a \<and> \<not> fixed then Some (digit_val a, []) else None)"
| "getnum fixed (a # b # s) =
     (if \<not> is_digit a then None
      else if is_digit b then Some (10 * digit_val a + digit_val b, s)
      else if fixed then None else Some (digit_val a, b # s))"

fun get_year :: "string \<Rightarrow> (int \<times> string) option" where
  "get_year (a # b # c # d # s) =
     (if is_digit a \<and> is_digit b \<and> is_digit c \<and> is_digit d
      then Some (1000 * digit_val a + 100 * digit_val b + 10 * digit_val c + digit_val d, s) else None)"
| "get_year _ = None"

fun skip_lit :: "char \<Rightarrow> string \<Rightarrow> string option" where
  "skip_lit c [] = None"
| "skip_lit c (x # s) = (if x = c then Some s else None)"

definition decimal_val :: "string \<Rightarrow> int" where
  "decimal_val ds = foldl (\<lambda>n c. 10 * n + digit_val c) 0 ds"

text \<open>The optional fraction after the seconds, in nanoseconds.\<close>

fun get_fraction :: "string \<Rightarrow> int \<times> string" where
  "get_fraction (p # d # s) =
     (if (p = CHR ''.'' \<or> p = CHR '','') \<and> is_digit d
      then let ds = takeWhile is_digit (d # s); k = take 9 ds
           in (decimal_val k * 10 ^ (9 - length k), dropWhile is_digit (d # s))
      else (0, p # d # s))"
| "get_fraction s = (0, s)"

text \<open>The zone, as an offset in seconds east of UTC.\<close>

definition get_zone :: "string \<Rightarrow> (int \<times> string) option" where
  "get_zone s =
     (case s of
        CHR ''Z'' # r \<Rightarrow> Some (0, r)
      | sg # h1 # h2 # c # m1 # m2 # r \<Rightarrow>
          if c \<noteq> CHR '':'' then None
          else do {
            (hr, _) \<leftarrow> getnum True [h1, h2];
            (mm, _) \<leftarrow> getnum True [m1, m2];
            if hr > 24 \<or> mm > 60 then None
            else if sg = CHR ''+'' then Some ((hr * 60 + mm) * 60, r)
            else if sg = CHR ''-'' then Some (- ((hr * 60 + mm) * 60), r)
            else None }
      | _ \<Rightarrow> None)"

definition parse_rfc3339 :: "string \<Rightarrow> time option" where
  "parse_rfc3339 s0 = do {
     (year, s) \<leftarrow> get_year s0;
     s \<leftarrow> skip_lit CHR ''-'' s;
     (month, s) \<leftarrow> getnum True s;
     if month < 1 \<or> 12 < month then None else do {
     s \<leftarrow> skip_lit CHR ''-'' s;
     (day, s) \<leftarrow> getnum True s;
     s \<leftarrow> skip_lit CHR ''T'' s;
     (hour, s) \<leftarrow> getnum False s;
     if 24 \<le> hour then None else do {
     s \<leftarrow> skip_lit CHR '':'' s;
     (mi, s) \<leftarrow> getnum True s;
     if 60 \<le> mi then None else do {
     s \<leftarrow> skip_lit CHR '':'' s;
     (sec, s) \<leftarrow> getnum True s;
     if 60 \<le> sec then None else do {
     let (nsec, s) = get_fraction s;
     (off, s) \<leftarrow> get_zone s;
     if s \<noteq> [] \<or> day < 1 \<or> days_in month year < day then None
     else Some (time_of year month day hour mi (sec - off) nsec) }}}}}"

section \<open>Round trip\<close>

lemma digit_hex_char: "d < 10 \<Longrightarrow> is_digit (hex_char d) \<and> digit_val (hex_char d) = int d"
  by (auto simp: is_digit_def digit_val_def byte_hex_char)

lemma show_nat_small: "n < 10 \<Longrightarrow> show_nat n = [hex_char n]"
  by (simp add: show_nat_def show_base.simps)

lemma show_nat_step: "10 \<le> n \<Longrightarrow> show_nat n = show_nat (n div 10) @ [hex_char (n mod 10)]"
  by (simp add: show_nat_def show_base.simps [of 10 n])

lemma hex_char_0: "hex_char 0 = CHR ''0''"
  by (simp add: hex_char_def char_eq_byte del: byte_inject)

lemma pad_nat_2: "n < 100 \<Longrightarrow> pad_nat 2 n = [hex_char (n div 10), hex_char (n mod 10)]"
  by (cases "n < 10") (auto simp: pad_nat_def show_nat_small show_nat_step hex_char_0)

lemma show_nat_length_le:
  "n < 10 ^ k \<Longrightarrow> 0 < k \<Longrightarrow> length (show_nat n) \<le> k"
proof (induction k arbitrary: n)
  case (Suc k)
  show ?case
  proof (cases "n < 10")
    case False
    with Suc.prems have "n div 10 < 10 ^ k" "0 < k" by (auto intro: gr0I)
    with Suc.IH [of "n div 10"] False show ?thesis by (simp add: show_nat_step)
  qed (simp add: show_nat_small)
qed simp

lemma pad_nat_Suc:
  "0 < w \<Longrightarrow> n < 10 ^ Suc w \<Longrightarrow> pad_nat (Suc w) n = pad_nat w (n div 10) @ [hex_char (n mod 10)]"
proof (cases "n < 10")
  case True
  assume "0 < w"
  then obtain v where "w = Suc v" by (cases w) auto
  with True show ?thesis
    by (simp add: pad_nat_def show_nat_small hex_char_0)
       (metis replicate_append_same replicate_Suc)
next
  case False
  then show ?thesis by (simp add: pad_nat_def show_nat_step)
qed

lemma pad_nat_4:
  assumes "n < 10000"
  shows "pad_nat 4 n = [hex_char (n div 1000), hex_char (n div 100 mod 10),
           hex_char (n div 10 mod 10), hex_char (n mod 10)]"
proof -
  have "pad_nat (Suc (Suc 2)) n = pad_nat (Suc 2) (n div 10) @ [hex_char (n mod 10)]"
    by (rule pad_nat_Suc) (use assms in simp_all)
  moreover have "pad_nat (Suc 2) (n div 10) = pad_nat 2 (n div 10 div 10) @ [hex_char (n div 10 mod 10)]"
    by (rule pad_nat_Suc) (use assms in simp_all)
  moreover have "pad_nat 2 (n div 10 div 10) =
      [hex_char (n div 10 div 10 div 10), hex_char (n div 10 div 10 mod 10)]"
    by (rule pad_nat_2) (use assms in simp)
  ultimately have "pad_nat (Suc (Suc 2)) n = [hex_char (n div 10 div 10 div 10),
      hex_char (n div 10 div 10 mod 10), hex_char (n div 10 mod 10), hex_char (n mod 10)]"
    by (simp only: append.simps)
  moreover have "Suc (Suc 2) = 4" "n div 10 div 10 div 10 = n div 1000" "n div 10 div 10 = n div 100"
    by (simp_all flip: div_mult2_eq)
  ultimately show ?thesis by (simp only:)
qed

lemma getnum_append_int:
  assumes "0 \<le> n" "n < 100"
  shows "getnum fixed (append_int 2 n @ s) = Some (n, s)"
proof -
  have "nat n div 10 < 10" "nat n mod 10 < 10" "nat n < 100" using assms by auto
  moreover have "10 * int (nat n div 10) + int (nat n mod 10) = n"
    using assms by (simp add: zdiv_int zmod_int)
  ultimately show ?thesis
    using assms by (simp add: append_int_def pad_nat_2 digit_hex_char)
qed

lemma digits_recompose:
  "1000 * int (n div 1000) + 100 * int (n div 100 mod 10) + 10 * int (n div 10 mod 10)
     + int (n mod 10) = int n"
proof -
  have comb: "1000 * int d + 100 * int c + 10 * int b + int a = int n"
    if "n = u * 10 + a" "u = v * 10 + b" "v = d * 10 + c" for a b c d u v :: nat
    using that by simp
  have "n div 100 = n div 10 div 10" "n div 1000 = n div 100 div 10"
    by (simp_all flip: div_mult2_eq)
  then have "n div 10 = n div 100 * 10 + n div 10 mod 10"
    "n div 100 = n div 1000 * 10 + n div 100 mod 10"
    by (metis div_mult_mod_eq)+
  with comb show ?thesis by (metis div_mult_mod_eq)
qed

lemma get_year_append_int:
  assumes "0 \<le> y" "y < 10000"
  shows "get_year (append_int 4 y @ s) = Some (y, s)"
proof -
  define n where "n = nat y"
  have n: "n < 10000" "y = int n" using assms by (auto simp: n_def)
  have "n div 1000 < 10" "n div 100 mod 10 < 10" "n div 10 mod 10 < 10" "n mod 10 < 10"
    using n by auto
  moreover have "1000 * int (n div 1000) + 100 * int (n div 100 mod 10) + 10 * int (n div 10 mod 10)
      + int (n mod 10) = int n"
    by (rule digits_recompose)
  ultimately show ?thesis
    using n by (simp add: append_int_def pad_nat_4 digit_hex_char)
qed

lemma days_in_le: "1 \<le> m \<Longrightarrow> m \<le> 12 \<Longrightarrow> days_in m y \<le> 31"
proof -
  assume "1 \<le> m" "m \<le> 12"
  then have "nat (m - 1) < length (month_lengths y)" by (auto simp: month_lengths_def)
  then have "days_in m y \<in> set (month_lengths y)" unfolding days_in_def by (rule nth_mem)
  then show ?thesis by (auto simp: month_lengths_def split: if_splits)
qed

lemma sod_recompose:
  fixes sod :: int
  shows "sod div 3600 * 3600 + sod div 60 mod 60 * 60 + sod mod 60 = sod"
proof -
  have comb: "c * 3600 + d * 60 + b = s" if "s = a * 60 + b" "a = c * 60 + d" for a b c d s :: int
    using that by simp
  have "sod div 3600 = sod div 60 div 60" by (simp add: zdiv_zmult2_eq [symmetric])
  then have "sod div 60 = sod div 3600 * 60 + sod div 60 mod 60" by (metis div_mult_mod_eq)
  with comb show ?thesis by (metis div_mult_mod_eq)
qed

definition year_of :: "time \<Rightarrow> int" where
  "year_of t = year_of_days (time_unix t div 86400 + epoch_days)"

lemma parse_rfc3339_layout:
  assumes "0 \<le> y" "y < 10000" "1 \<le> m" "m \<le> 12" "1 \<le> d" "d \<le> days_in m y"
    and "0 \<le> hh" "hh < 24" "0 \<le> mi" "mi < 60" "0 \<le> ss" "ss < 60"
  shows "parse_rfc3339 (append_int 4 y @ ''-'' @ append_int 2 m @ ''-'' @ append_int 2 d @ ''T'' @
           append_int 2 hh @ '':'' @ append_int 2 mi @ '':'' @ append_int 2 ss @ ''Z'')
         = Some (time_of y m d hh mi ss 0)"
proof -
  have "d \<le> 31" using assms days_in_le [of m y] by linarith
  with assms show ?thesis
    by (simp add: parse_rfc3339_def get_year_append_int getnum_append_int get_zone_def)
qed

lemma parse_format_utc:
  assumes "0 \<le> year_of t" "year_of t \<le> 9999"
  shows "parse_rfc3339 (format_utc t) = Some (time_unix t * nanosecond_per_second)"
proof -
  define s where "s = time_unix t"
  define sod where "sod = s mod 86400"
  obtain y m d where ymd: "date_of_days (s div 86400 + epoch_days) = (y, m, d)"
    by (cases "date_of_days (s div 86400 + epoch_days)") auto
  note P = date_of_days_props [OF ymd]
  have y: "0 \<le> y" "y < 10000" using assms P(6) by (auto simp: year_of_def s_def)
  have sod: "0 \<le> sod" "sod < 86400" by (simp_all add: sod_def)
  have hh: "0 \<le> sod div 3600" "sod div 3600 < 24" using sod by auto
  have "parse_rfc3339 (format_utc t) =
      Some (time_of y m d (sod div 3600) (sod div 60 mod 60) (sod mod 60) 0)"
    unfolding format_utc_def Let_def ymd s_def [symmetric] sod_def [symmetric] prod.case
    by (rule parse_rfc3339_layout) (use y P hh in auto)
  moreover have comb: "((a + e - e) * 86400 + h + m' + c) = s"
    if "a * 86400 + sod = s" "h + m' + c = sod" for a e h m' c :: int
    using that by simp
  have "s div 86400 * 86400 + sod = s" by (simp add: sod_def)
  from comb [OF this sod_recompose]
  have "time_of y m d (sod div 3600) (sod div 60 mod 60) (sod mod 60) 0 = s * nanosecond_per_second"
    unfolding time_of_def P(1) by (simp only: add_0_right)
  ultimately show ?thesis by (simp add: s_def)
qed

end
