(* ===== verification/GoDecode.thy ===== *)
theory GoDecode imports GoJson GoTime begin

text \<open>
  How \<open>encoding/json\<close> stores a JSON value in Go variables: the match of an object's keys with
  the fields of a struct (exact, then case folded), \<open>null\<close>, repeated keys, slices whose storage
  is reused, integers of 64 bits, and times. Only success and failure are told apart: \<open>None\<close>
  stands for every decoding error, since the program uses no value that came with an error.
\<close>

section \<open>Keys\<close>

text \<open>Against the ASCII names of fields: letters, and the two runes that fold to a letter
  (U+017F to \<open>S\<close>, U+212A to \<open>K\<close>).\<close>

definition upper_byte :: "char \<Rightarrow> char" where
  "upper_byte c = (if is_lower c then char_of (byte c - 32) else c)"

fun fold_key :: "string \<Rightarrow> string" where
  "fold_key [] = []"
| "fold_key (c # s) =
     (if prefix [CHR 0xC5, CHR 0xBF] (c # s) then CHR ''S'' # fold_key (drop 1 s)
      else if prefix [CHR 0xE2, CHR 0x84, CHR 0xAA] (c # s) then CHR ''K'' # fold_key (drop 2 s)
      else upper_byte c # fold_key s)"

type_synonym 's field = "string \<times> (json \<Rightarrow> 's \<Rightarrow> 's option)"

definition find_field :: "'s field list \<Rightarrow> string \<Rightarrow> (json \<Rightarrow> 's \<Rightarrow> 's option) option" where
  "find_field fs k =
     (case map_of fs k of
        Some f \<Rightarrow> Some f
      | None \<Rightarrow> map_of (map (apfst fold_key) fs) (fold_key k))"

fun decode_members :: "bool \<Rightarrow> 's field list \<Rightarrow> (string \<times> json) list \<Rightarrow> 's \<Rightarrow> 's option" where
  "decode_members strict fs [] s = Some s"
| "decode_members strict fs ((k, v) # ms) s =
     (case find_field fs k of
        None \<Rightarrow> if strict then None else decode_members strict fs ms s
      | Some f \<Rightarrow> (case f v s of None \<Rightarrow> None | Some s1 \<Rightarrow> decode_members strict fs ms s1))"

text \<open>\<open>strict\<close> is \<open>DisallowUnknownFields\<close>.\<close>

definition decode_struct :: "bool \<Rightarrow> 's field list \<Rightarrow> json \<Rightarrow> 's \<Rightarrow> 's option" where
  "decode_struct strict fs j s =
     (case j of JNull \<Rightarrow> Some s | JObj ms \<Rightarrow> decode_members strict fs ms s | _ \<Rightarrow> None)"

section \<open>Values\<close>

definition decode_string :: "json \<Rightarrow> string \<Rightarrow> string option" where
  "decode_string j old = (case j of JNull \<Rightarrow> Some old | JStr s \<Rightarrow> Some s | _ \<Rightarrow> None)"

definition decode_bool :: "json \<Rightarrow> bool \<Rightarrow> bool option" where
  "decode_bool j old = (case j of JNull \<Rightarrow> Some old | JBool b \<Rightarrow> Some b | _ \<Rightarrow> None)"

definition parse_int64 :: "string \<Rightarrow> int option" where
  "parse_int64 s =
     (let (neg, d) = (case s of c # t \<Rightarrow> if c = CHR ''-'' then (True, t) else (False, s) | [] \<Rightarrow> (False, []))
      in if d = [] \<or> \<not> list_all is_digit d then None
         else let n = (if neg then - decimal_val d else decimal_val d)
              in if - (2 ^ 63) \<le> n \<and> n < 2 ^ 63 then Some n else None)"

definition decode_int64 :: "json \<Rightarrow> int \<Rightarrow> int option" where
  "decode_int64 j old = (case j of JNull \<Rightarrow> Some old | JNum s \<Rightarrow> parse_int64 s | _ \<Rightarrow> None)"

text \<open>
  A slice: its elements, and the elements of its storage beyond its length, which a later array
  for the same key uses again. \<open>zero\<close> is the zero value of an element.
\<close>

fun decode_elems :: "(json \<Rightarrow> 'a \<Rightarrow> 'a option) \<Rightarrow> 'a \<Rightarrow> json list \<Rightarrow> 'a list \<Rightarrow> 'a list option" where
  "decode_elems f zero [] backing = Some []"
| "decode_elems f zero (v # vs) backing =
     (case f v (case backing of [] \<Rightarrow> zero | x # _ \<Rightarrow> x) of
        None \<Rightarrow> None
      | Some x \<Rightarrow> map_option ((#) x) (decode_elems f zero vs (drop 1 backing)))"

definition decode_slice ::
  "(json \<Rightarrow> 'a \<Rightarrow> 'a option) \<Rightarrow> 'a \<Rightarrow> json \<Rightarrow> 'a list option \<times> 'a list
     \<Rightarrow> ('a list option \<times> 'a list) option" where
  "decode_slice f zero j sl =
     (let backing = (case fst sl of None \<Rightarrow> [] | Some xs \<Rightarrow> xs) @ snd sl
      in case j of
           JNull \<Rightarrow> Some (None, [])
         | JArr vs \<Rightarrow>
             (case decode_elems f zero vs backing of
                None \<Rightarrow> None
              | Some xs \<Rightarrow> Some (Some xs, if vs = [] then [] else drop (length vs) backing))
         | _ \<Rightarrow> None)"

text \<open>\<open>time.Time.UnmarshalJSON\<close>: RFC 3339 without the leniencies of \<open>time.Parse\<close> (an hour of one
  digit, a comma before the fraction, a zone offset out of range).\<close>

definition strict_rfc3339 :: "string \<Rightarrow> bool" where
  "strict_rfc3339 s \<longleftrightarrow>
     20 \<le> length s \<and> s ! 12 \<noteq> CHR '':'' \<and> s ! 19 \<noteq> CHR '','' \<and>
     (last s = CHR ''Z'' \<or>
      (let z = drop (length s - 5) s
       in digit_val (z ! 0) * 10 + digit_val (z ! 1) \<le> 23 \<and> digit_val (z ! 3) * 10 + digit_val (z ! 4) \<le> 59))"

definition decode_time :: "json \<Rightarrow> time \<Rightarrow> time option" where
  "decode_time j old =
     (case j of JNull \<Rightarrow> Some old
      | JStr s \<Rightarrow> (case parse_rfc3339 s of None \<Rightarrow> None | Some t \<Rightarrow> if strict_rfc3339 s then Some t else None)
      | _ \<Rightarrow> None)"

section \<open>Lemmas\<close>

lemma map_of_find_field: "map_of fs k = Some f \<Longrightarrow> find_field fs k = Some f"
  by (simp add: find_field_def)

lemma decode_values [simp]:
  "decode_string (JStr s) old = Some s" "decode_bool (JBool b) old2 = Some b"
  by (simp_all add: decode_string_def decode_bool_def)

lemma decode_elems_map:
  "(\<And>x. x \<in> set xs \<Longrightarrow> f (enc x) zero = Some x) \<Longrightarrow> decode_elems f zero (map enc xs) [] = Some xs"
  by (induction xs) auto

lemma decode_slice_map:
  "(\<And>x. x \<in> set xs \<Longrightarrow> f (enc x) zero = Some x) \<Longrightarrow>
     decode_slice f zero (JArr (map enc xs)) (None, []) = Some (Some xs, [])"
  by (simp add: decode_slice_def decode_elems_map)

lemma decode_members_append:
  "decode_members strict fs (a @ b) s =
     (case decode_members strict fs a s of None \<Rightarrow> None | Some s1 \<Rightarrow> decode_members strict fs b s1)"
  by (induction strict fs a s rule: decode_members.induct) (auto split: option.splits)

section \<open>Integers round trip\<close>

lemma show_nat_unfold: "show_nat n = (if n < 10 then [hex_char n] else show_nat (n div 10) @ [hex_char (n mod 10)])"
  unfolding show_nat_def by (subst show_base.simps) simp

lemma show_nat_induct [case_names digit more]:
  "(\<And>n. n < 10 \<Longrightarrow> P n) \<Longrightarrow> (\<And>n. 10 \<le> n \<Longrightarrow> P (n div 10) \<Longrightarrow> P n) \<Longrightarrow> P (n :: nat)"
proof (induction n rule: less_induct)
  case (less n)
  then show ?case by (cases "n < 10") auto
qed

lemma show_nat_props:
  "list_all is_digit (show_nat n) \<and> show_nat n \<noteq> [] \<and> decimal_val (show_nat n) = int n
   \<and> (hd (show_nat n) = CHR ''0'' \<longrightarrow> n = 0)"
proof (induction n rule: show_nat_induct)
  case (digit n)
  have "hex_char n = CHR ''0'' \<Longrightarrow> n = 0"
    using digit byte_hex_char [of n] by (cases "n = 0") auto
  with digit digit_hex_char [OF digit] show ?case
    by (subst (1 2 3 4) show_nat_unfold) (auto simp: decimal_val_def)
next
  case (more n)
  have m: "n mod 10 < 10" by simp
  have e: "show_nat n = show_nat (n div 10) @ [hex_char (n mod 10)]"
    using more by (subst show_nat_unfold) simp
  have "int (10 * (n div 10) + n mod 10) = int n" by simp
  then have i: "10 * int (n div 10) + int (n mod 10) = int n" by (simp only: of_nat_add of_nat_mult of_nat_numeral)
  have "decimal_val (show_nat n) = 10 * int (n div 10) + int (n mod 10)"
    using more digit_hex_char [OF m] by (simp add: e decimal_val_def)
  moreover have "hd (show_nat n) = hd (show_nat (n div 10))"
    using more by (simp add: e)
  moreover have "n div 10 \<noteq> 0" using more by auto
  ultimately show ?case
    using more digit_hex_char [OF m] i by (auto simp: e)
qed

lemmas show_nat_digits = show_nat_props [THEN conjunct1]
lemmas show_nat_nonempty [simp] = show_nat_props [THEN conjunct2, THEN conjunct1]
lemmas decimal_show_nat = show_nat_props [THEN conjunct2, THEN conjunct2, THEN conjunct1]
lemmas show_nat_hd0 = show_nat_props [THEN conjunct2, THEN conjunct2, THEN conjunct2]

lemma show_nat_hd: "is_digit (hd (show_nat n))" "hd (show_nat n) \<noteq> CHR ''-''"
proof -
  show "is_digit (hd (show_nat n))"
    using show_nat_digits [of n] by (cases "show_nat n") auto
  then show "hd (show_nat n) \<noteq> CHR ''-''"
    by (auto simp: is_digit_def)
qed

lemma parse_show_int: "- (2 ^ 63) \<le> i \<Longrightarrow> i < 2 ^ 63 \<Longrightarrow> parse_int64 (show_int i) = Some i"
proof (cases "i < 0")
  case True
  assume "- (2 ^ 63) \<le> i" "i < 2 ^ 63"
  with True show ?thesis
    by (simp add: parse_int64_def show_int_def show_nat_digits decimal_show_nat)
next
  case False
  assume b: "- (2 ^ 63) \<le> i" "i < 2 ^ 63"
  obtain c t where ct: "show_nat (nat i) = c # t" by (cases "show_nat (nat i)") auto
  then have "c \<noteq> CHR ''-''" using show_nat_hd(2) [of "nat i"] by simp
  with False b ct show ?thesis
    using show_nat_digits [of "nat i"] decimal_show_nat [of "nat i"]
    by (simp add: parse_int64_def show_int_def)
qed

lemma is_int_lit_show_nat: "ds = show_nat n \<Longrightarrow> list_all is_digit ds \<and> (hd ds = CHR ''0'' \<longrightarrow> tl ds = [])"
  using show_nat_digits [of n] show_nat_hd0 [of n]
  by (auto simp: show_nat_unfold [of 0])

lemma is_int_lit_show_int: "is_int_lit (show_int i)"
proof (cases "i < 0")
  case True
  then show ?thesis
    using is_int_lit_show_nat [OF refl, of "nat (- i)"] by (simp add: is_int_lit_def show_int_def)
next
  case False
  obtain c t where ct: "show_nat (nat i) = c # t" by (cases "show_nat (nat i)") auto
  then have "c \<noteq> CHR ''-''" using show_nat_hd(2) [of "nat i"] by simp
  with False ct show ?thesis
    using is_int_lit_show_nat [OF refl, of "nat i"] by (simp add: is_int_lit_def show_int_def)
qed

definition int64 :: "int \<Rightarrow> bool" where
  "int64 i \<longleftrightarrow> - (2 ^ 63) \<le> i \<and> i < 2 ^ 63"

lemma decode_encode_int: "int64 i \<Longrightarrow> decode_int64 (JNum (show_int i)) old = Some i"
  by (simp add: decode_int64_def parse_show_int int64_def)

section \<open>What is decoded has the type of its field\<close>

lemma find_field_mem: "find_field fs k = Some f \<Longrightarrow> f \<in> snd ` set fs"
  by (auto simp: find_field_def split: option.splits dest!: map_of_SomeD) force+

lemma decode_struct_keeps:
  assumes fields: "\<And>f j s s'. f \<in> snd ` set fs \<Longrightarrow> f j s = Some s' \<Longrightarrow> P s \<Longrightarrow> P s'"
    and run: "decode_struct strict fs j s = Some s'" and s: "P s"
  shows "P s'"
proof -
  have "decode_members strict fs ms s = Some s' \<Longrightarrow> P s \<Longrightarrow> P s'" for ms s
  proof (induction ms arbitrary: s)
    case (Cons m ms)
    obtain k v where m: "m = (k, v)" by (cases m)
    show ?case
    proof (cases "find_field fs k")
      case None
      then show ?thesis using Cons m by (auto split: if_splits)
    next
      case (Some f)
      then obtain s1 where "f v s = Some s1" "decode_members strict fs ms s1 = Some s'"
        using Cons.prems(1) m by (auto split: option.splits)
      then show ?thesis using Cons.IH fields [OF find_field_mem [OF Some]] Cons.prems(2) by blast
    qed
  qed simp
  then show ?thesis using run s by (auto simp: decode_struct_def split: json.splits)
qed

lemma decode_elems_all:
  assumes step: "\<And>j s s'. f j s = Some s' \<Longrightarrow> P s \<Longrightarrow> P s'" and zero: "P zero"
  shows "decode_elems f zero vs backing = Some xs \<Longrightarrow> list_all P backing \<Longrightarrow> list_all P xs"
proof (induction vs arbitrary: backing xs)
  case (Cons v vs)
  then obtain x ys where x: "f v (case backing of [] \<Rightarrow> zero | y # _ \<Rightarrow> y) = Some x"
    and ys: "decode_elems f zero vs (drop 1 backing) = Some ys" "xs = x # ys"
    by (auto split: option.splits)
  have "P (case backing of [] \<Rightarrow> zero | y # _ \<Rightarrow> y)" using Cons.prems(2) zero by (cases backing) auto
  then have "P x" by (rule step [OF x])
  moreover have "list_all P (drop 1 backing)" using Cons.prems(2) by (cases backing) auto
  ultimately show ?case using Cons.IH [OF ys(1)] ys(2) by simp
qed simp

lemma parse_int64_range: "parse_int64 s = Some n \<Longrightarrow> int64 n"
  by (auto simp: parse_int64_def int64_def Let_def split: if_splits prod.splits)

lemma decode_int64_range: "decode_int64 j old = Some n \<Longrightarrow> int64 old \<Longrightarrow> int64 n"
  by (auto simp: decode_int64_def split: json.splits dest: parse_int64_range)

end
