(* ===== verification/Ledger.thy ===== *)
theory Ledger imports Appid GoDecode begin

text \<open>
  \<open>internal/ledger\<close>: the ledger file of an appId. The data types, the canonical serialisation,
  the strict parser with its checks, and the first-come-first-served decision.

  A nil slice is \<open>None\<close>, a nil \<open>*Timestamp\<close> is \<open>None\<close>.
\<close>

section \<open>Data\<close>

type_synonym timestamp = time

definition OriginGitHub :: string where "OriginGitHub = ''github''"
definition OriginGitLab :: string where "OriginGitLab = ''gitlab''"
definition OriginPartner :: string where "OriginPartner = ''partner''"
definition OriginOwnCloud :: string where "OriginOwnCloud = ''owncloud''"

definition StatusActive :: string where "StatusActive = ''active''"
definition StatusRevoked :: string where "StatusRevoked = ''revoked''"

record owner =
  OwnerOrigin :: string
  Repo :: string

record requester =
  RequesterOrigin :: string
  Login :: string
  UserID :: int

record certificate =
  Serial :: string
  CertFingerprint :: string
  NotBefore :: timestamp
  NotAfter :: timestamp
  Requester :: requester
  IssueRef :: string
  Status :: string
  RevokedFrom :: "timestamp option"
  Reason :: string
  Actor :: string

record ledger =
  AppID :: string
  Owner :: owner
  ClaimedAt :: timestamp
  Reserved :: bool
  Certificates :: "certificate list option"

definition zero_owner :: owner where
  "zero_owner = \<lparr>OwnerOrigin = [], Repo = []\<rparr>"

definition zero_requester :: requester where
  "zero_requester = \<lparr>RequesterOrigin = [], Login = [], UserID = 0\<rparr>"

definition zero_certificate :: certificate where
  "zero_certificate =
     \<lparr>Serial = [], CertFingerprint = [], NotBefore = zero_time, NotAfter = zero_time,
      Requester = zero_requester, IssueRef = [], Status = [], RevokedFrom = None, Reason = [], Actor = []\<rparr>"

definition zero_ledger :: ledger where
  "zero_ledger =
     \<lparr>AppID = [], Owner = zero_owner, ClaimedAt = zero_time, Reserved = False, Certificates = None\<rparr>"

text \<open>The elements a loop over the slice visits.\<close>

definition certs :: "ledger \<Rightarrow> certificate list" where
  "certs l = (case Certificates l of None \<Rightarrow> [] | Some cs \<Rightarrow> cs)"

section \<open>Encoding\<close>

definition encode_timestamp :: "timestamp \<Rightarrow> json" where
  "encode_timestamp t = JStr (format_utc t)"

definition encode_owner :: "owner \<Rightarrow> json" where
  "encode_owner ow = JObj [(''origin'', JStr (OwnerOrigin ow)), (''repo'', JStr (Repo ow))]"

definition encode_requester :: "requester \<Rightarrow> json" where
  "encode_requester r =
     JObj [(''origin'', JStr (RequesterOrigin r)), (''login'', JStr (Login r)), (''userId'', JNum (show_int (UserID r)))]"

text \<open>A member with \<open>omitempty\<close> is left out when its value is empty.\<close>

definition omit_empty :: "string \<Rightarrow> string \<Rightarrow> (string \<times> json) list" where
  "omit_empty k s = (if s = [] then [] else [(k, JStr s)])"

definition encode_certificate :: "certificate \<Rightarrow> json" where
  "encode_certificate c =
     JObj ([(''serial'', JStr (Serial c)), (''fingerprint'', JStr (CertFingerprint c)),
            (''notBefore'', encode_timestamp (NotBefore c)), (''notAfter'', encode_timestamp (NotAfter c)),
            (''requester'', encode_requester (Requester c)), (''issueRef'', JStr (IssueRef c)),
            (''status'', JStr (Status c))]
           @ (case RevokedFrom c of None \<Rightarrow> [] | Some t \<Rightarrow> [(''revokedFrom'', encode_timestamp t)])
           @ omit_empty ''reason'' (Reason c) @ omit_empty ''actor'' (Actor c))"

definition encode_ledger :: "ledger \<Rightarrow> json" where
  "encode_ledger l =
     JObj ([(''appId'', JStr (AppID l)), (''owner'', encode_owner (Owner l)),
            (''claimedAt'', encode_timestamp (ClaimedAt l))]
           @ (if Reserved l then [(''reserved'', JBool True)] else [])
           @ [(''certificates'', case Certificates l of None \<Rightarrow> JNull | Some cs \<Rightarrow> JArr (map encode_certificate cs))])"

text \<open>The encoder has no error on these types; \<open>Inr\<close> keeps the shape of the Go result.\<close>

definition Marshal :: "ledger \<Rightarrow> string result" where
  "Marshal l = Inr (print_json 0 (encode_ledger l) @ [CHR 0x0A])"

section \<open>Decoding\<close>

definition decode_timestamp :: "json \<Rightarrow> timestamp option" where
  "decode_timestamp j = (case j of JStr s \<Rightarrow> parse_rfc3339 s | JNull \<Rightarrow> parse_rfc3339 [] | _ \<Rightarrow> None)"

definition decode_timestamp_ptr :: "json \<Rightarrow> timestamp option option" where
  "decode_timestamp_ptr j = (case j of JNull \<Rightarrow> Some None | _ \<Rightarrow> map_option Some (decode_timestamp j))"

definition owner_fields :: "owner field list" where
  "owner_fields =
     [(''origin'', \<lambda>j s. map_option (\<lambda>x. s\<lparr>OwnerOrigin := x\<rparr>) (decode_string j (OwnerOrigin s))),
      (''repo'', \<lambda>j s. map_option (\<lambda>x. s\<lparr>Repo := x\<rparr>) (decode_string j (Repo s)))]"

definition requester_fields :: "requester field list" where
  "requester_fields =
     [(''origin'', \<lambda>j s. map_option (\<lambda>x. s\<lparr>RequesterOrigin := x\<rparr>) (decode_string j (RequesterOrigin s))),
      (''login'', \<lambda>j s. map_option (\<lambda>x. s\<lparr>Login := x\<rparr>) (decode_string j (Login s))),
      (''userId'', \<lambda>j s. map_option (\<lambda>x. s\<lparr>UserID := x\<rparr>) (decode_int64 j (UserID s)))]"

definition certificate_fields :: "certificate field list" where
  "certificate_fields =
     [(''serial'', \<lambda>j s. map_option (\<lambda>x. s\<lparr>Serial := x\<rparr>) (decode_string j (Serial s))),
      (''fingerprint'', \<lambda>j s. map_option (\<lambda>x. s\<lparr>CertFingerprint := x\<rparr>) (decode_string j (CertFingerprint s))),
      (''notBefore'', \<lambda>j s. map_option (\<lambda>x. s\<lparr>NotBefore := x\<rparr>) (decode_timestamp j)),
      (''notAfter'', \<lambda>j s. map_option (\<lambda>x. s\<lparr>NotAfter := x\<rparr>) (decode_timestamp j)),
      (''requester'', \<lambda>j s. map_option (\<lambda>x. s\<lparr>Requester := x\<rparr>) (decode_struct True requester_fields j (Requester s))),
      (''issueRef'', \<lambda>j s. map_option (\<lambda>x. s\<lparr>IssueRef := x\<rparr>) (decode_string j (IssueRef s))),
      (''status'', \<lambda>j s. map_option (\<lambda>x. s\<lparr>Status := x\<rparr>) (decode_string j (Status s))),
      (''revokedFrom'', \<lambda>j s. map_option (\<lambda>x. s\<lparr>RevokedFrom := x\<rparr>) (decode_timestamp_ptr j)),
      (''reason'', \<lambda>j s. map_option (\<lambda>x. s\<lparr>Reason := x\<rparr>) (decode_string j (Reason s))),
      (''actor'', \<lambda>j s. map_option (\<lambda>x. s\<lparr>Actor := x\<rparr>) (decode_string j (Actor s)))]"

definition decode_certificate :: "json \<Rightarrow> certificate \<Rightarrow> certificate option" where
  "decode_certificate = decode_struct True certificate_fields"

text \<open>The ledger with the storage of its slice beyond the slice's length.\<close>

type_synonym ledger_state = "ledger \<times> certificate list"

definition ledger_fields :: "ledger_state field list" where
  "ledger_fields =
     [(''appId'', \<lambda>j (l, sp). map_option (\<lambda>x. (l\<lparr>AppID := x\<rparr>, sp)) (decode_string j (AppID l))),
      (''owner'', \<lambda>j (l, sp). map_option (\<lambda>x. (l\<lparr>Owner := x\<rparr>, sp)) (decode_struct True owner_fields j (Owner l))),
      (''claimedAt'', \<lambda>j (l, sp). map_option (\<lambda>x. (l\<lparr>ClaimedAt := x\<rparr>, sp)) (decode_timestamp j)),
      (''reserved'', \<lambda>j (l, sp). map_option (\<lambda>x. (l\<lparr>Reserved := x\<rparr>, sp)) (decode_bool j (Reserved l))),
      (''certificates'', \<lambda>j (l, sp).
         map_option (\<lambda>(cs, sp'). (l\<lparr>Certificates := cs\<rparr>, sp'))
           (decode_slice decode_certificate zero_certificate j (Certificates l, sp)))]"

definition decode_ledger :: "json \<Rightarrow> ledger option" where
  "decode_ledger j = map_option fst (decode_struct True ledger_fields j (zero_ledger, []))"

text \<open>The loop over the certificates: the first error.\<close>

fun check_certs :: "certificate list \<Rightarrow> go_error option" where
  "check_certs [] = None"
| "check_certs (c # cs) =
     (if Status c = StatusActive then check_certs cs
      else if Status c = StatusRevoked then
        (if RevokedFrom c = None
         then Some (Errorf (''ledger: cert '' @ go_quote (Serial c) @ '' is revoked but has no revokedFrom''))
         else check_certs cs)
      else Some (Errorf (''ledger: cert '' @ go_quote (Serial c) @ '' has unknown status '' @ go_quote (Status c))))"

definition Parse :: "string \<Rightarrow> ledger result" where
  "Parse data =
     (case Option.bind (parse_first data) decode_ledger of
        None \<Rightarrow> Inl (Wrap ''ledger: decode: '' (Errorf ''json'') [])
      | Some l \<Rightarrow>
          (case ValidateStrict (AppID l) of
             Inl e \<Rightarrow> Inl (Wrap (''ledger: appId '' @ go_quote (AppID l) @ '': '') e [])
           | Inr a \<Rightarrow> (case check_certs (certs l) of Some e \<Rightarrow> Inl e | None \<Rightarrow> Inr l)))"

definition Load :: "(string \<Rightarrow> string result) \<Rightarrow> string \<Rightarrow> ledger result" where
  "Load read_file path = (case read_file path of Inl e \<Rightarrow> Inl e | Inr data \<Rightarrow> Parse data)"

definition FileName :: "string \<Rightarrow> string" where
  "FileName appID = appID @ ''.json''"

section \<open>The ownership decision\<close>

datatype decision =
  DecisionNewClaim | DecisionAllowed | DecisionRejectedMismatch | DecisionRejectedReserved

definition Decide :: "ledger option \<Rightarrow> string \<Rightarrow> decision" where
  "Decide existing targetRepo =
     (case existing of
        None \<Rightarrow> DecisionNewClaim
      | Some l \<Rightarrow>
          if Reserved l then DecisionRejectedReserved
          else if Repo (Owner l) = targetRepo then DecisionAllowed
          else DecisionRejectedMismatch)"

section \<open>What the parser guarantees\<close>

definition cert_ok :: "certificate \<Rightarrow> bool" where
  "cert_ok c \<longleftrightarrow> Status c = StatusActive \<or> Status c = StatusRevoked \<and> RevokedFrom c \<noteq> None"

definition ledger_ok :: "ledger \<Rightarrow> bool" where
  "ledger_ok l \<longleftrightarrow> Valid (AppID l) \<and> list_all cert_ok (certs l)"

lemma status_distinct [simp]: "StatusActive \<noteq> StatusRevoked" "StatusRevoked \<noteq> StatusActive"
  by (simp_all add: StatusActive_def StatusRevoked_def)

lemma check_certs_None: "check_certs cs = None \<longleftrightarrow> list_all cert_ok cs"
  by (induction cs) (auto simp: cert_ok_def)

lemma Parse_Inr:
  "Parse data = Inr l \<longleftrightarrow> (\<exists>j. parse_first data = Some j \<and> decode_ledger j = Some l) \<and> ledger_ok l"
  unfolding Parse_def ledger_ok_def check_certs_None [symmetric]
  by (auto split: option.splits sum.splits bind_splits simp: ValidateStrict_def)

lemma Parse_ok: "Parse data = Inr l \<Longrightarrow> ledger_ok l"
  by (simp add: Parse_Inr)

section \<open>Decoding what was encoded\<close>

text \<open>A time the layout of the file can hold: whole seconds, a year of four digits.\<close>

definition time_canonical :: "time \<Rightarrow> bool" where
  "time_canonical t \<longleftrightarrow> time_unix t * nanosecond_per_second = t \<and> 0 \<le> year_of t \<and> year_of t \<le> 9999"

definition owner_canonical :: "owner \<Rightarrow> bool" where
  "owner_canonical ow \<longleftrightarrow> utf8_valid (OwnerOrigin ow) \<and> utf8_valid (Repo ow)"

definition requester_canonical :: "requester \<Rightarrow> bool" where
  "requester_canonical r \<longleftrightarrow> utf8_valid (RequesterOrigin r) \<and> utf8_valid (Login r) \<and> int64 (UserID r)"

definition certificate_canonical :: "certificate \<Rightarrow> bool" where
  "certificate_canonical c \<longleftrightarrow>
     list_all utf8_valid [Serial c, CertFingerprint c, IssueRef c, Status c, Reason c, Actor c] \<and>
     time_canonical (NotBefore c) \<and> time_canonical (NotAfter c) \<and>
     (case RevokedFrom c of None \<Rightarrow> True | Some t \<Rightarrow> time_canonical t) \<and> requester_canonical (Requester c)"

definition ledger_canonical :: "ledger \<Rightarrow> bool" where
  "ledger_canonical l \<longleftrightarrow>
     utf8_valid (AppID l) \<and> owner_canonical (Owner l) \<and> time_canonical (ClaimedAt l) \<and>
     list_all certificate_canonical (certs l)"

lemma decode_encode_timestamp: "time_canonical t \<Longrightarrow> decode_timestamp (encode_timestamp t) = Some t"
  by (simp add: time_canonical_def decode_timestamp_def encode_timestamp_def parse_format_utc)

lemma decode_encode_timestamp_ptr: "time_canonical t \<Longrightarrow> decode_timestamp_ptr (encode_timestamp t) = Some (Some t)"
  using decode_encode_timestamp [of t] by (simp add: decode_timestamp_ptr_def encode_timestamp_def)

lemma owner_lookups [simp]:
  "find_field owner_fields ''origin'' = Some (\<lambda>j s. map_option (\<lambda>x. s\<lparr>OwnerOrigin := x\<rparr>) (decode_string j (OwnerOrigin s)))"
  "find_field owner_fields ''repo'' = Some (\<lambda>j s. map_option (\<lambda>x. s\<lparr>Repo := x\<rparr>) (decode_string j (Repo s)))"
  by (simp_all add: owner_fields_def find_field_def)

lemma decode_encode_owner: "decode_struct True owner_fields (encode_owner ow) old = Some ow"
  by (simp add: decode_struct_def encode_owner_def)

lemma requester_lookups [simp]:
  "find_field requester_fields ''origin'' = Some (\<lambda>j s. map_option (\<lambda>x. s\<lparr>RequesterOrigin := x\<rparr>) (decode_string j (RequesterOrigin s)))"
  "find_field requester_fields ''login'' = Some (\<lambda>j s. map_option (\<lambda>x. s\<lparr>Login := x\<rparr>) (decode_string j (Login s)))"
  "find_field requester_fields ''userId'' = Some (\<lambda>j s. map_option (\<lambda>x. s\<lparr>UserID := x\<rparr>) (decode_int64 j (UserID s)))"
  by (simp_all add: requester_fields_def find_field_def)

lemma decode_encode_requester:
  "requester_canonical r \<Longrightarrow> decode_struct True requester_fields (encode_requester r) old = Some r"
  by (simp add: decode_struct_def encode_requester_def requester_canonical_def decode_encode_int)

lemma certificate_lookups [simp]:
  "find_field certificate_fields ''serial'' = Some (\<lambda>j s. map_option (\<lambda>x. s\<lparr>Serial := x\<rparr>) (decode_string j (Serial s)))"
  "find_field certificate_fields ''fingerprint'' = Some (\<lambda>j s. map_option (\<lambda>x. s\<lparr>CertFingerprint := x\<rparr>) (decode_string j (CertFingerprint s)))"
  "find_field certificate_fields ''notBefore'' = Some (\<lambda>j s. map_option (\<lambda>x. s\<lparr>NotBefore := x\<rparr>) (decode_timestamp j))"
  "find_field certificate_fields ''notAfter'' = Some (\<lambda>j s. map_option (\<lambda>x. s\<lparr>NotAfter := x\<rparr>) (decode_timestamp j))"
  "find_field certificate_fields ''requester'' = Some (\<lambda>j s. map_option (\<lambda>x. s\<lparr>Requester := x\<rparr>) (decode_struct True requester_fields j (Requester s)))"
  "find_field certificate_fields ''issueRef'' = Some (\<lambda>j s. map_option (\<lambda>x. s\<lparr>IssueRef := x\<rparr>) (decode_string j (IssueRef s)))"
  "find_field certificate_fields ''status'' = Some (\<lambda>j s. map_option (\<lambda>x. s\<lparr>Status := x\<rparr>) (decode_string j (Status s)))"
  "find_field certificate_fields ''revokedFrom'' = Some (\<lambda>j s. map_option (\<lambda>x. s\<lparr>RevokedFrom := x\<rparr>) (decode_timestamp_ptr j))"
  "find_field certificate_fields ''reason'' = Some (\<lambda>j s. map_option (\<lambda>x. s\<lparr>Reason := x\<rparr>) (decode_string j (Reason s)))"
  "find_field certificate_fields ''actor'' = Some (\<lambda>j s. map_option (\<lambda>x. s\<lparr>Actor := x\<rparr>) (decode_string j (Actor s)))"
  by (simp_all add: certificate_fields_def find_field_def)

lemma decode_omit_reason:
  "Reason s = [] \<Longrightarrow> decode_members True certificate_fields (omit_empty ''reason'' r) s = Some (s\<lparr>Reason := r\<rparr>)"
  by (cases s) (auto simp: omit_empty_def)

lemma decode_omit_actor:
  "Actor s = [] \<Longrightarrow> decode_members True certificate_fields (omit_empty ''actor'' a) s = Some (s\<lparr>Actor := a\<rparr>)"
  by (cases s) (auto simp: omit_empty_def)

lemma decode_encode_certificate:
  assumes "certificate_canonical c"
  shows "decode_certificate (encode_certificate c) zero_certificate = Some c"
proof -
  have t: "time_canonical (NotBefore c)" "time_canonical (NotAfter c)" "requester_canonical (Requester c)"
    "RevokedFrom c = Some t \<Longrightarrow> time_canonical t" for t
    using assms by (auto simp: certificate_canonical_def)
  show ?thesis
    by (cases "RevokedFrom c")
       (simp_all add: decode_certificate_def decode_struct_def [of True certificate_fields] encode_certificate_def decode_members_append
          decode_encode_timestamp decode_encode_timestamp_ptr decode_encode_requester t zero_certificate_def
          decode_omit_reason decode_omit_actor)
qed

lemma ledger_lookups [simp]:
  "find_field ledger_fields ''appId'' = Some (\<lambda>j (l, sp). map_option (\<lambda>x. (l\<lparr>AppID := x\<rparr>, sp)) (decode_string j (AppID l)))"
  "find_field ledger_fields ''owner'' = Some (\<lambda>j (l, sp). map_option (\<lambda>x. (l\<lparr>Owner := x\<rparr>, sp)) (decode_struct True owner_fields j (Owner l)))"
  "find_field ledger_fields ''claimedAt'' = Some (\<lambda>j (l, sp). map_option (\<lambda>x. (l\<lparr>ClaimedAt := x\<rparr>, sp)) (decode_timestamp j))"
  "find_field ledger_fields ''reserved'' = Some (\<lambda>j (l, sp). map_option (\<lambda>x. (l\<lparr>Reserved := x\<rparr>, sp)) (decode_bool j (Reserved l)))"
  "find_field ledger_fields ''certificates'' = Some (\<lambda>j (l, sp).
         map_option (\<lambda>(cs, sp'). (l\<lparr>Certificates := cs\<rparr>, sp'))
           (decode_slice decode_certificate zero_certificate j (Certificates l, sp)))"
  by (simp_all add: ledger_fields_def find_field_def)

lemma decode_encode_ledger:
  assumes "ledger_canonical l"
  shows "decode_ledger (encode_ledger l) = Some l"
proof -
  have t: "time_canonical (ClaimedAt l)" using assms by (simp add: ledger_canonical_def)
  have "decode_slice decode_certificate zero_certificate
      (case Certificates l of None \<Rightarrow> JNull | Some cs \<Rightarrow> JArr (map encode_certificate cs)) (None, []) =
      Some (Certificates l, [])"
    using assms
    by (cases "Certificates l")
       (simp_all add: decode_slice_map decode_encode_certificate ledger_canonical_def certs_def list_all_iff,
        simp add: decode_slice_def)
  then show ?thesis
    using t by (cases "Reserved l")
      (simp_all add: decode_ledger_def decode_struct_def [of True ledger_fields] encode_ledger_def zero_ledger_def decode_encode_owner
        decode_encode_timestamp)
qed

section \<open>Printing what can be read back\<close>

lemma digits_ascii: "list_all is_digit s \<Longrightarrow> list_all is_ascii s"
  by (induction s) (auto simp: is_digit_def is_ascii_def)

lemma append_int_ascii: "list_all is_ascii (append_int n i)"
  unfolding append_int_def pad_nat_def
  by (auto simp: digits_ascii show_nat_digits list_all_iff [of _ "replicate _ _"] is_ascii_def)

lemma format_utc_utf8: "utf8_valid (format_utc t)"
proof -
  have "list_all is_ascii (format_utc t)"
    by (simp add: format_utc_def Let_def append_int_ascii is_ascii_def split: prod.split)
  then show ?thesis by (rule utf8_valid_ascii)
qed

lemma utf8_names [simp]:
  "utf8_valid ''origin''" "utf8_valid ''repo''" "utf8_valid ''login''" "utf8_valid ''userId''"
  "utf8_valid ''serial''" "utf8_valid ''fingerprint''" "utf8_valid ''notBefore''" "utf8_valid ''notAfter''"
  "utf8_valid ''requester''" "utf8_valid ''issueRef''" "utf8_valid ''status''" "utf8_valid ''revokedFrom''"
  "utf8_valid ''reason''" "utf8_valid ''actor''" "utf8_valid ''appId''" "utf8_valid ''owner''"
  "utf8_valid ''claimedAt''" "utf8_valid ''reserved''" "utf8_valid ''certificates''"
  by (simp_all add: is_ascii_def)

lemma json_ok_certificate: "certificate_canonical c \<Longrightarrow> json_ok (encode_certificate c)"
  by (auto simp: encode_certificate_def certificate_canonical_def encode_timestamp_def format_utc_utf8
      encode_requester_def requester_canonical_def is_int_lit_show_int omit_empty_def split: option.splits)

lemma json_ok_ledger: "ledger_canonical l \<Longrightarrow> json_ok (encode_ledger l)"
  by (auto simp: encode_ledger_def ledger_canonical_def encode_timestamp_def format_utc_utf8
      encode_owner_def owner_canonical_def certs_def list_all_iff json_ok_certificate split: option.splits)

text \<open>A ledger the program may write: it reads back as it was.\<close>

lemma Parse_Marshal_canonical:
  assumes "ledger_canonical l" "ledger_ok l" "Marshal l = Inr data"
  shows "Parse data = Inr l"
proof -
  have "parse_first data = Some (encode_ledger l)"
    using assms(3) parse_print_json [OF json_ok_ledger [OF assms(1)], of "[CHR 0x0A]" 0]
    by (simp add: Marshal_def num_stop_def is_digit_def)
  with assms show ?thesis
    by (simp add: Parse_Inr decode_encode_ledger)
qed

lemma Marshal_inject:
  "ledger_canonical l \<Longrightarrow> ledger_canonical m \<Longrightarrow> Marshal l = Marshal m \<Longrightarrow> l = m"
  by (metis (no_types, lifting) Marshal_def decode_encode_ledger json_ok_ledger num_stop_def
      option.inject parse_print_json sum.inject(2) append_Nil2 append_same_eq)


end
