(* ===== verification/StoredLedger.thy ===== *)
theory StoredLedger imports Ledger begin

text \<open>
  What a ledger file keeps of a ledger: every time to the second, every text with its invalid bytes
  replaced. Any ledger whose times have years of four digits reads back as what is kept of it.
\<close>

section \<open>Times and texts\<close>

definition whole :: "time \<Rightarrow> time" where
  "whole t = time_unix t * nanosecond_per_second"

definition year_ok :: "time \<Rightarrow> bool" where
  "year_ok t \<longleftrightarrow> 0 \<le> year_of t \<and> year_of t \<le> 9999"

lemma time_unix_whole [simp]: "time_unix (whole t) = time_unix t"
  by (simp add: whole_def time_unix_def nanosecond_per_second_def)

lemma year_whole [simp]: "year_of (whole t) = year_of t"
  by (simp add: year_of_def)

lemma format_whole [simp]: "format_utc (whole t) = format_utc t"
  by (simp add: format_utc_def)

lemma time_canonical_whole: "time_canonical (whole t) \<longleftrightarrow> year_ok t"
  by (simp add: time_canonical_def year_ok_def) (simp add: whole_def)

lemma canonical_time: "time_canonical t \<Longrightarrow> year_ok t \<and> whole t = t"
  by (simp add: time_canonical_def year_ok_def whole_def)

lemma utf8_valid_rune: "utf8_decode s = Some (u, n) \<Longrightarrow> utf8_valid (take n s @ x) = utf8_valid x"
  using utf8_decode_local [of s u n x] utf8_decode_size [of s u n]
  by (auto simp: utf8_valid.simps [of "take n s @ x"])

lemma utf8_replacement [simp]: "utf8_valid (replacement @ x) = utf8_valid x"
proof -
  have "utf8_decode (replacement @ x) = Some (65533, 3)"
    by (simp add: replacement_def utf8_decode.simps Let_def is_cont_def)
  then show ?thesis
    by (simp add: utf8_valid.simps [of "replacement @ x"]) (simp add: replacement_def)
qed

lemma utf8_to_valid [simp]: "utf8_valid (to_valid s)"
proof (induction s rule: to_valid.induct)
  case (1 s)
  show ?case
  proof (cases s)
    case (Cons c t)
    show ?thesis
    proof (cases "utf8_decode s")
      case None
      then show ?thesis using 1(1) Cons by (subst to_valid.simps) auto
    next
      case (Some un)
      then obtain u n where dec: "utf8_decode s = Some (u, n)" by (cases un) auto
      then show ?thesis using 1(2) Cons utf8_valid_rune [OF dec] by (subst to_valid.simps) auto
    qed
  qed simp
qed

section \<open>The ledger that is kept\<close>

definition stored_owner :: "owner \<Rightarrow> owner" where
  "stored_owner ow = \<lparr>OwnerOrigin = to_valid (OwnerOrigin ow), Repo = to_valid (Repo ow)\<rparr>"

definition stored_requester :: "requester \<Rightarrow> requester" where
  "stored_requester r =
     \<lparr>RequesterOrigin = to_valid (RequesterOrigin r), Login = to_valid (Login r), UserID = UserID r\<rparr>"

definition stored_cert :: "certificate \<Rightarrow> certificate" where
  "stored_cert c =
     \<lparr>Serial = to_valid (Serial c), CertFingerprint = to_valid (CertFingerprint c), NotBefore = whole (NotBefore c),
      NotAfter = whole (NotAfter c), Requester = stored_requester (Requester c), IssueRef = to_valid (IssueRef c),
      Status = to_valid (Status c), RevokedFrom = map_option whole (RevokedFrom c), Reason = to_valid (Reason c),
      Actor = to_valid (Actor c)\<rparr>"

definition stored :: "ledger \<Rightarrow> ledger" where
  "stored l =
     \<lparr>AppID = to_valid (AppID l), Owner = stored_owner (Owner l), ClaimedAt = whole (ClaimedAt l), Reserved = Reserved l,
      Certificates = map_option (map stored_cert) (Certificates l)\<rparr>"

text \<open>Years of four digits, and a user id of 64 bits as its Go type has.\<close>

definition cert_storable :: "certificate \<Rightarrow> bool" where
  "cert_storable c \<longleftrightarrow> year_ok (NotBefore c) \<and> year_ok (NotAfter c) \<and>
     (case RevokedFrom c of None \<Rightarrow> True | Some t \<Rightarrow> year_ok t) \<and> int64 (UserID (Requester c))"

definition cert_dates_fit :: "certificate \<Rightarrow> bool" where
  "cert_dates_fit c \<longleftrightarrow> year_ok (NotBefore c) \<and> year_ok (NotAfter c) \<and>
     (case RevokedFrom c of None \<Rightarrow> True | Some t \<Rightarrow> year_ok t)"

definition dates_fit :: "ledger \<Rightarrow> bool" where
  "dates_fit l \<longleftrightarrow> year_ok (ClaimedAt l) \<and> list_all cert_dates_fit (certs l)"

definition ids_fit :: "ledger \<Rightarrow> bool" where
  "ids_fit l \<longleftrightarrow> list_all (\<lambda>c. int64 (UserID (Requester c))) (certs l)"

definition storable :: "ledger \<Rightarrow> bool" where
  "storable l \<longleftrightarrow> year_ok (ClaimedAt l) \<and> list_all cert_storable (certs l)"

lemma storable_iff: "storable l \<longleftrightarrow> dates_fit l \<and> ids_fit l"
  by (auto simp: storable_def dates_fit_def ids_fit_def cert_storable_def cert_dates_fit_def list_all_iff)

lemma certs_stored [simp]: "certs (stored l) = map stored_cert (certs l)"
  by (simp add: certs_def stored_def split: option.split)

lemma canonical_stored_cert: "cert_storable c \<Longrightarrow> certificate_canonical (stored_cert c)"
  by (auto simp: cert_storable_def certificate_canonical_def stored_cert_def stored_requester_def requester_canonical_def
      time_canonical_whole split: option.splits)

lemma canonical_stored: "storable l \<Longrightarrow> ledger_canonical (stored l)"
  by (simp add: storable_def ledger_canonical_def canonical_stored_cert list_all_iff)
     (simp add: stored_def owner_canonical_def stored_owner_def time_canonical_whole)

lemma stored_cert_id: "certificate_canonical c \<Longrightarrow> stored_cert c = c \<and> cert_storable c"
  by (cases c)
     (auto simp: certificate_canonical_def stored_cert_def to_valid_id canonical_time requester_canonical_def
        stored_requester_def cert_storable_def split: option.splits)

lemma stored_id: "ledger_canonical l \<Longrightarrow> stored l = l \<and> storable l"
proof -
  assume l: "ledger_canonical l"
  have "map stored_cert (certs l) = certs l" "list_all cert_storable (certs l)"
    using l stored_cert_id by (auto simp: ledger_canonical_def list_all_iff intro: map_idI)
  then show ?thesis
    using l by (cases l; cases "Certificates l")
      (auto simp: stored_def stored_owner_def ledger_canonical_def owner_canonical_def to_valid_id canonical_time storable_def certs_def)
qed

section \<open>The file\<close>

lemma to_valid_names [simp]:
  "list_all is_ascii s \<Longrightarrow> to_valid s = s"
  by (rule to_valid_id [OF utf8_valid_ascii])

lemma numerals_encode: "numerals_ok (encode_ledger l)"
  by (auto simp: encode_ledger_def encode_timestamp_def encode_owner_def encode_certificate_def encode_requester_def
      omit_empty_def list_all_iff is_int_lit_show_int split: option.splits)

lemma clean_members_append: "clean_json (JObj (xs @ ys)) = JObj (ms1 @ ms2)"
  if "clean_json (JObj xs) = JObj ms1" "clean_json (JObj ys) = JObj ms2"
  using that by simp

lemma clean_timestamp: "clean_json (encode_timestamp t) = encode_timestamp (whole t)"
  by (simp add: encode_timestamp_def to_valid_id [OF format_utc_utf8])

lemma clean_certificate: "clean_json (encode_certificate c) = encode_certificate (stored_cert c)"
  by (simp add: encode_certificate_def stored_cert_def clean_timestamp [unfolded encode_timestamp_def] encode_timestamp_def
      encode_requester_def stored_requester_def omit_empty_def to_valid_id format_utc_utf8 split: option.split)

lemma clean_ledger: "clean_json (encode_ledger l) = encode_ledger (stored l)"
  by (simp add: encode_ledger_def stored_def encode_timestamp_def encode_owner_def stored_owner_def clean_certificate
      to_valid_id format_utc_utf8 split: option.split)

text \<open>A ledger reads back as what is kept of it.\<close>

lemma status_stored: "cert_ok c \<Longrightarrow> cert_ok (stored_cert c) \<and> Status (stored_cert c) = Status c"
  by (auto simp: cert_ok_def stored_cert_def StatusActive_def StatusRevoked_def is_ascii_def)

lemma Valid_ascii: "Valid a \<Longrightarrow> list_all is_ascii a"
  by (cases a; auto simp: Valid_iff list_all_iff appid_char_def is_ascii_def is_lower_def is_digit_def)

lemma ledger_ok_stored: "ledger_ok l \<Longrightarrow> ledger_ok (stored l) \<and> AppID (stored l) = AppID l"
  by (auto simp: ledger_ok_def list_all_iff status_stored) (simp_all add: stored_def Valid_ascii)

lemma Parse_Marshal_stored:
  assumes "storable l" "ledger_ok l" "Marshal l = Inr data"
  shows "Parse data = Inr (stored l)"
proof -
  have "parse_first data = Some (encode_ledger (stored l))"
    using assms(3) parse_print_clean [OF numerals_encode [of l], of "[CHR 0x0A]" 0]
    by (simp add: Marshal_def num_stop_def is_digit_def clean_ledger)
  then show ?thesis
    using decode_encode_ledger [OF canonical_stored [OF assms(1)]] ledger_ok_stored [OF assms(2)]
    by (simp add: Parse_Inr)
qed

section \<open>Dates that do not fit\<close>

lemma show_nat_long: "10 ^ k \<le> n \<Longrightarrow> k < length (show_nat n)"
proof (induction k arbitrary: n)
  case 0
  then show ?case using show_nat_nonempty [of n] by (cases "show_nat n") auto
next
  case (Suc k)
  then have n: "10 \<le> n" "10 ^ k \<le> n div 10" by (auto simp: less_eq_div_iff_mult_less_eq intro: order_trans [rotated])
  show ?case using Suc.IH [OF n(2)] show_nat_step [OF n(1)] by simp
qed

lemma get_year_late:
  assumes "y < 0 \<or> 9999 < y" and run: "get_year (append_int 4 y @ s) = Some (z, r)"
  shows "skip_lit CHR ''-'' r = None"
proof (cases "y < 0")
  case True
  then show ?thesis
    using run by (cases "pad_nat 4 (nat (- y)) @ s" rule: get_year.cases) (auto simp: append_int_def is_digit_def split: if_splits)
next
  case False
  then have "10 ^ 4 \<le> nat y" using assms by simp
  from show_nat_long [OF this] obtain a b c d e r where ds: "show_nat (nat y) = a # b # c # d # e # r"
    by (cases "show_nat (nat y)" rule: get_year.cases) (auto simp: Suc_le_length_iff, metis length_0_conv list.exhaust)
  then have "is_digit e" using show_nat_digits [of "nat y"] by simp
  then show ?thesis using run False ds by (auto simp: append_int_def pad_nat_def is_digit_def split: if_splits)
qed

lemma parse_late_date: "\<not> year_ok t \<Longrightarrow> parse_rfc3339 (format_utc t) = None"
proof -
  assume t: "\<not> year_ok t"
  obtain y m d where date: "date_of_days (time_unix t div 86400 + epoch_days) = (y, m, d)" by (metis prod_cases3)
  then have y: "y < 0 \<or> 9999 < y" using t by (auto simp: year_ok_def year_of_def date_of_days_def Let_def split: prod.splits)
  show ?thesis
    by (auto simp: parse_rfc3339_def format_utc_def Let_def date split: bind_splits prod.splits dest!: get_year_late [OF y])
qed

text \<open>A member that cannot be decoded, whatever was decoded before.\<close>

lemma decode_members_None:
  assumes "(k, v) \<in> set ms" "find_field fs k = Some f" "\<And>s. f v s = None"
  shows "decode_members strict fs ms s = None"
  using assms by (induction ms arbitrary: s) (auto split: option.splits)

lemma decode_struct_None:
  assumes "(k, v) \<in> set ms" "find_field fs k = Some f" "\<And>s. f v s = None"
  shows "decode_struct strict fs (JObj ms) s = None"
  using decode_members_None [OF assms] by (simp add: decode_struct_def)

lemma decode_elems_None: "v \<in> set vs \<Longrightarrow> (\<And>s. f v s = None) \<Longrightarrow> decode_elems f zero vs backing = None"
  by (induction vs arbitrary: backing) (auto split: option.splits)

lemma decode_late_timestamp: "\<not> year_ok t \<Longrightarrow> decode_timestamp (encode_timestamp t) = None"
  by (simp add: decode_timestamp_def encode_timestamp_def parse_late_date)

lemma decode_late_certificate:
  assumes "\<not> cert_dates_fit c"
  shows "decode_certificate (encode_certificate c) s = None"
proof -
  consider t where "\<not> year_ok t" "t = NotBefore c \<or> t = NotAfter c" | t where "\<not> year_ok t" "RevokedFrom c = Some t"
    using assms by (auto simp: cert_dates_fit_def split: option.splits)
  then show ?thesis
  proof cases
    case 1
    from 1(2) show ?thesis
    proof
      assume t: "t = NotBefore c"
      show ?thesis
        unfolding decode_certificate_def encode_certificate_def
        by (rule decode_struct_None [OF _ certificate_lookups(3), of "encode_timestamp t"])
           (use 1(1) t in \<open>simp_all add: decode_late_timestamp\<close>)
    next
      assume t: "t = NotAfter c"
      show ?thesis
        unfolding decode_certificate_def encode_certificate_def
        by (rule decode_struct_None [OF _ certificate_lookups(4), of "encode_timestamp t"])
           (use 1(1) t in \<open>simp_all add: decode_late_timestamp\<close>)
    qed
  next
    case 2
    show ?thesis
      unfolding decode_certificate_def encode_certificate_def
      by (rule decode_struct_None [OF _ certificate_lookups(8), of "encode_timestamp t"])
         (use 2 in \<open>auto simp: decode_timestamp_ptr_def decode_late_timestamp encode_timestamp_def decode_timestamp_def parse_late_date\<close>)
  qed
qed

lemma decode_late_ledger:
  assumes "\<not> dates_fit l"
  shows "decode_ledger (encode_ledger l) = None"
proof -
  consider "\<not> year_ok (ClaimedAt l)" | c cs where "Certificates l = Some cs" "c \<in> set cs" "\<not> cert_dates_fit c"
    using assms by (cases "Certificates l") (auto simp: dates_fit_def certs_def list_all_iff)
  then show ?thesis
  proof cases
    case 1
    then have "decode_struct True ledger_fields (encode_ledger l) (zero_ledger, []) = None"
      unfolding encode_ledger_def
      by (intro decode_struct_None [OF _ ledger_lookups(3), of "encode_timestamp (ClaimedAt l)"]) (auto simp: decode_late_timestamp)
    then show ?thesis by (simp add: decode_ledger_def)
  next
    case 2
    have "decode_elems decode_certificate zero_certificate (map encode_certificate cs) b = None" for b
      by (rule decode_elems_None [of "encode_certificate c"]) (use 2 decode_late_certificate in auto)
    then have "decode_struct True ledger_fields (encode_ledger l) (zero_ledger, []) = None"
      using 2(1) unfolding encode_ledger_def
      by (intro decode_struct_None [OF _ ledger_lookups(5), of "JArr (map encode_certificate cs)"]) (auto simp: decode_slice_def Let_def)
    then show ?thesis by (simp add: decode_ledger_def)
  qed
qed

lemma year_ok_whole [simp]: "year_ok (whole t) = year_ok t"
  by (simp add: year_ok_def)

lemma dates_fit_stored: "dates_fit (stored l) = dates_fit l"
proof -
  have "cert_dates_fit (stored_cert c) = cert_dates_fit c" for c
    by (simp add: cert_dates_fit_def stored_cert_def split: option.split)
  then show ?thesis by (simp add: dates_fit_def list_all_iff) (simp add: stored_def)
qed

text \<open>A ledger with a date that does not fit is written all the same, and is never read back.\<close>

lemma Parse_late:
  assumes "\<not> dates_fit l" "Marshal l = Inr data"
  shows "\<exists>e. Parse data = Inl e"
proof -
  have "parse_first data = Some (encode_ledger (stored l))"
    using assms(2) parse_print_clean [OF numerals_encode [of l], of "[CHR 0x0A]" 0]
    by (simp add: Marshal_def num_stop_def is_digit_def clean_ledger)
  moreover have "decode_ledger (encode_ledger (stored l)) = None"
    by (rule decode_late_ledger) (simp add: dates_fit_stored assms(1))
  ultimately show ?thesis by (simp add: Parse_def)
qed

section \<open>Property\<close>

text \<open>C37: A ledger whose times all lie in the years 0 to 9999 reads back from its file as what a file keeps
  of it: the same ledger with its times cut to the second and invalid bytes of its texts replaced,
  which is a form that every further round trip leaves as it is; a ledger already in that form reads
  back exactly, and no other ledger in that form has the same file. A ledger with any other time is
  written all the same, and its file is refused by the parser.\<close>
theorem ledger_file_round_trip:
  assumes "ledger_ok l" and "ids_fit l" and "Marshal l = Inr data"
  shows "if dates_fit l
    then Parse data = Inr (stored l) \<and> ledger_canonical (stored l) \<and> stored (stored l) = stored l \<and>
      (if ledger_canonical l then stored l = l \<and> {m. ledger_canonical m \<and> Marshal m = Inr data} = {l} else True)
    else (\<exists>e. Parse data = Inl e)"
proof (cases "dates_fit l")
  case True
  then have sto: "storable l" using assms(2) by (simp add: storable_iff)
  have one: "{m. ledger_canonical m \<and> Marshal m = Inr data} = {l}" if "ledger_canonical l"
  proof (intro equalityI subsetI)
    fix m assume "m \<in> {m. ledger_canonical m \<and> Marshal m = Inr data}"
    then have "ledger_canonical m" "Marshal m = Marshal l" using assms(3) by (simp_all only: mem_Collect_eq)
    then show "m \<in> {l}" using Marshal_inject [OF _ that] by blast
  qed (use that assms(3) in blast)
  have can: "ledger_canonical (stored l)" by (rule canonical_stored [OF sto])
  have "if ledger_canonical l then stored l = l \<and> {m. ledger_canonical m \<and> Marshal m = Inr data} = {l} else True"
    using one stored_id [of l] by presburger
  then show ?thesis
    using Parse_Marshal_stored [OF sto assms(1,3)] can stored_id [OF can] True by presburger
next
  case False
  then show ?thesis using Parse_late [OF False assms(3)] by simp
qed

end
