(* ===== verification/EnrollForm.thy ===== *)
theory EnrollForm imports GoRegexp begin

text \<open>
  \<open>internal/enroll/form.go\<close>: the request block and the target repository of an issue body.
\<close>

section \<open>Definitions\<close>

text \<open>\<open>(?s)-----BEGIN CERTIFICATE REQUEST-----.*?-----END CERTIFICATE REQUEST-----\<close>\<close>

definition csrBegin :: string where
  "csrBegin = ''-----BEGIN CERTIFICATE REQUEST-----''"

definition csrEnd :: string where
  "csrEnd = ''-----END CERTIFICATE REQUEST-----''"

definition csrBlockRE :: re where
  "csrBlockRE = block_re csrBegin csrEnd"

definition repoHeading :: string where
  "repoHeading = ''App repository (owner/name)''"

text \<open>\<open>[^\s/]\<close>\<close>

definition slug_char :: "char \<Rightarrow> bool" where
  "slug_char c \<longleftrightarrow>
     \<not> (c = CHR '' '' \<or> c = CHR 0x09 \<or> c = CHR 0x0A \<or> c = CHR 0x0C \<or> c = CHR 0x0D \<or> c = CHR ''/'')"

definition plus_re :: "re \<Rightarrow> re" where
  "plus_re r = Cat r (Star True r)"

definition repoRE :: re where
  "repoRE = Cat Bol (Cat (plus_re (Cls slug_char)) (Cat (lit ''/'') (Cat (plus_re (Cls slug_char)) Eol)))"

record form =
  CSR :: string
  FormRepo :: string

definition sectionBody :: "string \<Rightarrow> string \<Rightarrow> string" where
  "sectionBody body heading =
     (let marker = ''### '' @ heading
      in case cut marker body of
           None \<Rightarrow> []
         | Some (b, rest) \<Rightarrow>
             (case cut (CHR 0x0A # ''### '') rest of None \<Rightarrow> rest | Some (r, a) \<Rightarrow> r))"

definition stripFences :: "string \<Rightarrow> string" where
  "stripFences s0 =
     (let s = trim_space s0
      in if \<not> prefix ''```'' s then s
         else let ls = tl (split_on CHR 0x0A s);
                  ls1 = (if length ls > 0 \<and> trim_space (last ls) = ''```'' then butlast ls else ls)
              in trim_space (join_with CHR 0x0A ls1))"

definition parseForm :: "string \<Rightarrow> form result" where
  "parseForm body =
     (let csr = re_find csrBlockRE body
      in if csr = [] then Inl (Errorf ''no PEM CERTIFICATE REQUEST block found'')
         else let repo = trim_space (stripFences (sectionBody body repoHeading))
              in if repo = [] then Inl (Errorf (''missing '' @ go_quote repoHeading @ '' field''))
                 else if \<not> re_match repoRE repo
                 then Inl (Errorf (''target repo '' @ go_quote repo @ '' is not a valid owner/name slug''))
                 else Inr \<lparr>CSR = csr, FormRepo = repo\<rparr>)"

text \<open>The slice up to the first slash; without a slash the Go expression panics, which a parsed
  form excludes (lemma \<open>ownerOf_slug\<close>).\<close>

definition ownerOf :: "string \<Rightarrow> string" where
  "ownerOf repo = takeWhile (\<lambda>c. c \<noteq> CHR ''/'') repo"

section \<open>The slug\<close>

definition is_slug :: "string \<Rightarrow> bool" where
  "is_slug s \<longleftrightarrow>
     (\<exists>ow name. s = ow @ ''/'' @ name \<and> ow \<noteq> [] \<and> name \<noteq> [] \<and> list_all slug_char ow \<and> list_all slug_char name)"

lemma set_star_cls:
  "length s \<le> n \<Longrightarrow> (c, t) \<in> set (star_m (cls_m p) True n b s) \<longleftrightarrow>
     c = [] \<and> (\<exists>k\<le>length s. list_all p (take k s) \<and> t = drop k s)"
proof (induction n arbitrary: b s)
  case (Suc n)
  show ?case
  proof (cases s)
    case (Cons x s')
    have "(c, t) \<in> set (star_m (cls_m p) True (Suc n) b s) \<longleftrightarrow>
        p x \<and> (c, t) \<in> set (star_m (cls_m p) True n False s') \<or> c = [] \<and> t = s"
      by (auto simp: Cons cls_m_def shorter_def)
    also have "\<dots> \<longleftrightarrow> c = [] \<and> (\<exists>k\<le>length s. list_all p (take k s) \<and> t = drop k s)"
    proof -
      have "(c, t) \<in> set (star_m (cls_m p) True n False s') \<longleftrightarrow>
          c = [] \<and> (\<exists>k\<le>length s'. list_all p (take k s') \<and> t = drop k s')"
        using Suc Cons by simp
      then show ?thesis
        using ex_le_Suc [of "length s'" "\<lambda>k. list_all p (take k s) \<and> t = drop k s"] by (auto simp: Cons)
    qed
    finally show ?thesis .
  qed (simp add: cls_m_def shorter_def)
qed simp

lemma set_plus_cls:
  "(c, t) \<in> set (rm (plus_re (Cls p)) b s) \<longleftrightarrow>
     c = [] \<and> (\<exists>u. s = u @ t \<and> u \<noteq> [] \<and> list_all p u)"
proof (cases s)
  case Nil
  then show ?thesis by (auto simp: plus_re_def seq_m_cls)
next
  case (Cons x s')
  have "(c, t) \<in> set (rm (plus_re (Cls p)) b s) \<longleftrightarrow> p x \<and> (c, t) \<in> set (star_m (cls_m p) True (length s') False s')"
    by (simp add: plus_re_def seq_m_cls Cons)
  also have "\<dots> \<longleftrightarrow> c = [] \<and> p x \<and> (\<exists>k\<le>length s'. list_all p (take k s') \<and> t = drop k s')"
    by (auto simp: set_star_cls)
  also have "\<dots> \<longleftrightarrow> c = [] \<and> (\<exists>u. s = u @ t \<and> u \<noteq> [] \<and> list_all p u)"
  proof -
    have "(\<exists>k\<le>length s'. list_all p (take k s') \<and> t = drop k s') \<longleftrightarrow> (\<exists>v. s' = v @ t \<and> list_all p v)"
      by (metis append_eq_conv_conj append_take_drop_id le_add1 length_append)
    then show ?thesis by (auto simp: Cons Cons_eq_append_conv)
  qed
  finally show ?thesis .
qed

lemma repoRE_slug: "re_match repoRE s \<longleftrightarrow> is_slug s"
proof -
  let ?tail = "Cat (plus_re (Cls slug_char)) Eol"
  have tail: "(c, t) \<in> set (rm ?tail b s) \<longleftrightarrow> c = [] \<and> t = [] \<and> s \<noteq> [] \<and> list_all slug_char s" for c t b s
    unfolding rm.simps(3) [of _ Eol] set_seq_m set_plus_cls by (auto split: if_splits)
  have mid: "(c, t) \<in> set (rm (Cat (lit ''/'') ?tail) b s) \<longleftrightarrow>
      c = [] \<and> t = [] \<and> (\<exists>name. s = ''/'' @ name \<and> name \<noteq> [] \<and> list_all slug_char name)" for c t b s
    unfolding rm.simps(3) [of "lit ''/''"] seq_m_lit
    by (auto simp: tail prefix_def simp del: rm.simps)
  have "re_match repoRE s \<longleftrightarrow> (\<exists>c t. (c, t) \<in> set (rm (Cat (plus_re (Cls slug_char)) (Cat (lit ''/'') ?tail)) True s))"
    unfolding repoRE_def re_match_anchored ways_nonempty_iff ..
  also have "\<dots> \<longleftrightarrow> is_slug s"
    unfolding rm.simps(3) [of "plus_re _" "Cat (lit ''/'') ?tail"] set_seq_m set_plus_cls mid is_slug_def by blast
  finally show ?thesis .
qed

lemma ownerOf_slug:
  assumes "is_slug s"
  obtains name where "s = ownerOf s @ ''/'' @ name" "ownerOf s \<noteq> []" "name \<noteq> []"
    "list_all slug_char (ownerOf s)" "list_all slug_char name"
proof -
  from assms obtain ow name where s: "s = ow @ ''/'' @ name" "ow \<noteq> []" "name \<noteq> []"
    "list_all slug_char ow" "list_all slug_char name" by (auto simp: is_slug_def)
  have "\<forall>c\<in>set ow. c \<noteq> CHR ''/''" using s(4) by (auto simp: list_all_iff slug_char_def)
  then have "ownerOf s = ow" by (simp add: s(1) ownerOf_def takeWhile_append2)
  with s that [of name] show ?thesis by simp
qed

section \<open>The parsed form\<close>

lemma csrBegin_nonempty [simp]: "csrBegin \<noteq> []"
  by (simp add: csrBegin_def)

lemma parseForm_Inr:
  "parseForm body = Inr f \<longleftrightarrow>
     CSR f = re_find csrBlockRE body \<and> CSR f \<noteq> [] \<and>
     FormRepo f = trim_space (stripFences (sectionBody body repoHeading)) \<and> is_slug (FormRepo f)"
proof -
  let ?csr = "re_find csrBlockRE body"
  let ?repo = "trim_space (stripFences (sectionBody body repoHeading))"
  have ne: "\<not> is_slug []" by (simp add: is_slug_def)
  have "parseForm body = Inr f \<longleftrightarrow> ?csr \<noteq> [] \<and> is_slug ?repo \<and> f = \<lparr>CSR = ?csr, FormRepo = ?repo\<rparr>"
    using ne by (cases "?repo = []") (auto simp: parseForm_def Let_def repoRE_slug)
  also have "\<dots> \<longleftrightarrow> CSR f = ?csr \<and> CSR f \<noteq> [] \<and> FormRepo f = ?repo \<and> is_slug (FormRepo f)"
    by (cases f) (simp, metis)
  finally show ?thesis .
qed

lemma parseForm_sound:
  assumes "parseForm body = Inr f"
  shows "is_slug (FormRepo f)"
    and "\<exists>a m r. body = a @ CSR f @ r \<and> CSR f = csrBegin @ m @ csrEnd \<and> cut csrEnd (m @ csrEnd @ r) = Some (m, r)"
proof -
  show "is_slug (FormRepo f)" using assms unfolding parseForm_Inr by blast
  have "re_find csrBlockRE body \<noteq> []" and f: "CSR f = re_find csrBlockRE body"
    using assms by (auto simp: parseForm_Inr)
  then obtain a m r where "body = a @ csrBegin @ m @ csrEnd @ r"
    "re_find csrBlockRE body = csrBegin @ m @ csrEnd" "cut csrEnd (m @ csrEnd @ r) = Some (m, r)"
    unfolding csrBlockRE_def using re_find_block_nonempty [OF csrBegin_nonempty] by meson
  with f show "\<exists>a m r. body = a @ CSR f @ r \<and> CSR f = csrBegin @ m @ csrEnd \<and> cut csrEnd (m @ csrEnd @ r) = Some (m, r)"
    by (intro exI [of _ a] exI [of _ m] exI [of _ r]) simp
qed

end
