(* ===== verification/GoPem.thy ===== *)
theory GoPem imports GoStrings "HOL-Library.AList" begin

text \<open>
  What the program uses of Go's \<open>encoding/base64\<close> (\<open>StdEncoding\<close>) and \<open>encoding/pem\<close>.
\<close>

section \<open>Base64\<close>

definition b64_char :: "nat \<Rightarrow> char" where
  "b64_char n =
     (if n < 26 then char_of (65 + n) else if n < 52 then char_of (71 + n)
      else if n < 62 then char_of (n - 4) else if n = 62 then CHR ''+'' else CHR ''/'')"

definition b64_val :: "char \<Rightarrow> nat option" where
  "b64_val c =
     (if is_upper c then Some (byte c - 65)
      else if is_lower c then Some (byte c - 71)
      else if is_digit c then Some (byte c + 4)
      else if c = CHR ''+'' then Some 62
      else if c = CHR ''/'' then Some 63 else None)"

fun b64_encode :: "string \<Rightarrow> string" where
  "b64_encode [] = []"
| "b64_encode [a] = [b64_char (byte a div 4), b64_char (byte a mod 4 * 16), CHR ''='', CHR ''='']"
| "b64_encode [a, b] =
     [b64_char (byte a div 4), b64_char (byte a mod 4 * 16 + byte b div 16),
      b64_char (byte b mod 16 * 4), CHR ''='']"
| "b64_encode (a # b # c # s) =
     b64_char (byte a div 4) # b64_char (byte a mod 4 * 16 + byte b div 16) #
     b64_char (byte b mod 16 * 4 + byte c div 64) # b64_char (byte c mod 64) # b64_encode s"

text \<open>The decoder skips line ends, wants the padding, and ignores left over bits.\<close>

fun b64_quanta :: "string \<Rightarrow> string option" where
  "b64_quanta [] = Some []"
| "b64_quanta (a # b # c # d # s) =
     (case (b64_val a, b64_val b) of
        (Some x, Some y) \<Rightarrow>
          if c = CHR ''='' then
            (if d = CHR ''='' \<and> s = [] then Some [char_of (x * 4 + y div 16)] else None)
          else (case b64_val c of
                  None \<Rightarrow> None
                | Some z \<Rightarrow>
                    if d = CHR ''='' then
                      (if s = [] then Some [char_of (x * 4 + y div 16), char_of (y mod 16 * 16 + z div 4)]
                       else None)
                    else (case (b64_val d, b64_quanta s) of
                            (Some w, Some r) \<Rightarrow>
                              Some (char_of (x * 4 + y div 16) # char_of (y mod 16 * 16 + z div 4)
                                    # char_of (z mod 4 * 64 + w) # r)
                          | _ \<Rightarrow> None))
      | _ \<Rightarrow> None)"
| "b64_quanta _ = None"

definition b64_decode :: "string \<Rightarrow> string option" where
  "b64_decode s = b64_quanta (filter (\<lambda>c. c \<noteq> CHR 0x0A \<and> c \<noteq> CHR 0x0D) s)"

lemma byte_b64_char:
  "n < 64 \<Longrightarrow> byte (b64_char n) =
     (if n < 26 then 65 + n else if n < 52 then 71 + n else if n < 62 then n - 4
      else if n = 62 then 43 else 47)"
  by (simp add: b64_char_def)

lemma b64_val_char [simp]: "n < 64 \<Longrightarrow> b64_val (b64_char n) = Some n"
  using byte_b64_char [of n]
  by (auto simp: b64_val_def is_upper_def is_lower_def is_digit_def char_eq_byte
      simp del: byte_inject split: if_splits)

lemma b64_char_neq:
  "n < 64 \<Longrightarrow> b64_char n \<noteq> CHR ''=''" "n < 64 \<Longrightarrow> b64_char n \<noteq> CHR 0x0A" "n < 64 \<Longrightarrow> b64_char n \<noteq> CHR 0x0D"
  "n < 64 \<Longrightarrow> b64_char n \<noteq> CHR ''-''" "n < 64 \<Longrightarrow> b64_char n \<noteq> CHR '':''" "n < 64 \<Longrightarrow> b64_char n \<noteq> CHR '' ''"
  "n < 64 \<Longrightarrow> b64_char n \<noteq> CHR 0x09"
  using byte_b64_char [of n]
  by (auto simp: char_eq_byte simp del: byte_inject split: if_splits)

lemma b64_bounds:
  "byte a div 4 < 64" "byte a mod 4 * 16 < 64" "byte a mod 4 * 16 + byte b div 16 < 64"
  "byte b mod 16 * 4 < 64" "byte b mod 16 * 4 + byte c div 64 < 64" "byte c mod 64 < 64"
proof -
  have "byte a < 256" "byte b < 256" "byte c < 256" by simp_all
  moreover have "byte a mod 4 < 4" "byte b mod 16 < 16" by simp_all
  moreover have "byte b div 16 < 16" "byte c div 64 < 4"
    by (rule less_mult_imp_div_less, simp)+
  ultimately show "byte a div 4 < 64" "byte a mod 4 * 16 < 64" "byte a mod 4 * 16 + byte b div 16 < 64"
    "byte b mod 16 * 4 < 64" "byte b mod 16 * 4 + byte c div 64 < 64" "byte c mod 64 < 64"
    by linarith+
qed

lemma div_mult_add: "b < n \<Longrightarrow> (a * n + b) div n = (a :: nat)" "b < n \<Longrightarrow> (a * n + b) mod n = b"
  by simp_all

lemma b64_recombine:
  "char_of (byte a div 4 * 4 + (byte a mod 4 * 16 + byte b div 16) div 16) = a"
  "char_of ((byte a mod 4 * 16 + byte b div 16) mod 16 * 16 + (byte b mod 16 * 4 + byte c div 64) div 4) = b"
  "char_of ((byte b mod 16 * 4 + byte c div 64) mod 4 * 64 + byte c mod 64) = c"
  "char_of (byte a div 4 * 4 + byte a mod 4 * 16 div 16) = a"
  "char_of ((byte a mod 4 * 16 + byte b div 16) mod 16 * 16 + byte b mod 16 * 4 div 4) = b"
proof -
  have "byte b div 16 < 16" "byte c div 64 < 4"
    by (rule less_mult_imp_div_less, simp)+
  then show "char_of (byte a div 4 * 4 + (byte a mod 4 * 16 + byte b div 16) div 16) = a"
    "char_of ((byte a mod 4 * 16 + byte b div 16) mod 16 * 16 + (byte b mod 16 * 4 + byte c div 64) div 4) = b"
    "char_of ((byte b mod 16 * 4 + byte c div 64) mod 4 * 64 + byte c mod 64) = c"
    "char_of (byte a div 4 * 4 + byte a mod 4 * 16 div 16) = a"
    "char_of ((byte a mod 4 * 16 + byte b div 16) mod 16 * 16 + byte b mod 16 * 4 div 4) = b"
    by (simp_all only: div_mult_add div_mult_mod_eq char_of_char nonzero_mult_div_cancel_right)
qed

lemma b64_quantum:
  assumes "x < 64" "y < 64"
  shows "b64_quanta [b64_char x, b64_char y, CHR ''='', CHR ''=''] = Some [char_of (x * 4 + y div 16)]"
    and "z < 64 \<Longrightarrow> b64_quanta [b64_char x, b64_char y, b64_char z, CHR ''=''] =
      Some [char_of (x * 4 + y div 16), char_of (y mod 16 * 16 + z div 4)]"
    and "z < 64 \<Longrightarrow> w < 64 \<Longrightarrow> b64_quanta s = Some r \<Longrightarrow>
      b64_quanta (b64_char x # b64_char y # b64_char z # b64_char w # s) =
        Some (char_of (x * 4 + y div 16) # char_of (y mod 16 * 16 + z div 4) # char_of (z mod 4 * 64 + w) # r)"
  using assms by (simp_all add: b64_char_neq)

lemma b64_quanta_encode: "b64_quanta (b64_encode s) = Some s"
proof (induction s rule: b64_encode.induct)
  case (4 a b c s)
  then show ?case
    by (simp only: b64_encode.simps b64_quantum(3) b64_bounds b64_recombine)
next
  case (2 a)
  show ?case by (simp only: b64_encode.simps b64_quantum(1) b64_bounds b64_recombine)
next
  case (3 a b)
  show ?case by (simp only: b64_encode.simps b64_quantum(2) b64_bounds b64_recombine)
qed simp

text \<open>Every byte of an encoding is a letter, a digit, \<open>+\<close>, \<open>/\<close> or \<open>=\<close>.\<close>

definition b64_byte :: "char \<Rightarrow> bool" where
  "b64_byte c \<longleftrightarrow> c = CHR ''='' \<or> (\<exists>n<64. c = b64_char n)"

lemma b64_encode_bytes: "list_all b64_byte (b64_encode s)"
  by (induction s rule: b64_encode.induct) (auto simp: b64_byte_def intro: b64_bounds)

lemma b64_byte_value:
  assumes "b64_byte c"
  shows "byte c = 61 \<or> byte c = 43 \<or> byte c = 47 \<or> is_upper c \<or> is_lower c \<or> is_digit c"
proof (cases "c = CHR ''=''")
  case False
  with assms obtain n where n: "n < 64" and c: "c = b64_char n" by (auto simp: b64_byte_def)
  show ?thesis
    unfolding c is_upper_def is_lower_def is_digit_def byte_b64_char [OF n]
    using n by (simp split: if_split) linarith
qed simp

lemma b64_byte_neq:
  assumes "b64_byte c"
  shows "c \<noteq> CHR 0x0A" "c \<noteq> CHR 0x0D" "c \<noteq> CHR ''-''" "c \<noteq> CHR '':''" "c \<noteq> CHR '' ''" "c \<noteq> CHR 0x09"
  using b64_byte_value [OF assms]
  by (auto simp: char_eq_byte is_upper_def is_lower_def is_digit_def simp del: byte_inject)

lemma b64_decode_encode: "b64_decode (b64_encode s) = Some s"
proof -
  have "filter (\<lambda>c. c \<noteq> CHR 0x0A \<and> c \<noteq> CHR 0x0D) (b64_encode s) = b64_encode s"
    using b64_encode_bytes [of s] by (auto simp: list_all_iff b64_byte_neq intro!: filter_True)
  then show ?thesis by (simp add: b64_decode_def b64_quanta_encode)
qed

section \<open>PEM\<close>

record pem_block =
  BlockType :: string
  Headers :: "(string \<times> string) list"
  BlockBytes :: string

definition pemStart :: string where
  "pemStart = CHR 0x0A # ''-----BEGIN ''"

definition pemEnd :: string where
  "pemEnd = CHR 0x0A # ''-----END ''"

definition pemEndOfLine :: string where
  "pemEndOfLine = ''-----''"

text \<open>Lines of 64 bytes, each with a line end.\<close>

function break_lines :: "string \<Rightarrow> string" where
  "break_lines s = (if s = [] then [] else take 64 s @ CHR 0x0A # break_lines (drop 64 s))"
  by pat_completeness auto
termination
  by (relation "measure length") auto

declare break_lines.simps [simp del]

text \<open>\<open>pem.EncodeToMemory\<close> of a block without headers.\<close>

definition pem_encode :: "string \<Rightarrow> string \<Rightarrow> string" where
  "pem_encode ty bs =
     tl pemStart @ ty @ pemEndOfLine @ [CHR 0x0A] @ break_lines (b64_encode bs) @
     tl pemEnd @ ty @ pemEndOfLine @ [CHR 0x0A]"

text \<open>The first line without trailing white space and CR, and the text after its line end.\<close>

definition trim_line_end :: "string \<Rightarrow> string" where
  "trim_line_end l = rev (dropWhile (\<lambda>c. c = CHR '' '' \<or> c = CHR 0x09 \<or> c = CHR 0x0D) (rev l))"

definition getLine :: "string \<Rightarrow> string \<times> string" where
  "getLine s =
     (case cut [CHR 0x0A] s of None \<Rightarrow> (trim_line_end s, []) | Some (l, r) \<Rightarrow> (trim_line_end l, r))"

definition has_suffix :: "string \<Rightarrow> string \<Rightarrow> bool" where
  "has_suffix s p \<longleftrightarrow> prefix (rev p) (rev s)"

definition remove_blanks :: "string \<Rightarrow> string" where
  "remove_blanks = filter (\<lambda>c. c \<noteq> CHR '' '' \<and> c \<noteq> CHR 0x09)"

lemma getLine_length: "s \<noteq> [] \<Longrightarrow> length (snd (getLine s)) < length s"
  by (auto simp: getLine_def split: option.splits dest: cut_Some_eq)

text \<open>The \<open>Key: value\<close> lines; \<open>None\<close> when the text ends before the data.\<close>

function get_headers :: "string \<Rightarrow> (string \<times> string) list \<Rightarrow> ((string \<times> string) list \<times> string) option" where
  "get_headers rest hs =
     (if rest = [] then None
      else case getLine rest of (l, next) \<Rightarrow>
        (case cut '':'' l of
           None \<Rightarrow> Some (hs, rest)
         | Some (k, v) \<Rightarrow> get_headers next (AList.update (trim_space k) (trim_space v) hs)))"
  by pat_completeness auto
termination
  by (relation "measure (\<lambda>(rest, hs). length rest)") (auto, metis getLine_length snd_conv)

declare get_headers.simps [simp del]

text \<open>What \<open>pem.Decode\<close> does after a type line: the block and the rest of the input, or
  \<open>None\<close> where Go looks for the next block.\<close>

definition pem_body :: "string \<Rightarrow> (string \<times> string) list \<Rightarrow> string \<Rightarrow> (pem_block \<times> string) option" where
  "pem_body ty hs rest =
     (case (if hs = [] \<and> prefix (tl pemEnd) rest
            then Some ([], drop (length pemEnd - 1) rest) else cut pemEnd rest) of
        None \<Rightarrow> None
      | Some (data, trailer) \<Rightarrow>
          let n = length ty + length pemEndOfLine in
          if length trailer < n then None
          else if \<not> prefix ty (take n trailer) \<or> \<not> has_suffix (take n trailer) pemEndOfLine then None
          else if fst (getLine (drop n trailer)) \<noteq> [] then None
          else (case b64_decode (remove_blanks data) of
                  None \<Rightarrow> None
                | Some bs \<Rightarrow>
                    Some (\<lparr>BlockType = ty, Headers = hs, BlockBytes = bs\<rparr>, snd (getLine trailer))))"

text \<open>The text after the next \<open>-----BEGIN\<close> that starts a line.\<close>

definition after_begin :: "string \<Rightarrow> string option" where
  "after_begin data =
     (if prefix (tl pemStart) data then Some (drop (length pemStart - 1) data)
      else map_option snd (cut pemStart data))"

lemma after_begin_length: "after_begin data = Some rest \<Longrightarrow> length rest < length data"
  by (auto simp: after_begin_def pemStart_def prefix_def split: if_splits dest: cut_Some_eq)

lemma getLine_length_le: "length (snd (getLine s)) \<le> length s"
  using getLine_length [of s] by (cases s) (auto simp: getLine_def)

lemma get_headers_length: "get_headers rest hs = Some (hs', r) \<Longrightarrow> length r \<le> length rest"
proof (induction rest hs rule: get_headers.induct)
  case (1 rest hs)
  show ?case
  proof (cases "getLine rest")
    case (Pair l nxt)
    have "length nxt \<le> length rest" using getLine_length_le [of rest] Pair by simp
    with 1 Pair show ?thesis
      by (subst (asm) (2) get_headers.simps)
         (fastforce split: if_splits option.splits prod.splits dest: le_trans)
  qed
qed

text \<open>\<open>pem.Decode\<close>: the first block and the rest of the input; \<open>None\<close> for a nil block.\<close>

function pem_decode :: "string \<Rightarrow> (pem_block \<times> string) option" where
  "pem_decode data =
     (case after_begin data of
        None \<Rightarrow> None
      | Some rest \<Rightarrow>
          (case getLine rest of (line, rest1) \<Rightarrow>
             if \<not> has_suffix line pemEndOfLine then pem_decode rest1
             else let ty = take (length line - length pemEndOfLine) line
                  in case get_headers rest1 [] of
                       None \<Rightarrow> None
                     | Some (hs, rest2) \<Rightarrow>
                         (case pem_body ty hs rest2 of
                            Some r \<Rightarrow> Some r
                          | None \<Rightarrow> pem_decode rest2)))"
  by pat_completeness auto
termination
proof (relation "measure length", goal_cases)
  case (2 data rest line rest1)
  then show ?case
    using after_begin_length [of data rest] getLine_length_le [of rest] by (cases "getLine rest") auto
next
  case (3 data rest line rest1 ty p hs rest2)
  then show ?case
    using after_begin_length [of data rest] getLine_length_le [of rest]
      get_headers_length [of rest1 "[]" hs rest2] by (cases "getLine rest") auto
qed simp

declare pem_decode.simps [simp del]

end
