(* ===== verification/X509.thy ===== *)
theory X509 imports GoPem GoTime begin

text \<open>
  The data of \<open>crypto/x509\<close> the program builds and reads, and the parts of Go's crypto library it
  calls. The library itself (DER, signatures, SHA-256, key generation) is the parameter
  \<open>crypto_lib\<close> of the definitions that use it: nothing is assumed of it unless a theorem says so.

  Effects are passed explicitly: \<open>'w\<close> is the state of the outside world and an operation is a
  function \<open>'w \<Rightarrow> 'a result \<times> 'w\<close>.
\<close>

type_synonym ('w, 'a) io = "'w \<Rightarrow> 'a result \<times> 'w"

section \<open>Readers\<close>

text \<open>An \<open>io.Reader\<close> as a stream of bytes; \<open>read_full\<close> is \<open>io.ReadFull\<close> of \<open>n\<close> bytes.\<close>

type_synonym 'w reader = "('w, char) io"

definition io_EOF :: go_error where
  "io_EOF = Sentinel ''EOF''"

definition ErrUnexpectedEOF :: go_error where
  "ErrUnexpectedEOF = Sentinel ''unexpected EOF''"

fun read_more :: "'w reader \<Rightarrow> nat \<Rightarrow> string \<Rightarrow> ('w, string) io" where
  "read_more r 0 acc w = (Inr (rev acc), w)"
| "read_more r (Suc n) acc w =
     (case r w of
        (Inl e, w1) \<Rightarrow> (Inl (if e = io_EOF \<and> acc \<noteq> [] then ErrUnexpectedEOF else e), w1)
      | (Inr c, w1) \<Rightarrow> read_more r n (c # acc) w1)"

definition read_full :: "'w reader \<Rightarrow> nat \<Rightarrow> ('w, string) io" where
  "read_full r n w = read_more r n [] w"

lemma read_more_length: "read_more r n acc w = (Inr bs, w') \<Longrightarrow> length bs = length acc + n"
  by (induction r n acc w rule: read_more.induct) (auto split: prod.splits sum.splits)

lemma read_full_length: "read_full r n w = (Inr bs, w') \<Longrightarrow> length bs = n"
  using read_more_length by (fastforce simp: read_full_def)

definition bytes_value :: "string \<Rightarrow> nat" where
  "bytes_value bs = foldl (\<lambda>n c. 256 * n + byte c) 0 bs"

lemma bytes_value_Nil [simp]: "bytes_value [] = 0"
  by (simp add: bytes_value_def)

lemma bytes_value_snoc [simp]: "bytes_value (bs @ [c]) = 256 * bytes_value bs + byte c"
  by (simp add: bytes_value_def)

lemma bytes_value_less: "bytes_value bs < 256 ^ length bs"
proof (induction bs rule: rev_induct)
  case (snoc c bs)
  have "byte c < 256" by simp
  moreover have "256 * bytes_value bs + 256 \<le> 256 * 256 ^ length bs"
    using snoc by simp
  ultimately have "256 * bytes_value bs + byte c < 256 * 256 ^ length bs" by linarith
  then show ?case by simp
qed simp

text \<open>\<open>rand.Int(r, 2^128)\<close>: sixteen bytes, of which no bit is cleared and no value refused.\<close>

definition rand_int_128 :: "'w reader \<Rightarrow> ('w, nat) io" where
  "rand_int_128 r w = (case read_full r 16 w of (Inl e, w1) \<Rightarrow> (Inl e, w1) | (Inr bs, w1) \<Rightarrow> (Inr (bytes_value bs), w1))"

lemma rand_int_128_less: "rand_int_128 r w = (Inr n, w') \<Longrightarrow> n < 2 ^ 128"
proof -
  assume "rand_int_128 r w = (Inr n, w')"
  then obtain bs where "length bs = 16" "n = bytes_value bs"
    by (auto simp: rand_int_128_def split: prod.splits sum.splits dest: read_full_length)
  with bytes_value_less [of bs] show ?thesis by simp
qed

section \<open>Certificates\<close>

text \<open>Dynamic types of a Go \<open>PublicKey any\<close>; a curve is known by its name.\<close>

datatype public_key =
    ECPublicKey "string option" string
  | RSAPublicKey nat
  | OtherPublicKey string string

record ec_private_key =
  KeyCurve :: "string option"
  KeyPublic :: string
  KeySecret :: string

datatype private_key = ECPrivateKey ec_private_key | OtherPrivateKey string

definition P384 :: "string option" where
  "P384 = Some ''P-384''"

definition public_of :: "ec_private_key \<Rightarrow> public_key" where
  "public_of k = ECPublicKey (KeyCurve k) (KeyPublic k)"

record pkix_name =
  Country :: "string list"
  Organization :: "string list"
  OrganizationalUnit :: "string list"
  CommonName :: string

definition empty_name :: pkix_name where
  "empty_name = \<lparr>Country = [], Organization = [], OrganizationalUnit = [], CommonName = []\<rparr>"

datatype key_usage = KeyUsageDigitalSignature | KeyUsageCertSign | KeyUsageCRLSign
datatype ext_key_usage = ExtKeyUsageCodeSigning
datatype signature_algorithm = UnknownSignatureAlgorithm | ECDSAWithSHA384

text \<open>The fields of \<open>x509.Certificate\<close> the program sets or reads; the names that the ledger's
  certificate record has too carry an \<open>X\<close>. A nil \<open>any\<close> public key is \<open>None\<close>.\<close>

record x509_cert =
  Raw :: string
  XSerial :: int
  Subject :: pkix_name
  XPublicKey :: "public_key option"
  XNotBefore :: time
  XNotAfter :: time
  KeyUsage :: "key_usage set"
  ExtKeyUsage :: "ext_key_usage list"
  BasicConstraintsValid :: bool
  IsCA :: bool
  MaxPathLen :: nat
  MaxPathLenZero :: bool
  SignatureAlgorithm :: signature_algorithm
  CRLDistributionPoints :: "string list"

record certificate_request =
  ReqSubject :: pkix_name
  ReqPublicKey :: "public_key option"
  ReqRaw :: string

record revocation_entry =
  EntrySerial :: int
  RevocationTime :: time

record revocation_list =
  CRLNumber :: int
  ThisUpdate :: time
  NextUpdate :: time
  RevokedEntries :: "revocation_entry list"

section \<open>The library\<close>

datatype hash_func = SHA384 | OtherHash string

text \<open>\<open>crypto.Signer\<close>: its public key and the signature of a digest.\<close>

record 'w crypto_signer =
  SignerPublic :: "public_key option"
  SignDigest :: "string \<Rightarrow> hash_func \<Rightarrow> ('w, string) io"

record 'w crypto_lib =
  ParseCertificateRequest :: "string \<Rightarrow> certificate_request result"
  CheckSignature :: "certificate_request \<Rightarrow> go_error option"
  ParseCertificate :: "string \<Rightarrow> x509_cert result"
  ParseECPrivateKey :: "string \<Rightarrow> ec_private_key result"
  ParsePKCS8PrivateKey :: "string \<Rightarrow> private_key result"
  CreateCertificate :: "'w reader option \<Rightarrow> x509_cert \<Rightarrow> x509_cert \<Rightarrow> public_key option \<Rightarrow> 'w crypto_signer \<Rightarrow> ('w, string) io"
  CreateRevocationList :: "'w reader option \<Rightarrow> revocation_list \<Rightarrow> x509_cert \<Rightarrow> 'w crypto_signer \<Rightarrow> ('w, string) io"
  EcdsaSigner :: "ec_private_key \<Rightarrow> 'w crypto_signer"
  GenerateKey :: "'w reader \<Rightarrow> ('w, ec_private_key) io"
  Sha256 :: "string \<Rightarrow> string"
  RandReader :: "'w reader"

end
