(* ===== verification/Challenge.thy ===== *)
theory Challenge imports GoRegexp X509 begin

text \<open>
  \<open>internal/challenge\<close>: the nonce of the repository-control proof, the bot comment that carries
  it, its recovery, its expiry and the comparison with the committed file.
\<close>

section \<open>Definitions\<close>

definition FilePath :: string where
  "FilePath = ''/.well-known/owncloud-codesigning-challenge.txt''"

definition Validity :: int where
  "Validity = 72 * Hour"

definition nonceBytes :: nat where
  "nonceBytes = 32"

definition markerPrefix :: string where
  "markerPrefix = ''<!-- owncloud-codesigning-challenge: ''"

definition markerSuffix :: string where
  "markerSuffix = '' -->''"

definition markerRE :: re where
  "markerRE =
     Cat (lit ''<!-- owncloud-codesigning-challenge: '')
         (Cat (Grp (Rep 64 0 (Cls is_lower_hex))) (lit '' -->''))"

text \<open>A nil reader stands for \<open>crypto/rand.Reader\<close>, the argument \<open>dflt\<close>.\<close>

definition Generate :: "'w reader \<Rightarrow> 'w reader option \<Rightarrow> ('w, string) io" where
  "Generate dflt r w =
     (let rd = (case r of None \<Rightarrow> dflt | Some r1 \<Rightarrow> r1)
      in case read_full rd nonceBytes w of
           (Inl e, w1) \<Rightarrow> (Inl (Wrap ''challenge: read random: '' e []), w1)
         | (Inr b, w1) \<Rightarrow> (Inr (hex_encode b), w1))"

definition nl :: string where
  "nl = [CHR 0x0A]"

definition CommentBody :: "string \<Rightarrow> string" where
  "CommentBody nonce =
     markerPrefix @ nonce @ markerSuffix @ nl @ nl
     @ ''To prove you control this repository, commit a file containing ''
     @ ''exactly the value below to your repository's **default branch** at:'' @ nl @ nl
     @ ''```text'' @ nl @ FilePath @ nl @ ''```'' @ nl @ nl
     @ ''File contents:'' @ nl @ nl @ ''```text'' @ nl @ nonce @ nl @ ''```'' @ nl @ nl
     @ ''You have 72 hours. The bot re-checks periodically; you may delete the file afterwards.'' @ nl"

text \<open>The nonce and \<open>ok\<close>, as an option.\<close>

definition ParseNonce :: "string \<Rightarrow> string option" where
  "ParseNonce body = map_option hd (re_groups markerRE body)"

definition Expired :: "time \<Rightarrow> time \<Rightarrow> bool" where
  "Expired commentCreatedAt now \<longleftrightarrow> time_sub now commentCreatedAt > Validity"

definition Match :: "string \<Rightarrow> string \<Rightarrow> bool" where
  "Match stored fetched \<longleftrightarrow> (let got = trim_space fetched in stored = got)"

definition is_nonce :: "string \<Rightarrow> bool" where
  "is_nonce n \<longleftrightarrow> length n = 64 \<and> list_all is_lower_hex n"

section \<open>Lemmas\<close>

lemma markerRE_lit: "markerRE = Cat (lit markerPrefix) (Cat (Grp (Rep 64 0 (Cls is_lower_hex))) (lit markerSuffix))"
  by (simp add: markerRE_def markerPrefix_def markerSuffix_def)

text \<open>A marker at the head of a text.\<close>

definition marker_at :: "string \<Rightarrow> string \<Rightarrow> string \<Rightarrow> bool" where
  "marker_at s n post \<longleftrightarrow> is_nonce n \<and> s = markerPrefix @ n @ markerSuffix @ post"

lemma rm_marker_body:
  "rm (Cat (Grp (Rep 64 0 (Cls is_lower_hex))) (lit q)) b s =
     (if is_nonce (take 64 s) \<and> prefix q (drop 64 s)
      then [([take 64 s], drop (64 + length q) s)] else [])"
  by (simp add: seq_m_def rep_cls_exact rm_lit is_nonce_def add.commute min_def)

lemma rm_marker:
  "(c, t) # ws = rm markerRE b s \<longleftrightarrow> (\<exists>n. marker_at s n t \<and> c = [n] \<and> ws = [])"
proof
  assume "(c, t) # ws = rm markerRE b s"
  then have *: "prefix markerPrefix s" "is_nonce (take 64 (drop (length markerPrefix) s))"
    "prefix markerSuffix (drop 64 (drop (length markerPrefix) s))"
    "c = [take 64 (drop (length markerPrefix) s)]" "ws = []"
    "t = drop (64 + length markerSuffix) (drop (length markerPrefix) s)"
    unfolding markerRE_lit rm.simps(3) [of "lit markerPrefix"] seq_m_lit rm_marker_body
    by (auto split: if_splits)
  let ?r = "drop (length markerPrefix) s"
  have "s = markerPrefix @ ?r" using *(1) by (rule prefix_code_drop)
  moreover have "?r = take 64 ?r @ drop 64 ?r" by (rule append_take_drop_id [symmetric])
  moreover have "drop 64 ?r = markerSuffix @ t"
    using prefix_code_drop [OF *(3)] *(6) by (simp add: add.commute add.left_commute)
  ultimately have "marker_at s (take 64 ?r) t"
    using *(2) unfolding marker_at_def by metis
  with * show "\<exists>n. marker_at s n t \<and> c = [n] \<and> ws = []" by blast
next
  assume "\<exists>n. marker_at s n t \<and> c = [n] \<and> ws = []"
  then show "(c, t) # ws = rm markerRE b s"
    unfolding markerRE_lit rm.simps(3) [of "lit markerPrefix"] seq_m_lit rm_marker_body
    by (auto simp: marker_at_def is_nonce_def)
qed

lemma rm_marker_empty: "rm markerRE b s = [] \<longleftrightarrow> (\<nexists>n t. marker_at s n t)"
  using rm_marker [of _ _ _ b s] by (cases "rm markerRE b s") (fastforce, metis list.distinct(1) surj_pair)

text \<open>The nonce of the first marker of a comment.\<close>

lemma ParseNonce_Some:
  "ParseNonce body = Some n \<longleftrightarrow>
     (\<exists>pre post. body = pre @ markerPrefix @ n @ markerSuffix @ post \<and> is_nonce n \<and>
        (\<forall>k<length pre. \<nexists>n' post'. drop k body = markerPrefix @ n' @ markerSuffix @ post' \<and> is_nonce n'))"
  (is "?l = ?r")
proof
  assume ?l
  then obtain p m c where s: "re_search markerRE True body = Some (p, m, c)" and n: "n = hd c"
    by (auto simp: ParseNonce_def re_groups_def)
  then obtain t ws where *: "prefix p body" "rm markerRE (p = []) (drop (length p) body) = (c, t) # ws"
    "\<forall>k<length p. rm markerRE (k = 0) (drop k body) = []"
    by (auto simp: re_search_Some)
  from *(2) obtain n' where "marker_at (drop (length p) body) n' t" "c = [n']"
    using rm_marker [of c t ws] by metis
  moreover have "body = p @ drop (length p) body" using *(1) by (rule prefix_code_drop)
  ultimately have "body = p @ markerPrefix @ n @ markerSuffix @ t \<and> is_nonce n"
    using n by (simp add: marker_at_def)
  moreover have "\<forall>k<length p. \<nexists>n' post'. drop k body = markerPrefix @ n' @ markerSuffix @ post' \<and> is_nonce n'"
    using *(3) unfolding rm_marker_empty marker_at_def by meson
  ultimately show ?r by metis
next
  assume ?r
  then obtain pre post where *: "body = pre @ markerPrefix @ n @ markerSuffix @ post" "is_nonce n"
    "\<forall>k<length pre. \<nexists>n' post'. drop k body = markerPrefix @ n' @ markerSuffix @ post' \<and> is_nonce n'"
    by blast
  have "marker_at (drop (length pre) body) n post"
    using * by (simp add: marker_at_def)
  then have "rm markerRE (pre = []) (drop (length pre) body) = ([n], post) # []"
    using rm_marker [of "[n]" post "[]"] by metis
  moreover have "\<forall>k<length pre. rm markerRE (k = 0) (drop k body) = []"
    using *(3) unfolding rm_marker_empty marker_at_def by blast
  ultimately have "\<exists>m. re_search markerRE True body = Some (pre, m, [n])"
    unfolding re_search_Some using *(1) by auto
  then show ?l by (auto simp: ParseNonce_def re_groups_def)
qed

lemma ParseNonce_is_nonce: "ParseNonce body = Some n \<Longrightarrow> is_nonce n"
  by (auto simp: ParseNonce_Some)

lemma ParseNonce_CommentBody: "is_nonce n \<Longrightarrow> ParseNonce (CommentBody n) = Some n"
  unfolding ParseNonce_Some CommentBody_def
  by (rule exI [of _ "[]"]) (simp only: append_Nil list.size less_nat_zero_code append_assoc, blast)

lemma Generate_is_nonce: "Generate dflt r w = (Inr n, w') \<Longrightarrow> is_nonce n"
  by (auto simp: Generate_def Let_def is_nonce_def nonceBytes_def hex_encode_lower_hex
      split: prod.splits sum.splits dest: read_full_length)

lemma is_nonce_solid:
  assumes "is_nonce n"
  shows "n \<noteq> []" "list_all is_ascii n" "list_all (\<lambda>c. \<not> is_ascii_space c) n"
  using assms is_lower_hex_ascii by (auto simp: is_nonce_def list_all_iff)

lemma Match_padded:
  assumes "is_nonce n" "list_all is_ascii_space a" "list_all is_ascii_space b"
  shows "Match n (a @ n @ b)"
  using is_nonce_solid [OF assms(1)] assms(2,3)
  by (simp add: Match_def Let_def trim_space_pad list_all_iff)

lemma Expired_iff: "Expired c now \<longleftrightarrow> now - c > Validity"
  unfolding Expired_def by (rule time_sub_gt) (simp_all add: Validity_def nanosecond_per_second_def)

end
