(* ===== verification/Csr.thy ===== *)
theory Csr imports GoPem X509 begin

text \<open>
  \<open>internal/csr\<close>: a PEM certificate request is decoded, its key checked against the allowlist and
  its self-signature verified, in this order.
\<close>

section \<open>Definitions\<close>

definition minRSABits :: nat where
  "minRSABits = 3072"

definition ErrNotPEM :: go_error where
  "ErrNotPEM = Sentinel ''csr: input is not a PEM CERTIFICATE REQUEST''"

definition ErrUnsupportedKey :: go_error where
  "ErrUnsupportedKey = Sentinel ''csr: unsupported public key''"

definition ErrBadSignature :: go_error where
  "ErrBadSignature = Sentinel ''csr: signature verification failed''"

definition pemType :: string where
  "pemType = ''CERTIFICATE REQUEST''"

definition curveName :: "string option \<Rightarrow> string" where
  "curveName c = (case c of None \<Rightarrow> ''unknown'' | Some n \<Rightarrow> n)"

text \<open>\<open>big.Int.BitLen\<close>.\<close>

fun bit_len :: "nat \<Rightarrow> nat" where
  "bit_len n = (if n = 0 then 0 else Suc (bit_len (n div 2)))"

declare bit_len.simps [simp del]

text \<open>The error of the key check, \<open>None\<close> for nil; \<open>%T\<close> of a nil key is \<open><nil>\<close>.\<close>

definition checkKey :: "public_key option \<Rightarrow> go_error option" where
  "checkKey pub =
     (case pub of
        Some (ECPublicKey curve pt) \<Rightarrow>
          if curve \<noteq> P384
          then Some (Wrap [] ErrUnsupportedKey ('': EC curve '' @ curveName curve @ '' (only P-384 is accepted)''))
          else None
      | Some (RSAPublicKey n) \<Rightarrow>
          let bits = bit_len n
          in if bits < minRSABits
             then Some (Wrap [] ErrUnsupportedKey ('': RSA-'' @ show_nat bits @ '' (minimum is RSA-'' @ show_nat minRSABits @ '')''))
             else None
      | Some (OtherPublicKey ty bs) \<Rightarrow> Some (Wrap [] ErrUnsupportedKey ('': '' @ ty))
      | None \<Rightarrow> Some (Wrap [] ErrUnsupportedKey '': <nil>''))"

definition Parse :: "'w crypto_lib \<Rightarrow> string \<Rightarrow> certificate_request result" where
  "Parse lib data =
     (case pem_decode data of
        None \<Rightarrow> Inl ErrNotPEM
      | Some (block, rest) \<Rightarrow>
          if BlockType block \<noteq> pemType then Inl ErrNotPEM
          else (case ParseCertificateRequest lib (BlockBytes block) of
                  Inl e \<Rightarrow> Inl (Wrap ''csr: parse: '' e [])
                | Inr req \<Rightarrow>
                    (case checkKey (ReqPublicKey req) of
                       Some e \<Rightarrow> Inl e
                     | None \<Rightarrow>
                         (case CheckSignature lib req of
                            Some e \<Rightarrow> Inl (Wrap [] ErrBadSignature ('': '' @ error_text e))
                          | None \<Rightarrow> Inr req))))"

section \<open>Lemmas\<close>

lemma bit_len_le: "n < 2 ^ k \<Longrightarrow> bit_len n \<le> k"
proof (induction n arbitrary: k rule: bit_len.induct)
  case (1 n)
  show ?case
  proof (cases "n = 0")
    case False
    with 1(2) obtain j where k: "k = Suc j" by (cases k) auto
    with 1(2) have "n div 2 < 2 ^ j" by auto
    with 1(1) False k show ?thesis by (subst bit_len.simps) auto
  qed (simp add: bit_len.simps)
qed

lemma bit_len_ge: "2 ^ k \<le> n \<Longrightarrow> k < bit_len n"
proof (induction n arbitrary: k rule: bit_len.induct)
  case (1 n)
  have n: "n \<noteq> 0" using 1(2) by (cases n) auto
  show ?case
  proof (cases k)
    case (Suc j)
    with 1(2) have "2 ^ j \<le> n div 2" by auto
    with 1(1) n Suc show ?thesis by (subst bit_len.simps) auto
  qed (use n in \<open>simp add: bit_len.simps\<close>)
qed

lemma bit_len_iff: "bit_len n \<le> k \<longleftrightarrow> n < 2 ^ k"
  using bit_len_le [of n k] bit_len_ge [of k n] by (meson linorder_not_le)

text \<open>The allowlist: a P-384 point, or an RSA modulus of at least 3072 bits.\<close>

definition allowed_key :: "public_key option \<Rightarrow> bool" where
  "allowed_key pub \<longleftrightarrow>
     (case pub of Some (ECPublicKey c pt) \<Rightarrow> c = Some ''P-384'' | Some (RSAPublicKey n) \<Rightarrow> 2 ^ 3071 \<le> n | _ \<Rightarrow> False)"

lemma checkKey_None: "checkKey pub = None \<longleftrightarrow> allowed_key pub"
proof -
  have "bit_len n < 3072 \<longleftrightarrow> n < 2 ^ 3071" for n
    using bit_len_iff [of n 3071] by linarith
  then show ?thesis
    by (auto simp: checkKey_def allowed_key_def P384_def minRSABits_def Let_def linorder_not_less
        split: option.splits public_key.splits)
qed

lemma checkKey_Some: "checkKey pub = Some e \<Longrightarrow> errors_is e ErrUnsupportedKey"
  by (auto simp: checkKey_def Let_def split: option.splits public_key.splits if_splits)

lemma csr_Parse_Inr:
  "Parse lib data = Inr req \<longleftrightarrow>
     (\<exists>block rest. pem_decode data = Some (block, rest) \<and> BlockType block = pemType \<and>
        ParseCertificateRequest lib (BlockBytes block) = Inr req \<and> allowed_key (ReqPublicKey req) \<and>
        CheckSignature lib req = None)"
  unfolding Parse_def by (auto simp: checkKey_None [symmetric] split: option.splits sum.splits)

end
