(* ===== verification/Appinfo.thy ===== *)
theory Appinfo imports GoStrings Prelude begin

text \<open>
  \<open>internal/appinfo\<close>: the \<open>id\<close> of an \<open>info.xml\<close>. The XML syntax is a parameter, \<open>first_elem\<close>: it
  gives the tree of the first element of a text, or the error \<open>encoding/xml\<close> has on the way. What
  \<open>Unmarshal\<close> does with the tree and the struct \<open>info\<close> is modelled.
\<close>

section \<open>Definitions\<close>

text \<open>Names without the prefix; comments and processing instructions left out.\<close>

datatype xml_node = Elem string "xml_node list" | CharData string

type_synonym xml_parser = "string \<Rightarrow> (string \<times> xml_node list) result"

definition ErrNoID :: go_error where
  "ErrNoID = Sentinel ''appinfo: info.xml has no <id>''"

record xml_info = ID :: string

text \<open>The text of an element, without what its child elements hold.\<close>

fun char_data :: "xml_node list \<Rightarrow> string" where
  "char_data [] = []"
| "char_data (CharData s # ns) = s @ char_data ns"
| "char_data (Elem t cs # ns) = char_data ns"

text \<open>Each \<open>id\<close> child sets the field, so the last one counts.\<close>

fun set_ids :: "xml_node list \<Rightarrow> xml_info \<Rightarrow> xml_info" where
  "set_ids [] doc = doc"
| "set_ids (CharData s # ns) doc = set_ids ns doc"
| "set_ids (Elem t cs # ns) doc = set_ids ns (if t = ''id'' then doc\<lparr>ID := char_data cs\<rparr> else doc)"

definition unmarshal_info :: "xml_parser \<Rightarrow> string \<Rightarrow> xml_info result" where
  "unmarshal_info first_elem data =
     (case first_elem data of
        Inl e \<Rightarrow> Inl e
      | Inr (name, cs) \<Rightarrow>
          if name \<noteq> ''info''
          then Inl (Errorf (''expected element type <info> but have <'' @ name @ ''>''))
          else Inr (set_ids cs \<lparr>ID = []\<rparr>))"

definition ExtractID :: "xml_parser \<Rightarrow> string \<Rightarrow> string result" where
  "ExtractID first_elem data =
     (case unmarshal_info first_elem data of
        Inl e \<Rightarrow> Inl (Wrap ''appinfo: parse info.xml: '' e [])
      | Inr doc \<Rightarrow> let i = trim_space (ID doc) in if i = [] then Inl ErrNoID else Inr i)"

section \<open>Lemmas\<close>

definition id_texts :: "xml_node list \<Rightarrow> string list" where
  "id_texts ns = concat (map (\<lambda>n. case n of Elem t cs \<Rightarrow> if t = ''id'' then [char_data cs] else [] | _ \<Rightarrow> []) ns)"

lemma set_ids_last: "ID (set_ids ns doc) = last (ID doc # id_texts ns)"
proof (induction ns arbitrary: doc)
  case (Cons n ns)
  then show ?case by (cases n) (auto simp: id_texts_def)
qed (simp add: id_texts_def)

lemma ExtractID_Inr:
  "ExtractID p data = Inr i \<longleftrightarrow>
     (\<exists>cs. p data = Inr (''info'', cs) \<and> i = trim_space (last ([] # id_texts cs)) \<and> i \<noteq> [])"
  unfolding ExtractID_def unmarshal_info_def
  by (auto simp: set_ids_last Let_def split: sum.splits prod.splits if_splits)

end
