(* ===== verification/Signer.thy ===== *)
theory Signer imports GoPem X509 begin

text \<open>
  \<open>internal/signer\<close>: the interface the pipelines sign through, and the forms in which serials,
  fingerprints and certificates leave the program.
\<close>

section \<open>Definitions\<close>

record 'w signer =
  IssuerCertificate :: "x509_cert option"
  Sign :: "x509_cert \<Rightarrow> public_key option \<Rightarrow> ('w, string) io"
  SignCRL :: "revocation_list \<Rightarrow> ('w, string) io"

text \<open>\<open>big.Int.Text(16)\<close>.\<close>

definition hex_text :: "int \<Rightarrow> string" where
  "hex_text i = (if i < 0 then CHR ''-'' # show_base 16 (nat (- i)) else show_base 16 (nat i))"

definition FormatSerial :: "int \<Rightarrow> string" where
  "FormatSerial serial = ''0x'' @ hex_text serial"

definition Fingerprint :: "'w crypto_lib \<Rightarrow> string \<Rightarrow> string" where
  "Fingerprint lib der = ''sha256:'' @ hex_encode (Sha256 lib der)"

definition EncodePEM :: "string \<Rightarrow> string" where
  "EncodePEM der = pem_encode ''CERTIFICATE'' der"

section \<open>Lemmas\<close>

lemma Fingerprint_inj: "Fingerprint lib a = Fingerprint lib b \<longleftrightarrow> Sha256 lib a = Sha256 lib b"
  by (auto simp: Fingerprint_def dest: hex_encode_inj)

lemma show_base_nonempty [simp]: "show_base b n \<noteq> []"
  by (subst show_base.simps) simp

lemma show_base_lower_hex: "2 \<le> b \<Longrightarrow> b \<le> 16 \<Longrightarrow> list_all is_lower_hex (show_base b n)"
proof (induction b n rule: show_base.induct)
  case (1 b n)
  have "n mod b < b" using 1(2) by (intro mod_less_divisor) simp
  then have "n mod b < 16" using 1(3) by linarith
  with 1 show ?case
    by (subst show_base.simps) (auto simp: is_lower_hex_hex_char)
qed

end
