(* ===== verification/Certtmpl.thy ===== *)
theory Certtmpl imports Appid Signer begin

text \<open>
  \<open>internal/certtmpl\<close>: the leaf template. \<open>randomSerial\<close> draws until the number is positive; a
  reader that delivers zeros for ever keeps it running, so that its result is an option and
  \<open>None\<close> is the run that never ends.
\<close>

section \<open>Definitions\<close>

definition CRLDistributionPoint :: string where
  "CRLDistributionPoint = ''https://owncloud.dev/developer-certificates/crl/developers.crl''"

definition leafValidity :: int where
  "leafValidity = 2 * 365 * 24 * Hour"

record inputs =
  InAppID :: string
  InOwner :: string
  InOrigin :: string
  InPublicKey :: "public_key option"
  InNotBefore :: time
  InIssuer :: "x509_cert option"

partial_function (option) randomSerial :: "'w reader \<Rightarrow> 'w \<Rightarrow> (nat result \<times> 'w) option" where
  "randomSerial r w =
     (case rand_int_128 r w of
        (Inl e, w1) \<Rightarrow> Some (Inl (Wrap ''certtmpl: serial: '' e []), w1)
      | (Inr n, w1) \<Rightarrow> if 0 < n then Some (Inr n, w1) else randomSerial r w1)"

definition leaf_template :: "inputs \<Rightarrow> x509_cert \<Rightarrow> nat \<Rightarrow> x509_cert" where
  "leaf_template inp issuer serial =
     (let notAfter = time_add (InNotBefore inp) leafValidity;
          capped = (if notAfter > XNotAfter issuer then XNotAfter issuer else notAfter)
      in \<lparr>Raw = [], XSerial = int serial,
          Subject = \<lparr>Country = [], Organization = [InOwner inp], OrganizationalUnit = [InOrigin inp],
                     CommonName = InAppID inp\<rparr>,
          XPublicKey = None, XNotBefore = InNotBefore inp, XNotAfter = capped,
          KeyUsage = {KeyUsageDigitalSignature}, ExtKeyUsage = [ExtKeyUsageCodeSigning],
          BasicConstraintsValid = True, IsCA = False, MaxPathLen = 0, MaxPathLenZero = False,
          SignatureAlgorithm = ECDSAWithSHA384, CRLDistributionPoints = [CRLDistributionPoint]\<rparr>)"

definition Leaf :: "'w reader \<Rightarrow> inputs \<Rightarrow> 'w \<Rightarrow> (x509_cert result \<times> 'w) option" where
  "Leaf r inp w =
     (case ValidateStrict (InAppID inp) of
        Inl e \<Rightarrow> Some (Inl (Wrap (''certtmpl: CN '' @ go_quote (InAppID inp) @ '': '') e []), w)
      | Inr a \<Rightarrow>
          (case InIssuer inp of
             None \<Rightarrow> Some (Inl (Errorf ''certtmpl: nil issuer certificate''), w)
           | Some issuer \<Rightarrow>
               if InPublicKey inp = None then Some (Inl (Errorf ''certtmpl: nil subject public key''), w)
               else (case randomSerial r w of
                       None \<Rightarrow> None
                     | Some (Inl e, w1) \<Rightarrow> Some (Inl e, w1)
                     | Some (Inr serial, w1) \<Rightarrow> Some (Inr (leaf_template inp issuer serial), w1))))"

section \<open>Lemmas\<close>

lemma randomSerial_positive:
  "randomSerial r w = Some y \<Longrightarrow> case y of (Inr n, w') \<Rightarrow> 0 < n \<and> n < 2 ^ 128 | _ \<Rightarrow> True"
proof (rule randomSerial.raw_induct [of "\<lambda>r w y. case y of (Inr n, w') \<Rightarrow> 0 < n \<and> n < 2 ^ 128 | _ \<Rightarrow> True"])
  fix rec and r :: "'w reader" and w :: 'w and y
  assume IH: "\<And>r w y. rec r w = Some y \<Longrightarrow> (case y of (Inr n, w') \<Rightarrow> 0 < n \<and> n < 2 ^ 128 | _ \<Rightarrow> True)"
    and *: "(case rand_int_128 r w of
        (Inl e, w1) \<Rightarrow> Some (Inl (Wrap ''certtmpl: serial: '' e []), w1)
      | (Inr n, w1) \<Rightarrow> if 0 < n then Some (Inr n, w1) else rec r w1) = Some y"
  show "case y of (Inr n, w') \<Rightarrow> 0 < n \<and> n < 2 ^ 128 | _ \<Rightarrow> True"
  proof (cases "rand_int_128 r w")
    case (Pair res w1)
    with * IH [of r w1 y] rand_int_128_less [of r w] show ?thesis
      by (cases res) (fastforce split: if_splits)+
  qed
qed

lemma randomSerial_range: "randomSerial r w = Some (Inr n, w') \<Longrightarrow> 0 < n \<and> n < 2 ^ 128"
  using randomSerial_positive by fastforce

text \<open>The state after \<open>k\<close> draws of zero, \<open>None\<close> when one of them is something else.\<close>

fun zero_draws :: "'w reader \<Rightarrow> nat \<Rightarrow> 'w \<Rightarrow> 'w option" where
  "zero_draws r 0 w = Some w"
| "zero_draws r (Suc k) w =
     (case rand_int_128 r w of
        (Inl e, w1) \<Rightarrow> None
      | (Inr n, w1) \<Rightarrow> if 0 < n then None else zero_draws r k w1)"

lemma zero_draws_end: "randomSerial r w = Some y \<Longrightarrow> \<exists>k. zero_draws r k w = None"
proof (rule randomSerial.raw_induct [of "\<lambda>r w y. \<exists>k. zero_draws r k w = None"])
  fix rec and r :: "'w reader" and w :: 'w and y
  assume IH: "\<And>r w y. rec r w = Some y \<Longrightarrow> \<exists>k. zero_draws r k w = None"
    and *: "(case rand_int_128 r w of
        (Inl e, w1) \<Rightarrow> Some (Inl (Wrap ''certtmpl: serial: '' e []), w1)
      | (Inr n, w1) \<Rightarrow> if 0 < n then Some (Inr n, w1) else rec r w1) = Some y"
  show "\<exists>k. zero_draws r k w = None"
  proof (cases "\<exists>w1. rand_int_128 r w = (Inr 0, w1)")
    case True
    then obtain w1 where w1: "rand_int_128 r w = (Inr 0, w1)" ..
    with * have "rec r w1 = Some y" by simp
    then obtain k where "zero_draws r k w1 = None" using IH [of r w1 y] by blast
    with w1 have "zero_draws r (Suc k) w = None" by simp
    then show ?thesis ..
  next
    case False
    then have "zero_draws r 1 w = None" by (auto split: prod.splits sum.splits)
    then show ?thesis ..
  qed
qed

lemma randomSerial_returns: "(\<exists>y. randomSerial r w = Some y) \<longleftrightarrow> (\<exists>k. zero_draws r k w = None)"
proof
  assume "\<exists>y. randomSerial r w = Some y"
  then show "\<exists>k. zero_draws r k w = None" by (elim exE) (rule zero_draws_end)
next
  assume "\<exists>k. zero_draws r k w = None"
  then obtain k where "zero_draws r k w = None" ..
  then show "\<exists>y. randomSerial r w = Some y"
  proof (induction k arbitrary: w)
    case (Suc k)
    then show ?case
      by (subst randomSerial.simps) (auto split: prod.splits sum.splits)
  qed simp
qed

lemma Leaf_Inr:
  "Leaf r inp w = Some (Inr t, w') \<longleftrightarrow>
     Valid (InAppID inp) \<and> InPublicKey inp \<noteq> None \<and>
     (\<exists>issuer serial. InIssuer inp = Some issuer \<and> randomSerial r w = Some (Inr serial, w') \<and>
        t = leaf_template inp issuer serial)"
  unfolding Leaf_def
  by (auto split: sum.splits option.splits simp: ValidateStrict_def)

lemma Leaf_returns:
  "(\<exists>k. zero_draws r k w = None) \<Longrightarrow> \<exists>res w'. Leaf r inp w = Some (res, w')"
  unfolding randomSerial_returns [symmetric] Leaf_def
  by (auto split: sum.splits option.splits)

lemma leaf_template_validity:
  "XNotAfter (leaf_template inp issuer serial) = min (InNotBefore inp + leafValidity) (XNotAfter issuer)"
  by (simp add: leaf_template_def Let_def time_add_def)

end
