(* ===== verification/Cms.thy ===== *)
theory Cms imports GoPem X509 begin

text \<open>
  \<open>internal/cms\<close>: the verifier interface of the revocation pipeline, its preset double
  (\<open>cms/fake\<close>) and the adapter that runs the openssl program (\<open>cms/openssl\<close>). Processes and files
  are the parameter \<open>os_lib\<close>.
\<close>

section \<open>The interface\<close>

definition ErrInvalidCMS :: go_error where
  "ErrInvalidCMS = Sentinel ''cms: verification failed''"

record cms_result =
  SignerCert :: x509_cert
  Content :: string

record 'w verifier =
  Verify :: "string \<Rightarrow> ('w, cms_result) io"

section \<open>The double\<close>

text \<open>A preset with neither result nor error (a nil result) is left out: no caller survives it.\<close>

record fake_verifier =
  PresetResult :: cms_result
  PresetErr :: "go_error option"

definition fake_Verify :: "fake_verifier \<Rightarrow> string \<Rightarrow> ('w, cms_result) io" where
  "fake_Verify v blk w = (case PresetErr v of Some e \<Rightarrow> (Inl e, w) | None \<Rightarrow> (Inr (PresetResult v), w))"

section \<open>The operating system\<close>

text \<open>How a program ended: well, with a bad exit status, or it could not be run.\<close>

datatype run_status = RunOk | ExitError | RunError go_error

record 'w os_lib =
  CreateTemp :: "string \<Rightarrow> ('w, string) io"
  RemoveFile :: "string \<Rightarrow> 'w \<Rightarrow> 'w"
  RunCommand :: "string list \<Rightarrow> string \<Rightarrow> 'w \<Rightarrow> (run_status \<times> string \<times> string) \<times> 'w"
  ReadFile :: "string \<Rightarrow> ('w, string) io"
  WriteFile :: "string \<Rightarrow> string \<Rightarrow> ('w, unit) io"
  MkdirAll :: "string \<Rightarrow> ('w, unit) io"
  Getenv :: "string \<Rightarrow> string"

section \<open>openssl\<close>

lemma getLine_snd_le: "getLine s = (l, r) \<Longrightarrow> length r \<le> length s"
  using getLine_length_le [of s] by simp

lemma pem_body_length: "pem_body ty hs rest = Some (b, r) \<Longrightarrow> length r \<le> length rest"
proof -
  assume a: "pem_body ty hs rest = Some (b, r)"
  then obtain data trailer where t: "(if hs = [] \<and> prefix (tl pemEnd) rest
            then Some ([], drop (length pemEnd - 1) rest) else cut pemEnd rest) = Some (data, trailer)"
    by (auto simp: pem_body_def split: option.splits)
  then have "length trailer \<le> length rest"
    by (auto split: if_splits dest: cut_Some_eq)
  moreover have "r = snd (getLine trailer)"
    using a unfolding pem_body_def t by (auto simp: Let_def split: if_splits option.splits)
  ultimately show ?thesis using getLine_length_le [of trailer] by simp
qed

lemma pem_decode_length: "pem_decode data = Some (b, r) \<Longrightarrow> length r < length data"
proof (induction data arbitrary: b r rule: pem_decode.induct)
  case (1 data)
  from "1.prems" obtain rest where rest: "after_begin data = Some rest"
    by (subst (asm) pem_decode.simps) (auto split: option.splits)
  obtain line rest1 where gl: "getLine rest = (line, rest1)" by fastforce
  have len: "length rest < length data" "length rest1 \<le> length rest"
    using after_begin_length [OF rest] getLine_snd_le [OF gl] by auto
  show ?case
  proof (cases "has_suffix line pemEndOfLine")
    case False
    then have "pem_decode rest1 = Some (b, r)"
      using "1.prems" rest gl by (subst (asm) pem_decode.simps) simp
    from "1.IH"(1) [OF rest gl [symmetric] False this] len show ?thesis by simp
  next
    case True
    let ?ty = "take (length line - length pemEndOfLine) line"
    from "1.prems" rest gl True obtain hs rest2 where h: "get_headers rest1 [] = Some (hs, rest2)"
      by (subst (asm) pem_decode.simps) (auto simp: Let_def split: option.splits)
    have len2: "length rest2 \<le> length rest1" using get_headers_length [OF h] .
    show ?thesis
    proof (cases "pem_body ?ty hs rest2")
      case None
      then have "pem_decode rest2 = Some (b, r)"
        using "1.prems" rest gl True h by (subst (asm) pem_decode.simps) (simp add: Let_def)
      from "1.IH"(2) [OF rest gl [symmetric] _ refl h refl None this] True len len2 show ?thesis by simp
    next
      case (Some br)
      then have "pem_body ?ty hs rest2 = Some (b, r)"
        using "1.prems" rest gl True h by (subst (asm) pem_decode.simps) (simp add: Let_def)
      from pem_body_length [OF this] len len2 show ?thesis by simp
    qed
  qed
qed

text \<open>The certificates of the PEM blocks of a text, \<open>acc\<close> holding those seen, latest first.\<close>

function pem_certs :: "'w crypto_lib \<Rightarrow> string \<Rightarrow> x509_cert list \<Rightarrow> x509_cert list result" where
  "pem_certs lib data acc =
     (case pem_decode data of
        None \<Rightarrow> Inr (rev acc)
      | Some (block, rest) \<Rightarrow>
          if BlockType block = ''CERTIFICATE'' then
            (case ParseCertificate lib (BlockBytes block) of
               Inl e \<Rightarrow> Inl e
             | Inr cert \<Rightarrow> pem_certs lib rest (cert # acc))
          else pem_certs lib rest acc)"
  by pat_completeness auto
termination
  by (relation "measure (\<lambda>(lib, data, acc). length data)") (auto dest: pem_decode_length)

declare pem_certs.simps [simp del]

definition onlyCertificate :: "'w crypto_lib \<Rightarrow> string \<Rightarrow> x509_cert result" where
  "onlyCertificate lib data =
     (case pem_certs lib data [] of
        Inl e \<Rightarrow> Inl e
      | Inr [] \<Rightarrow> Inl (Errorf ''no signer certificate in CMS output'')
      | Inr [c] \<Rightarrow> Inr c
      | Inr cs \<Rightarrow> Inl (Errorf (''CMS has '' @ show_nat (length cs) @ '' signer certificates; exactly one required'')))"

definition openssl_args :: "string \<Rightarrow> string list" where
  "openssl_args signerOut =
     [''openssl'', ''cms'', ''-verify'', ''-noverify'', ''-inform'', ''PEM'', ''-signer'', signerOut]"

definition openssl_run :: "'w crypto_lib \<Rightarrow> 'w os_lib \<Rightarrow> string \<Rightarrow> string \<Rightarrow> ('w, cms_result) io" where
  "openssl_run lib os signerOut pemRequest w =
     (case RunCommand os (openssl_args signerOut) pemRequest w of
        ((ExitError, stdout, stderr), w1) \<Rightarrow> (Inl (Wrap [] ErrInvalidCMS ('': '' @ trim_space stderr)), w1)
      | ((RunError e, stdout, stderr), w1) \<Rightarrow> (Inl (Wrap ''openssl: run cms -verify: '' e []), w1)
      | ((RunOk, stdout, stderr), w1) \<Rightarrow>
          (case ReadFile os signerOut w1 of
             (Inl e, w2) \<Rightarrow> (Inl (Wrap ''openssl: read signer: '' e []), w2)
           | (Inr pemCerts, w2) \<Rightarrow>
               (case onlyCertificate lib pemCerts of
                  Inl e \<Rightarrow> (Inl (Wrap [] ErrInvalidCMS ('': '' @ error_text e)), w2)
                | Inr c \<Rightarrow> (Inr \<lparr>SignerCert = c, Content = stdout\<rparr>, w2))))"

text \<open>The temporary file is removed on every path.\<close>

definition openssl_Verify :: "'w crypto_lib \<Rightarrow> 'w os_lib \<Rightarrow> string \<Rightarrow> ('w, cms_result) io" where
  "openssl_Verify lib os pemRequest w =
     (case CreateTemp os ''cms-signer-*.pem'' w of
        (Inl e, w1) \<Rightarrow> (Inl (Wrap ''openssl: temp file: '' e []), w1)
      | (Inr signerOut, w1) \<Rightarrow>
          (case openssl_run lib os signerOut pemRequest w1 of (r, w2) \<Rightarrow> (r, RemoveFile os signerOut w2)))"

definition openssl_verifier :: "'w crypto_lib \<Rightarrow> 'w os_lib \<Rightarrow> 'w verifier" where
  "openssl_verifier lib os = \<lparr>Verify = openssl_Verify lib os\<rparr>"

section \<open>Lemmas\<close>

lemma onlyCertificate_Inr: "onlyCertificate lib data = Inr c \<longleftrightarrow> pem_certs lib data [] = Inr [c]"
  by (auto simp: onlyCertificate_def split: sum.splits list.splits)

end
