(* ===== verification/Ghclient.thy ===== *)
theory Ghclient imports Cms begin

text \<open>
  \<open>internal/ghclient\<close>: the GitHub operations the pipelines are written against, as a record of
  functions on a world \<open>'w\<close>, and an observer that records every call of an implementation.
\<close>

section \<open>The interface\<close>

definition ErrNotFound :: go_error where
  "ErrNotFound = Sentinel ''ghclient: not found''"

definition ErrConflict :: go_error where
  "ErrConflict = Sentinel ''ghclient: ledger write conflict''"

lemma errors_distinct [simp]: "ErrNotFound \<noteq> ErrConflict" "ErrConflict \<noteq> ErrNotFound"
  by (simp_all add: ErrNotFound_def ErrConflict_def)

record author =
  AuthorLogin :: string
  AuthorUserID :: int

record issue =
  Number :: int
  IssueBody :: string
  Author :: author
  Labels :: "string list"

record comment =
  Body :: string
  CreatedAt :: time

record 'w github =
  ListOpenCertRequests :: "('w, issue list) io"
  ListOpenRevocationRequests :: "('w, issue list) io"
  OwnComments :: "int \<Rightarrow> ('w, comment list) io"
  PostComment :: "int \<Rightarrow> string \<Rightarrow> ('w, unit) io"
  SetLabels :: "int \<Rightarrow> string list \<Rightarrow> string list \<Rightarrow> ('w, unit) io"
  CloseIssue :: "int \<Rightarrow> ('w, unit) io"
  GetFile :: "string \<Rightarrow> string \<Rightarrow> ('w, string \<times> string) io"
  RepoAccessible :: "string \<Rightarrow> ('w, bool) io"
  GetLedger :: "string \<Rightarrow> ('w, string \<times> string) io"
  PutLedger :: "string \<Rightarrow> string \<Rightarrow> string \<Rightarrow> string \<Rightarrow> ('w, unit) io"
  PutFile :: "string \<Rightarrow> string \<Rightarrow> string \<Rightarrow> string \<Rightarrow> string \<Rightarrow> ('w, unit) io"

section \<open>The observer\<close>

text \<open>One event for every call, with its arguments and its result.\<close>

datatype event =
    EvListCert "issue list result"
  | EvListRev "issue list result"
  | EvOwnComments int "comment list result"
  | EvPostComment int string "unit result"
  | EvSetLabels int "string list" "string list" "unit result"
  | EvCloseIssue int "unit result"
  | EvGetFile string string "(string \<times> string) result"
  | EvRepoAccessible string "bool result"
  | EvGetLedger string "(string \<times> string) result"
  | EvPutLedger string string string string "unit result"
  | EvPutFile string string string string string "unit result"
  | EvNow time
  | EvSign x509_cert "public_key option" "string result"
  | EvVerify string "cms_result result"

text \<open>The world with what happened so far, the latest event first.\<close>

type_synonym 'w observed = "'w \<times> event list"

definition observe :: "('a result \<Rightarrow> event) \<Rightarrow> ('w, 'a) io \<Rightarrow> ('w observed, 'a) io" where
  "observe ev f wt = (case f (fst wt) of (r, w') \<Rightarrow> (r, (w', ev r # snd wt)))"

definition observed :: "'w github \<Rightarrow> 'w observed github" where
  "observed gh =
     \<lparr>ListOpenCertRequests = observe EvListCert (ListOpenCertRequests gh),
      ListOpenRevocationRequests = observe EvListRev (ListOpenRevocationRequests gh),
      OwnComments = (\<lambda>i. observe (EvOwnComments i) (OwnComments gh i)),
      PostComment = (\<lambda>i b. observe (EvPostComment i b) (PostComment gh i b)),
      SetLabels = (\<lambda>i a r. observe (EvSetLabels i a r) (SetLabels gh i a r)),
      CloseIssue = (\<lambda>i. observe (EvCloseIssue i) (CloseIssue gh i)),
      GetFile = (\<lambda>r p. observe (EvGetFile r p) (GetFile gh r p)),
      RepoAccessible = (\<lambda>r. observe (EvRepoAccessible r) (RepoAccessible gh r)),
      GetLedger = (\<lambda>a. observe (EvGetLedger a) (GetLedger gh a)),
      PutLedger = (\<lambda>a c p m. observe (EvPutLedger a c p m) (PutLedger gh a c p m)),
      PutFile = (\<lambda>r f c p m. observe (EvPutFile r f c p m) (PutFile gh r f c p m))\<rparr>"

text \<open>A reader's bytes are not recorded.\<close>

definition unobserved :: "('w, 'a) io \<Rightarrow> ('w observed, 'a) io" where
  "unobserved f wt = (case f (fst wt) of (r, w') \<Rightarrow> (r, (w', snd wt)))"

lemma observe_simp [simp]: "observe ev f (w, tr) = (case f w of (r, w') \<Rightarrow> (r, (w', ev r # tr)))"
  by (simp add: observe_def)

lemma unobserved_simp [simp]: "unobserved f (w, tr) = (case f w of (r, w') \<Rightarrow> (r, (w', tr)))"
  by (simp add: unobserved_def)

lemma observed_simps [simp]:
  "OwnComments (observed gh) i = observe (EvOwnComments i) (OwnComments gh i)"
  "PostComment (observed gh) i b = observe (EvPostComment i b) (PostComment gh i b)"
  "SetLabels (observed gh) i a r = observe (EvSetLabels i a r) (SetLabels gh i a r)"
  "CloseIssue (observed gh) i = observe (EvCloseIssue i) (CloseIssue gh i)"
  "GetFile (observed gh) rp p = observe (EvGetFile rp p) (GetFile gh rp p)"
  "RepoAccessible (observed gh) rp = observe (EvRepoAccessible rp) (RepoAccessible gh rp)"
  "GetLedger (observed gh) x = observe (EvGetLedger x) (GetLedger gh x)"
  "PutLedger (observed gh) x c q m = observe (EvPutLedger x c q m) (PutLedger gh x c q m)"
  "PutFile (observed gh) rp p c q m = observe (EvPutFile rp p c q m) (PutFile gh rp p c q m)"
  by (simp_all add: observed_def)

text \<open>A computation that writes no ledger file, whatever the outside world does.\<close>

definition is_put :: "event \<Rightarrow> bool" where
  "is_put e \<longleftrightarrow> (case e of EvPutLedger a c p m r \<Rightarrow> True | _ \<Rightarrow> False)"

definition puts :: "event list \<Rightarrow> event list" where
  "puts tr = filter is_put tr"

lemma puts_simps [simp]:
  "puts [] = []"
  "puts (e # tr) = (if is_put e then e # puts tr else puts tr)"
  "puts (tr @ tr') = puts tr @ puts tr'"
  by (simp_all add: puts_def)

lemma is_put_simps [simp]:
  "is_put (EvPutLedger a c p m r)"
  "\<not> is_put (EvListCert li)" "\<not> is_put (EvListRev li)"
  "\<not> is_put (EvOwnComments i cr)" "\<not> is_put (EvPostComment i b ur)" "\<not> is_put (EvSetLabels i al rl ur)"
  "\<not> is_put (EvCloseIssue i ur)" "\<not> is_put (EvGetFile rp f fr)" "\<not> is_put (EvRepoAccessible rp br)"
  "\<not> is_put (EvGetLedger a fr)" "\<not> is_put (EvPutFile rp f c p m ur)" "\<not> is_put (EvNow t)"
  "\<not> is_put (EvSign ct pk sr)" "\<not> is_put (EvVerify b vr)"
  by (simp_all add: is_put_def)

text \<open>Closing an issue, and an event that is neither this nor a write of a ledger.\<close>

definition is_close :: "event \<Rightarrow> bool" where
  "is_close e \<longleftrightarrow> (case e of EvCloseIssue n r \<Rightarrow> True | _ \<Rightarrow> False)"

definition silent :: "event \<Rightarrow> bool" where
  "silent e \<longleftrightarrow> \<not> is_put e \<and> \<not> is_close e"

lemma silent_simps [simp]:
  "silent (EvListCert li)" "silent (EvListRev li)"
  "silent (EvOwnComments i cr)" "silent (EvPostComment i b ur)" "silent (EvSetLabels i al rl ur)"
  "silent (EvGetFile rp f fr)" "silent (EvRepoAccessible rp br)"
  "silent (EvGetLedger a fr)" "silent (EvPutFile rp f c p m ur)" "silent (EvNow t)"
  "silent (EvSign ct pk sr)" "silent (EvVerify b vr)"
  "\<not> silent (EvPutLedger a c p m r)" "\<not> silent (EvCloseIssue n r)"
  "\<not> is_close (EvPutLedger a c p m r)" "is_close (EvCloseIssue n r)"
  by (simp_all add: silent_def is_close_def)

lemma silent_not [simp]: "silent e \<Longrightarrow> \<not> is_put e" "silent e \<Longrightarrow> \<not> is_close e"
  by (simp_all add: silent_def)

lemma puts_silent: "list_all silent tr \<Longrightarrow> puts tr = []"
  by (induction tr) auto

end
