(* ===== verification/Enroll.thy ===== *)
theory Enroll imports EnrollForm Challenge Csr Appinfo Certtmpl Ledger Ghclient begin

text \<open>
  \<open>internal/enroll\<close>: the issuer pipeline. The collaborators are the record \<open>deps\<close>; the crypto
  library and the XML syntax are the arguments \<open>lib\<close> and \<open>xml\<close>. Every operation returns its
  result with the world it leaves; minting a certificate may draw serials for ever, so that
  \<open>issueCert\<close> and \<open>Process\<close> return an option, \<open>None\<close> for a run without end.
\<close>

section \<open>Constants and collaborators\<close>

definition LabelInvalid :: string where "LabelInvalid = ''invalid''"
definition LabelNeedsChanges :: string where "LabelNeedsChanges = ''needs-changes''"
definition LabelAwaitingChallenge :: string where "LabelAwaitingChallenge = ''awaiting-challenge''"
definition LabelExpired :: string where "LabelExpired = ''expired''"
definition LabelRejected :: string where "LabelRejected = ''rejected''"
definition LabelIssued :: string where "LabelIssued = ''issued''"

definition maxLedgerRetries :: nat where
  "maxLedgerRetries = 5"

record 'w deps =
  GH :: "'w github"
  Signer :: "'w signer"
  Clock :: "'w \<Rightarrow> time \<times> 'w"
  Rand :: "'w reader"

section \<open>Helpers\<close>

definition terminal :: "'w deps \<Rightarrow> issue \<Rightarrow> string \<Rightarrow> string \<Rightarrow> ('w, unit) io" where
  "terminal d iss label comment w =
     (case PostComment (GH d) (Number iss) comment w of
        (Inl e, w1) \<Rightarrow> (Inl (Wrap (''enroll: post '' @ label @ '' comment: '') e []), w1)
      | (Inr u, w1) \<Rightarrow> SetLabels (GH d) (Number iss) [label] [] w1)"

fun hasLabel :: "string list \<Rightarrow> string \<Rightarrow> bool" where
  "hasLabel [] want = False"
| "hasLabel (l # ls) want = (if l = want then True else hasLabel ls want)"

section \<open>Steps\<close>

text \<open>The loop over the bot's comments, oldest first; the last one with a marker wins.\<close>

fun last_challenge :: "comment list \<Rightarrow> (string \<times> time) option \<Rightarrow> (string \<times> time) option" where
  "last_challenge [] found = found"
| "last_challenge (c # cs) found =
     last_challenge cs (case ParseNonce (Body c) of Some n \<Rightarrow> Some (n, CreatedAt c) | None \<Rightarrow> found)"

definition priorChallenge :: "'w deps \<Rightarrow> int \<Rightarrow> ('w, (string \<times> time) option) io" where
  "priorChallenge d n w =
     (case OwnComments (GH d) n w of
        (Inl e, w1) \<Rightarrow> (Inl (Wrap ''enroll: read own comments: '' e []), w1)
      | (Inr comments, w1) \<Rightarrow> (Inr (last_challenge comments None), w1))"

definition postChallenge :: "'w crypto_lib \<Rightarrow> 'w deps \<Rightarrow> int \<Rightarrow> ('w, unit) io" where
  "postChallenge lib d n w =
     (case Generate (RandReader lib) (Some (Rand d)) w of
        (Inl e, w1) \<Rightarrow> (Inl (Wrap ''enroll: generate nonce: '' e []), w1)
      | (Inr nonce, w1) \<Rightarrow>
          (case PostComment (GH d) n (CommentBody nonce) w1 of
             (Inl e, w2) \<Rightarrow> (Inl (Wrap ''enroll: post challenge: '' e []), w2)
           | (Inr u, w2) \<Rightarrow> SetLabels (GH d) n [LabelAwaitingChallenge] [] w2))"

text \<open>The ledger and its SHA; no ledger and the empty SHA when there is no file.\<close>

definition loadLedger :: "'w deps \<Rightarrow> string \<Rightarrow> ('w, ledger option \<times> string) io" where
  "loadLedger d appID w =
     (case GetLedger (GH d) appID w of
        (Inl e, w1) \<Rightarrow>
          if errors_is e ErrNotFound then (Inr (None, []), w1)
          else (Inl (Wrap ''enroll: read ledger: '' e []), w1)
      | (Inr (data, sha), w1) \<Rightarrow>
          (case Ledger.Parse data of
             Inl e \<Rightarrow> (Inl (Wrap (''enroll: parse ledger '' @ appID @ '': '') e []), w1)
           | Inr l \<Rightarrow> (Inr (Some l, sha), w1)))"

definition new_ledger :: "string \<Rightarrow> string \<Rightarrow> time \<Rightarrow> ledger" where
  "new_ledger appID repo now =
     \<lparr>AppID = appID, Owner = \<lparr>OwnerOrigin = OriginGitHub, Repo = repo\<rparr>, ClaimedAt = now,
      Reserved = False, Certificates = None\<rparr>"

definition append_cert :: "certificate \<Rightarrow> ledger \<Rightarrow> ledger" where
  "append_cert entry l = l\<lparr>Certificates := Some (certs l @ [entry])\<rparr>"

text \<open>The ledger one round of the loop writes.\<close>

definition next_ledger :: "string \<Rightarrow> string \<Rightarrow> time \<Rightarrow> certificate \<Rightarrow> ledger option \<Rightarrow> ledger" where
  "next_ledger appID repo now entry existing =
     append_cert entry (case existing of None \<Rightarrow> new_ledger appID repo now | Some l \<Rightarrow> l)"

definition issue_message :: "string \<Rightarrow> string" where
  "issue_message appID = ''ledger: issue cert for '' @ appID"

text \<open>The retry loop; \<open>n\<close> rounds are left, \<open>lastConflict\<close> is the error of the last conflict.\<close>

fun commit_loop ::
  "'w deps \<Rightarrow> string \<Rightarrow> string \<Rightarrow> certificate \<Rightarrow> time \<Rightarrow> nat \<Rightarrow> go_error option \<Rightarrow> ledger option \<Rightarrow> string
     \<Rightarrow> ('w, unit) io" where
  "commit_loop d appID repo entry now 0 lastConflict existing prevSHA w =
     (let msg = ''enroll: ledger write for '' @ appID @ '' conflicted after '' @ show_nat maxLedgerRetries @ '' retries: ''
      in (Inl (case lastConflict of None \<Rightarrow> Errorf (msg @ ''%!w(<nil>)'') | Some e \<Rightarrow> Wrap msg e []), w))"
| "commit_loop d appID repo entry now (Suc n) lastConflict existing prevSHA w =
     (case Marshal (next_ledger appID repo now entry existing) of
        Inl e \<Rightarrow> (Inl (Wrap ''enroll: marshal ledger: '' e []), w)
      | Inr data \<Rightarrow>
          (case PutLedger (GH d) appID data prevSHA (issue_message appID) w of
             (Inr u, w1) \<Rightarrow> (Inr (), w1)
           | (Inl e, w1) \<Rightarrow>
               if \<not> errors_is e ErrConflict then (Inl (Wrap ''enroll: write ledger: '' e []), w1)
               else (case loadLedger d appID w1 of
                       (Inl e2, w2) \<Rightarrow> (Inl e2, w2)
                     | (Inr (existing2, sha2), w2) \<Rightarrow>
                         commit_loop d appID repo entry now n (Some e) existing2 sha2 w2)))"

definition commitLedger ::
  "'w deps \<Rightarrow> string \<Rightarrow> string \<Rightarrow> certificate \<Rightarrow> ledger option \<Rightarrow> string \<Rightarrow> ('w, unit) io" where
  "commitLedger d appID repo entry existing prevSHA w =
     (case Clock d w of
        (now, w1) \<Rightarrow> commit_loop d appID repo entry now maxLedgerRetries None existing prevSHA w1)"

definition em_dash :: string where
  "em_dash = [CHR 0xE2, CHR 0x80, CHR 0x94]"

definition delivery_body :: "string \<Rightarrow> string \<Rightarrow> string" where
  "delivery_body appID chain =
     ''Certificate issued for `'' @ appID @ ''`. Your leaf certificate and the intermediate (chain) follow ''
     @ em_dash @ '' save both.'' @ nl @ nl @ ''```'' @ nl @ chain @ ''```'' @ nl"

definition ledger_entry :: "'w crypto_lib \<Rightarrow> issue \<Rightarrow> x509_cert \<Rightarrow> string \<Rightarrow> certificate" where
  "ledger_entry lib iss leaf der =
     \<lparr>Serial = FormatSerial (XSerial leaf), CertFingerprint = Fingerprint lib der,
      NotBefore = XNotBefore leaf, NotAfter = XNotAfter leaf,
      Requester = \<lparr>RequesterOrigin = OriginGitHub, Login = AuthorLogin (Author iss), UserID = AuthorUserID (Author iss)\<rparr>,
      IssueRef = ''#'' @ show_int (Number iss), Status = StatusActive, RevokedFrom = None, Reason = [], Actor = []\<rparr>"

text \<open>Step 11; the issuer certificate is present, or \<open>Leaf\<close> would have failed.\<close>

definition deliver :: "'w deps \<Rightarrow> issue \<Rightarrow> string \<Rightarrow> string \<Rightarrow> x509_cert option \<Rightarrow> ('w, unit) io" where
  "deliver d iss appID der issuer w =
     (let chain = EncodePEM der @ EncodePEM (case issuer of None \<Rightarrow> [] | Some c \<Rightarrow> Raw c)
      in case PostComment (GH d) (Number iss) (delivery_body appID chain) w of
           (Inl e, w1) \<Rightarrow> (Inl (Wrap ''enroll: deliver cert: '' e []), w1)
         | (Inr u, w1) \<Rightarrow>
             (case SetLabels (GH d) (Number iss) [LabelIssued] [LabelAwaitingChallenge] w1 of
                (Inl e, w2) \<Rightarrow> (Inl (Wrap ''enroll: set issued label: '' e []), w2)
              | (Inr u2, w2) \<Rightarrow> CloseIssue (GH d) (Number iss) w2))"

definition issueCert ::
  "'w crypto_lib \<Rightarrow> 'w deps \<Rightarrow> issue \<Rightarrow> form \<Rightarrow> string \<Rightarrow> public_key option \<Rightarrow> ledger option \<Rightarrow> string
     \<Rightarrow> 'w \<Rightarrow> (unit result \<times> 'w) option" where
  "issueCert lib d iss f appID pub existing prevSHA w =
     (case Clock d w of
        (now, w1) \<Rightarrow>
          let issuerCert = IssuerCertificate (Signer d) in
          (case Leaf (Rand d) \<lparr>InAppID = appID, InOwner = ownerOf (FormRepo f), InOrigin = OriginGitHub,
                               InPublicKey = pub, InNotBefore = now, InIssuer = issuerCert\<rparr> w1 of
             None \<Rightarrow> None
           | Some (Inl e, w2) \<Rightarrow> Some (Inl (Wrap ''enroll: build leaf template: '' e []), w2)
           | Some (Inr tmpl, w2) \<Rightarrow>
               Some (case Sign (Signer d) tmpl pub w2 of
                       (Inl e, w3) \<Rightarrow> (Inl (Wrap ''enroll: sign leaf: '' e []), w3)
                     | (Inr der, w3) \<Rightarrow>
                         (case ParseCertificate lib der of
                            Inl e \<Rightarrow> (Inl (Wrap ''enroll: parse issued leaf: '' e []), w3)
                          | Inr leaf \<Rightarrow>
                              (case commitLedger d appID (FormRepo f) (ledger_entry lib iss leaf der) existing prevSHA w3 of
                                 (Inl e, w4) \<Rightarrow> (Inl e, w4)
                               | (Inr u, w4) \<Rightarrow> deliver d iss appID der issuerCert w4)))))"


section \<open>Process\<close>

text \<open>Messages of the terminal states.\<close>

definition msg_bad_form :: "go_error \<Rightarrow> string" where
  "msg_bad_form e = ''Could not process this request: '' @ error_text e @ ''.''"

definition msg_bad_csr :: "go_error \<Rightarrow> string" where
  "msg_bad_csr e = ''CSR rejected: '' @ error_text e @ ''.''"

definition msg_bad_cn :: "string \<Rightarrow> string" where
  "msg_bad_cn cn = ''The CSR CommonName '' @ go_quote cn @ '' is not a valid appId ('' @ Pattern @ '').''"

definition msg_no_access :: "string \<Rightarrow> string" where
  "msg_no_access repo =
     ''The issuer bot cannot access `'' @ repo @ ''`. If it is a private repository, install the `owncloud-codesign-bot` GitHub App on it (or grant it access) so the bot can read `appinfo/info.xml` and verify the challenge.''"

definition msg_no_info :: "string \<Rightarrow> string" where
  "msg_no_info repo = ''Could not find `appinfo/info.xml` on the default branch of `'' @ repo @ ''`.''"

definition msg_no_id :: "string \<Rightarrow> go_error \<Rightarrow> string" where
  "msg_no_id repo e = ''`appinfo/info.xml` in `'' @ repo @ ''` has no usable `<id>` ('' @ error_text e @ '').''"

definition msg_bad_id :: "string \<Rightarrow> string" where
  "msg_bad_id rawID = ''The `info.xml` id '' @ go_quote rawID @ '' is not a valid appId ('' @ Pattern @ '').''"

definition msg_mismatch :: "string \<Rightarrow> string \<Rightarrow> string" where
  "msg_mismatch csrAppID infoAppID =
     ''The CSR CommonName ('' @ go_quote csrAppID @ '') does not match your `info.xml` id ('' @ go_quote infoAppID
     @ ''). They must be the same appId.''"

definition msg_expired :: string where
  "msg_expired = ''The repository-control challenge expired (72h). Open a new request to try again.''"

definition msg_reserved :: "string \<Rightarrow> string" where
  "msg_reserved appID = ''`'' @ appID @ ''` is a reserved first-party appId and cannot be claimed.''"

definition msg_owned :: "string \<Rightarrow> string" where
  "msg_owned appID =
     ''The appId `'' @ appID @ ''` is already owned by a different repository. Contact us for genuine disputes.''"

text \<open>A missing \<open>info.xml\<close>, or a repository the bot cannot see.\<close>

definition info_not_found :: "'w deps \<Rightarrow> issue \<Rightarrow> string \<Rightarrow> ('w, unit) io" where
  "info_not_found d iss repo w =
     (case RepoAccessible (GH d) repo w of
        (Inl e, w1) \<Rightarrow> (Inl (Wrap ''enroll: check repo access: '' e []), w1)
      | (Inr accessible, w1) \<Rightarrow>
          if \<not> accessible then terminal d iss LabelNeedsChanges (msg_no_access repo) w1
          else terminal d iss LabelNeedsChanges (msg_no_info repo) w1)"

text \<open>Steps 8 to 11: the ownership check, then the issuance.\<close>

definition decide_and_issue ::
  "'w crypto_lib \<Rightarrow> 'w deps \<Rightarrow> issue \<Rightarrow> form \<Rightarrow> certificate_request \<Rightarrow> string \<Rightarrow> 'w \<Rightarrow> (unit result \<times> 'w) option" where
  "decide_and_issue lib d iss f req appID w =
     (case loadLedger d appID w of
        (Inl e, w1) \<Rightarrow> Some (Inl e, w1)
      | (Inr (existing, prevSHA), w1) \<Rightarrow>
          (case Decide existing (FormRepo f) of
             DecisionRejectedReserved \<Rightarrow> Some (terminal d iss LabelRejected (msg_reserved appID) w1)
           | DecisionRejectedMismatch \<Rightarrow> Some (terminal d iss LabelRejected (msg_owned appID) w1)
           | _ \<Rightarrow> issueCert lib d iss f appID (ReqPublicKey req) existing prevSHA w1))"

text \<open>Steps 6 and 7: the challenge.\<close>

definition challenge_phase ::
  "'w crypto_lib \<Rightarrow> 'w deps \<Rightarrow> issue \<Rightarrow> form \<Rightarrow> certificate_request \<Rightarrow> string \<Rightarrow> 'w \<Rightarrow> (unit result \<times> 'w) option" where
  "challenge_phase lib d iss f req appID w =
     (case priorChallenge d (Number iss) w of
        (Inl e, w1) \<Rightarrow> Some (Inl e, w1)
      | (Inr None, w1) \<Rightarrow> Some (postChallenge lib d (Number iss) w1)
      | (Inr (Some (nonce, postedAt)), w1) \<Rightarrow>
          (case Clock d w1 of
             (now, w2) \<Rightarrow>
               if Expired postedAt now then Some (terminal d iss LabelExpired msg_expired w2)
               else (case GetFile (GH d) (FormRepo f) FilePath w2 of
                       (Inl e, w3) \<Rightarrow>
                         if errors_is e ErrNotFound then Some (Inr (), w3)
                         else Some (Inl (Wrap ''enroll: fetch challenge file: '' e []), w3)
                     | (Inr (got, sha), w3) \<Rightarrow>
                         if \<not> Match nonce got then Some (Inr (), w3)
                         else decide_and_issue lib d iss f req appID w3)))"

definition infoPath :: string where
  "infoPath = ''appinfo/info.xml''"

definition Process ::
  "'w crypto_lib \<Rightarrow> xml_parser \<Rightarrow> 'w deps \<Rightarrow> issue \<Rightarrow> 'w \<Rightarrow> (unit result \<times> 'w) option" where
  "Process lib xml d iss w =
     (if hasLabel (Labels iss) LabelIssued then Some (Inr (), w)
      else case parseForm (IssueBody iss) of
        Inl e \<Rightarrow> Some (terminal d iss LabelInvalid (msg_bad_form e) w)
      | Inr f \<Rightarrow>
          (case Csr.Parse lib (CSR f) of
             Inl e \<Rightarrow> Some (terminal d iss LabelInvalid (msg_bad_csr e) w)
           | Inr req \<Rightarrow>
               (case ValidateStrict (CommonName (ReqSubject req)) of
                  Inl e \<Rightarrow> Some (terminal d iss LabelInvalid (msg_bad_cn (CommonName (ReqSubject req))) w)
                | Inr csrAppID \<Rightarrow>
                    (case GetFile (GH d) (FormRepo f) infoPath w of
                       (Inl e, w1) \<Rightarrow>
                         if errors_is e ErrNotFound then Some (info_not_found d iss (FormRepo f) w1)
                         else Some (Inl (Wrap ''enroll: fetch info.xml: '' e []), w1)
                     | (Inr (infoXML, sha), w1) \<Rightarrow>
                         (case ExtractID xml infoXML of
                            Inl e \<Rightarrow> Some (terminal d iss LabelNeedsChanges (msg_no_id (FormRepo f) e) w1)
                          | Inr rawID \<Rightarrow>
                              (case Canonicalize rawID of
                                 Inl e \<Rightarrow> Some (terminal d iss LabelNeedsChanges (msg_bad_id rawID) w1)
                               | Inr infoAppID \<Rightarrow>
                                   if csrAppID \<noteq> infoAppID
                                   then Some (terminal d iss LabelNeedsChanges (msg_mismatch csrAppID infoAppID) w1)
                                   else challenge_phase lib d iss f req csrAppID w1))))))"

end
