(* ===== verification/Revoke.thy ===== *)
theory Revoke imports GoRegexp Appid Signer Ledger Ghclient begin

text \<open>
  \<open>internal/revoke\<close>: the self-service pipeline (a CMS blob signed with the certificate's key) and
  the privileged one (inputs of an operator), which share the flip of a ledger entry.
\<close>

section \<open>Form\<close>

definition cms_word :: re where
  "cms_word = Alt (lit ''CMS'') (lit ''PKCS7'')"

text \<open>\<open>(?s)-----BEGIN (?:CMS|PKCS7)-----.*?-----END (?:CMS|PKCS7)-----\<close>\<close>

definition cmsBlockRE :: re where
  "cmsBlockRE =
     Cat (lit ''-----BEGIN '') (Cat cms_word (Cat (lit ''-----'') (Cat (Star False (Cls any_char))
       (Cat (lit ''-----END '') (Cat cms_word (lit ''-----''))))))"

record form =
  CMS :: string

definition parseForm :: "string \<Rightarrow> form result" where
  "parseForm body =
     (let block = re_find cmsBlockRE body
      in if block = [] then Inl (Errorf ''no PEM CMS revocation request block found'')
         else Inr \<lparr>CMS = block\<rparr>)"

section \<open>Collaborators\<close>

definition LabelInvalid :: string where "LabelInvalid = ''invalid''"
definition LabelRevoked :: string where "LabelRevoked = ''revoked''"

definition maxLedgerRetries :: nat where
  "maxLedgerRetries = 5"

record 'w deps =
  RevGH :: "'w github"
  RevVerifier :: "'w verifier"
  RevClock :: "'w \<Rightarrow> time \<times> 'w"

definition terminal :: "'w deps \<Rightarrow> issue \<Rightarrow> string \<Rightarrow> string \<Rightarrow> ('w, unit) io" where
  "terminal d iss label comment w =
     (case PostComment (RevGH d) (Number iss) comment w of
        (Inl e, w1) \<Rightarrow> (Inl (Wrap (''revoke: post '' @ label @ '' comment: '') e []), w1)
      | (Inr u, w1) \<Rightarrow> SetLabels (RevGH d) (Number iss) [label] [] w1)"

fun hasLabel :: "string list \<Rightarrow> string \<Rightarrow> bool" where
  "hasLabel [] want = False"
| "hasLabel (l # ls) want = (if l = want then True else hasLabel ls want)"

section \<open>The flip\<close>

text \<open>Only the operations on GitHub are used, so that the loader and the loop take these.\<close>

definition loadLedger :: "'w github \<Rightarrow> string \<Rightarrow> ('w, ledger option \<times> string) io" where
  "loadLedger gh appID w =
     (case GetLedger gh appID w of
        (Inl e, w1) \<Rightarrow>
          if errors_is e ErrNotFound then (Inr (None, []), w1)
          else (Inl (Wrap ''revoke: read ledger: '' e []), w1)
      | (Inr (data, sha), w1) \<Rightarrow>
          (case Ledger.Parse data of
             Inl e \<Rightarrow> (Inl (Wrap (''revoke: parse ledger '' @ appID @ '': '') e []), w1)
           | Inr l \<Rightarrow> (Inr (Some l, sha), w1)))"

text \<open>The first index with a property; \<open>None\<close> is the index -1 of the Go functions.\<close>

fun find_index :: "('a \<Rightarrow> bool) \<Rightarrow> 'a list \<Rightarrow> nat option" where
  "find_index p [] = None"
| "find_index p (x # xs) = (if p x then Some 0 else map_option Suc (find_index p xs))"

definition findByFingerprint :: "ledger option \<Rightarrow> string \<Rightarrow> nat option" where
  "findByFingerprint l fp =
     (case l of None \<Rightarrow> None | Some lg \<Rightarrow> find_index (\<lambda>c. CertFingerprint c = fp) (certs lg))"

definition findBySerial :: "ledger option \<Rightarrow> string \<Rightarrow> nat option" where
  "findBySerial l serial =
     (case l of None \<Rightarrow> None | Some lg \<Rightarrow> find_index (\<lambda>c. Serial c = serial) (certs lg))"

record revocation =
  RevReason :: string
  RevFrom :: timestamp
  RevActor :: string

type_synonym find_func = "ledger option \<Rightarrow> nat option"

definition flip_cert :: "revocation \<Rightarrow> certificate \<Rightarrow> certificate" where
  "flip_cert rv c =
     c\<lparr>Status := StatusRevoked, RevokedFrom := Some (RevFrom rv), Reason := RevReason rv, Actor := RevActor rv\<rparr>"

definition flip_at :: "nat \<Rightarrow> revocation \<Rightarrow> ledger \<Rightarrow> ledger" where
  "flip_at idx rv l = l\<lparr>Certificates := Some ((certs l)[idx := flip_cert rv (certs l ! idx)])\<rparr>"

definition revoke_message :: "string \<Rightarrow> string \<Rightarrow> string \<Rightarrow> string" where
  "revoke_message serial appID actor =
     (if actor \<noteq> [] then ''ledger: privileged revoke '' @ serial @ '' for '' @ appID @ '' ('' @ actor @ '')''
      else ''ledger: revoke '' @ serial @ '' for '' @ appID)"

fun apply_loop ::
  "'w github \<Rightarrow> string \<Rightarrow> find_func \<Rightarrow> revocation \<Rightarrow> nat \<Rightarrow> go_error option \<Rightarrow> ledger option \<Rightarrow> string
     \<Rightarrow> ('w, string) io" where
  "apply_loop gh appID fnd rv 0 lastConflict l prevSHA w =
     (let msg = ''revoke: ledger write for '' @ appID @ '' conflicted after '' @ show_nat maxLedgerRetries @ '' retries: ''
      in (Inl (case lastConflict of None \<Rightarrow> Errorf (msg @ ''%!w(<nil>)'') | Some e \<Rightarrow> Wrap msg e []), w))"
| "apply_loop gh appID fnd rv (Suc n) lastConflict l prevSHA w =
     (case (fnd l, l) of
        (Some idx, Some lg) \<Rightarrow>
          let serial = Serial (certs lg ! idx) in
          (case Marshal (flip_at idx rv lg) of
             Inl e \<Rightarrow> (Inl (Wrap ''revoke: marshal ledger: '' e []), w)
           | Inr data \<Rightarrow>
               (case PutLedger gh appID data prevSHA (revoke_message serial appID (RevActor rv)) w of
                  (Inr u, w1) \<Rightarrow> (Inr serial, w1)
                | (Inl e, w1) \<Rightarrow>
                    if \<not> errors_is e ErrConflict then (Inl (Wrap ''revoke: write ledger: '' e []), w1)
                    else (case loadLedger gh appID w1 of
                            (Inl e2, w2) \<Rightarrow> (Inl e2, w2)
                          | (Inr (l2, sha2), w2) \<Rightarrow> apply_loop gh appID fnd rv n (Some e) l2 sha2 w2)))
      | _ \<Rightarrow> (Inl (Errorf (''revoke: target cert vanished from ledger '' @ appID @ '' during retry'')), w))"

definition applyRevocation ::
  "'w github \<Rightarrow> string \<Rightarrow> find_func \<Rightarrow> revocation \<Rightarrow> ledger option \<Rightarrow> string \<Rightarrow> ('w, string) io" where
  "applyRevocation gh appID fnd rv l prevSHA w =
     apply_loop gh appID fnd rv maxLedgerRetries None l prevSHA w"

section \<open>Self-service\<close>

definition msg_bad_form :: "go_error \<Rightarrow> string" where
  "msg_bad_form e = ''Could not read a CMS revocation request from this issue: '' @ error_text e @ ''.''"

definition msg_bad_cms :: string where
  "msg_bad_cms =
     ''The CMS revocation request could not be verified. Ensure it was produced by `openssl cms -sign` with your certificate's private key.''"

definition msg_bad_cn :: "string \<Rightarrow> string" where
  "msg_bad_cn cn =
     ''The certificate CommonName '' @ go_quote cn @ '' is not a valid appId; it cannot be one of our issued certificates.''"

definition msg_no_match :: "string \<Rightarrow> string \<Rightarrow> string" where
  "msg_no_match fp appID =
     ''No matching issued certificate ('' @ fp @ '') was found in the ledger for `'' @ appID @ ''`.''"

definition msg_already :: string where
  "msg_already = ''This certificate is already revoked; nothing to do.''"

definition revoked_body :: "string \<Rightarrow> string \<Rightarrow> timestamp \<Rightarrow> string" where
  "revoked_body serial appID t =
     ''Certificate `'' @ serial @ ''` for `'' @ appID @ ''` has been revoked, effective '' @ format_utc t @ ''.''"

definition deliver :: "'w deps \<Rightarrow> issue \<Rightarrow> string \<Rightarrow> ('w, unit) io" where
  "deliver d iss body w =
     (case PostComment (RevGH d) (Number iss) body w of
        (Inl e, w1) \<Rightarrow> (Inl (Wrap ''revoke: post revoked comment: '' e []), w1)
      | (Inr u, w1) \<Rightarrow>
          (case SetLabels (RevGH d) (Number iss) [LabelRevoked] [] w1 of
             (Inl e, w2) \<Rightarrow> (Inl (Wrap ''revoke: set revoked label: '' e []), w2)
           | (Inr u2, w2) \<Rightarrow> CloseIssue (RevGH d) (Number iss) w2))"

definition already_revoked :: "'w deps \<Rightarrow> issue \<Rightarrow> ('w, unit) io" where
  "already_revoked d iss w =
     (case terminal d iss LabelRevoked msg_already w of
        (Inl e, w1) \<Rightarrow> (Inl e, w1)
      | (Inr u, w1) \<Rightarrow> CloseIssue (RevGH d) (Number iss) w1)"

definition match_and_revoke :: "'w crypto_lib \<Rightarrow> 'w deps \<Rightarrow> issue \<Rightarrow> cms_result \<Rightarrow> string \<Rightarrow> ('w, unit) io" where
  "match_and_revoke lib d iss res appID w =
     (let fp = Fingerprint lib (Raw (SignerCert res)) in
      case loadLedger (RevGH d) appID w of
        (Inl e, w1) \<Rightarrow> (Inl e, w1)
      | (Inr (l, prevSHA), w1) \<Rightarrow>
          (case (findByFingerprint l fp, l) of
             (Some idx, Some lg) \<Rightarrow>
               if Status (certs lg ! idx) = StatusRevoked then already_revoked d iss w1
               else (let revokedFrom = NotBefore (certs lg ! idx) in
                     case applyRevocation (RevGH d) appID (\<lambda>lg. findByFingerprint lg fp)
                            \<lparr>RevReason = ''self-service'', RevFrom = revokedFrom, RevActor = []\<rparr> l prevSHA w1 of
                       (Inl e, w2) \<Rightarrow> (Inl e, w2)
                     | (Inr serial, w2) \<Rightarrow> deliver d iss (revoked_body serial appID revokedFrom) w2)
           | _ \<Rightarrow> terminal d iss LabelInvalid (msg_no_match fp appID) w1))"

definition Process :: "'w crypto_lib \<Rightarrow> 'w deps \<Rightarrow> issue \<Rightarrow> ('w, unit) io" where
  "Process lib d iss w =
     (if hasLabel (Labels iss) LabelRevoked then (Inr (), w)
      else case parseForm (IssueBody iss) of
        Inl e \<Rightarrow> terminal d iss LabelInvalid (msg_bad_form e) w
      | Inr f \<Rightarrow>
          (case Verify (RevVerifier d) (CMS f) w of
             (Inl e, w1) \<Rightarrow>
               if errors_is e ErrInvalidCMS then terminal d iss LabelInvalid msg_bad_cms w1
               else (Inl (Wrap ''revoke: verify cms: '' e []), w1)
           | (Inr res, w1) \<Rightarrow>
               (case Canonicalize (CommonName (Subject (SignerCert res))) of
                  Inl e \<Rightarrow> terminal d iss LabelInvalid (msg_bad_cn (CommonName (Subject (SignerCert res)))) w1
                | Inr appID \<Rightarrow> match_and_revoke lib d iss res appID w1)))"

section \<open>Privileged\<close>

record 'w privileged_deps =
  PrivGH :: "'w github"
  PrivClock :: "'w \<Rightarrow> time \<times> 'w"

record privileged_request =
  PrivAppID :: string
  PrivSerial :: string
  PrivReason :: string
  PrivRevokedFrom :: "time option"
  PrivActor :: string

text \<open>The inputs: the error of the first bad one.\<close>

definition check_request :: "privileged_request \<Rightarrow> go_error option" where
  "check_request req =
     (case ValidateStrict (PrivAppID req) of
        Inl e \<Rightarrow> Some (Wrap (''privrevoke: appId '' @ go_quote (PrivAppID req) @ '' is not a valid appId: '') e [])
      | Inr a \<Rightarrow>
          if trim_space (PrivSerial req) = [] then Some (Errorf ''privrevoke: serial is required'')
          else if PrivReason req = [] then Some (Errorf ''privrevoke: reason is required'')
          else if PrivActor req = [] then Some (Errorf ''privrevoke: actor is required'')
          else None)"

text \<open>The date of the flip: the operator's, not before the certificate's, or the certificate's.\<close>

definition resolve_from :: "time option \<Rightarrow> timestamp \<Rightarrow> timestamp result" where
  "resolve_from wanted nb =
     (case wanted of
        None \<Rightarrow> Inr nb
      | Some rf \<Rightarrow>
          if rf < nb
          then Inl (Errorf (''privrevoke: revokedFrom '' @ format_utc rf @ '' is before the cert's notBefore '' @ format_utc nb))
          else Inr rf)"

definition PrivilegedProcess :: "'w privileged_deps \<Rightarrow> privileged_request \<Rightarrow> ('w, unit) io" where
  "PrivilegedProcess d req w =
     (case check_request req of
        Some e \<Rightarrow> (Inl e, w)
      | None \<Rightarrow>
          let serial = trim_space (PrivSerial req) in
          (case loadLedger (PrivGH d) (PrivAppID req) w of
             (Inl e, w1) \<Rightarrow> (Inl e, w1)
           | (Inr (None, prevSHA), w1) \<Rightarrow>
               (Inl (Errorf (''privrevoke: no ledger for appId '' @ go_quote (PrivAppID req))), w1)
           | (Inr (Some l, prevSHA), w1) \<Rightarrow>
               (case findBySerial (Some l) serial of
                  None \<Rightarrow>
                    (Inl (Errorf (''privrevoke: serial '' @ go_quote serial @ '' not found in ledger for ''
                                  @ go_quote (PrivAppID req))), w1)
                | Some idx \<Rightarrow>
                    (case resolve_from (PrivRevokedFrom req) (NotBefore (certs l ! idx)) of
                       Inl e \<Rightarrow> (Inl e, w1)
                     | Inr revokedFrom \<Rightarrow>
                         (case applyRevocation (PrivGH d) (PrivAppID req) (\<lambda>lg. findBySerial lg serial)
                                 \<lparr>RevReason = PrivReason req, RevFrom = revokedFrom, RevActor = PrivActor req\<rparr>
                                 (Some l) prevSHA w1 of
                            (Inl e, w2) \<Rightarrow> (Inl e, w2)
                          | (Inr s, w2) \<Rightarrow> (Inr (), w2))))))"

end
