(* ===== verification/LedgerStore.thy ===== *)
theory LedgerStore imports Ghclient Ledger begin

text \<open>
  The contract of the ledger files that both pipelines rely on, as a locale: every file has a
  history of versions, the latest first, which only grows; a read gives the latest version, a
  write that names the SHA of a version, or no SHA for a file to create, succeeds only on top of
  that version. Other writers may add versions
  at any time. What follows for a client that reads, changes and writes is proved once.
\<close>

type_synonym version = "string \<times> string"

definition current_sha :: "version list \<Rightarrow> string" where
  "current_sha vs = (case vs of [] \<Rightarrow> [] | (c, s) # older \<Rightarrow> s)"

definition extends :: "('w \<Rightarrow> string \<Rightarrow> version list) \<Rightarrow> 'w \<Rightarrow> 'w \<Rightarrow> bool" where
  "extends hist w w' \<longleftrightarrow> (\<forall>a. suffix (hist w a) (hist w' a))"

lemma extends_refl [simp]: "extends hist w w"
  by (simp add: extends_def)

lemma extends_trans [trans]: "extends hist w w1 \<Longrightarrow> extends hist w1 w2 \<Longrightarrow> extends hist w w2"
  unfolding extends_def using suffix_order.trans by blast

lemma extends_mem: "extends hist w w' \<Longrightarrow> v \<in> set (hist w a) \<Longrightarrow> v \<in> set (hist w' a)"
  unfolding extends_def using set_mono_suffix by blast

text \<open>The ledger a version list stands for.\<close>

definition latest :: "version list \<Rightarrow> ledger option \<Rightarrow> bool" where
  "latest vs ex \<longleftrightarrow>
     (case vs of [] \<Rightarrow> ex = None | (c, s) # older \<Rightarrow> \<exists>l. ex = Some l \<and> Ledger.Parse c = Inr l)"

text \<open>The SHA of some version of the file, or none.\<close>

definition known_sha :: "version list \<Rightarrow> string \<Rightarrow> bool" where
  "known_sha vs p \<longleftrightarrow> p = [] \<or> p \<in> snd ` set vs"

text \<open>A ledger and SHA that were read from some version of the file.\<close>

definition was_read :: "version list \<Rightarrow> ledger option \<Rightarrow> string \<Rightarrow> bool" where
  "was_read vs ex sha \<longleftrightarrow>
     (case ex of None \<Rightarrow> sha = [] | Some l \<Rightarrow> \<exists>c. (c, sha) \<in> set vs \<and> Ledger.Parse c = Inr l)"

lemma was_read_known: "was_read vs ex sha \<Longrightarrow> known_sha vs sha"
  by (auto simp: was_read_def known_sha_def image_iff split: option.splits intro!: bexI)

lemma was_read_extends: "was_read (hist w a) ex sha \<Longrightarrow> extends hist w w' \<Longrightarrow> was_read (hist w' a) ex sha"
  by (auto simp: was_read_def split: option.splits dest: extends_mem)

locale ledger_files =
  fixes gh :: "'w github"
    and hist :: "'w \<Rightarrow> string \<Rightarrow> version list"
    and good :: "'w \<Rightarrow> bool"
  assumes get_keeps: "good w \<Longrightarrow> GetLedger gh a w = (r, w') \<Longrightarrow> good w' \<and> extends hist w w'"
    and get_found: "good w \<Longrightarrow> GetLedger gh a w = (Inr (c, s), w') \<Longrightarrow> \<exists>older. hist w' a = (c, s) # older"
    and put_keeps: "good w \<Longrightarrow> PutLedger gh a c p m w = (ur, w') \<Longrightarrow> good w' \<and> extends hist w w'"
    and put_done: "good w \<Longrightarrow> known_sha (hist w a) p \<Longrightarrow> PutLedger gh a c p m w = (Inr u, w') \<Longrightarrow>
      \<exists>s older. hist w' a = (c, s) # older \<and> suffix (hist w a) older \<and> p = current_sha older"
    and sha_content: "good w \<Longrightarrow> (c, s) \<in> set (hist w a) \<Longrightarrow> (c', s) \<in> set (hist w a) \<Longrightarrow> c = c'"
    and sha_nonempty: "good w \<Longrightarrow> (c, s) \<in> set (hist w a) \<Longrightarrow> s \<noteq> []"
begin

text \<open>A version that names the version it stands on was made from that version.\<close>

lemma made_from:
  assumes w': "good w'" and read: "was_read (hist w a) ex sha" and before: "suffix (hist w a) older"
    and top: "hist w' a = v # older" and sha: "sha = current_sha older"
  shows "latest older ex"
proof (cases older)
  case Nil
  then have "sha = []" "hist w a = []" using before sha by (simp_all add: current_sha_def)
  then show ?thesis using read Nil by (auto simp: was_read_def latest_def split: option.splits)
next
  case (Cons v0 older')
  obtain c0 s0 where v: "v0 = (c0, s0)" by (cases v0)
  then have mem: "(c0, s0) \<in> set (hist w' a)" and sha: "sha = s0"
    using sha top Cons by (auto simp: current_sha_def)
  have "sha \<noteq> []" using sha_nonempty [OF w' mem] sha by simp
  then obtain l c where ex: "ex = Some l" "(c, sha) \<in> set (hist w a)" "Ledger.Parse c = Inr l"
    using read by (auto simp: was_read_def split: option.splits)
  have "(c, sha) \<in> set (hist w' a)"
    using ex(2) set_mono_suffix [OF before] top by auto
  then have "c = c0" using sha_content [OF w'] mem sha by blast
  then show ?thesis using ex Cons v by (simp add: latest_def)
qed

text \<open>A write that succeeds stands directly on the version its content was made from.\<close>

lemma put_on_top:
  assumes w: "good w" and read: "was_read (hist w a) ex sha"
    and put: "PutLedger gh a data sha m w = (Inr u, w')"
  shows "\<exists>s older. hist w' a = (data, s) # older \<and> suffix (hist w a) older \<and> latest older ex"
proof -
  obtain s older where h: "hist w' a = (data, s) # older" "suffix (hist w a) older" "sha = current_sha older"
    using put_done [OF w was_read_known [OF read] put] by blast
  then show ?thesis using made_from [OF _ read] put_keeps [OF w put] by blast
qed

text \<open>Reading through either pipeline's loader.\<close>

lemma read_found:
  assumes "good w" "GetLedger gh a w = (Inr (data, sha), w')" "Ledger.Parse data = Inr l"
  shows "good w' \<and> extends hist w w' \<and> was_read (hist w' a) (Some l) sha"
proof -
  obtain older where "hist w' a = (data, sha) # older" using get_found [OF assms(1,2)] by blast
  then show ?thesis
    using get_keeps [OF assms(1,2)] assms(3) by (auto simp: was_read_def)
qed

lemma read_missing: "was_read vs None []"
  by (simp add: was_read_def)

end

end
