(* ===== verification/FakeClient.thy ===== *)
theory FakeClient imports Ghclient GoStrings begin

text \<open>
  \<open>internal/ghclient/fake\<close>: the in-memory client, with the optimistic-concurrency rule of the
  Contents API. A Go map is a map, a map of slices a total function with the empty list where
  the key is missing.
\<close>

section \<open>Definitions\<close>

record blob =
  blob_content :: string
  blob_sha :: string

record client =
  Issues :: "issue list"
  RevocationIssues :: "issue list"
  OwnCommentsByIssue :: "int \<Rightarrow> comment list"
  Files :: "string \<Rightarrow> blob option"
  Ledgers :: "string \<Rightarrow> blob option"
  PostedComments :: "int \<Rightarrow> string list"
  LabelsAdded :: "int \<Rightarrow> string list"
  LabelsRemoved :: "int \<Rightarrow> string list"
  Closed :: "int \<Rightarrow> bool"
  FailNextPutWithConflict :: bool
  inaccessibleRepos :: "string \<Rightarrow> bool"
  nextSHA :: nat

definition New :: client where
  "New =
     \<lparr>Issues = [], RevocationIssues = [], OwnCommentsByIssue = (\<lambda>i. []), Files = Map.empty,
      Ledgers = Map.empty, PostedComments = (\<lambda>i. []), LabelsAdded = (\<lambda>i. []), LabelsRemoved = (\<lambda>i. []),
      Closed = (\<lambda>i. False), FailNextPutWithConflict = False, inaccessibleRepos = (\<lambda>r. False), nextSHA = 0\<rparr>"

definition fileKey :: "string \<Rightarrow> string \<Rightarrow> string" where
  "fileKey repo path = repo @ char_of (0 :: nat) # path"

definition MarkRepoInaccessible :: "string \<Rightarrow> client \<Rightarrow> client" where
  "MarkRepoInaccessible repo c = c\<lparr>inaccessibleRepos := (inaccessibleRepos c)(repo := True)\<rparr>"

definition sha_name :: "nat \<Rightarrow> string" where
  "sha_name n = ''sha'' @ show_nat n"

definition mintSHA :: "client \<Rightarrow> string \<times> client" where
  "mintSHA c = (let n = Suc (nextSHA c) in (sha_name n, c\<lparr>nextSHA := n\<rparr>))"

definition SetFile :: "string \<Rightarrow> string \<Rightarrow> string \<Rightarrow> client \<Rightarrow> client" where
  "SetFile repo path ct c =
     (case mintSHA c of (s, c1) \<Rightarrow> c1\<lparr>Files := (Files c1)(fileKey repo path \<mapsto> \<lparr>blob_content = ct, blob_sha = s\<rparr>)\<rparr>)"

definition SetLedger :: "string \<Rightarrow> string \<Rightarrow> client \<Rightarrow> string \<times> client" where
  "SetLedger appID ct c =
     (case mintSHA c of (s, c1) \<Rightarrow> (s, c1\<lparr>Ledgers := (Ledgers c1)(appID \<mapsto> \<lparr>blob_content = ct, blob_sha = s\<rparr>)\<rparr>))"

definition fake_ListOpenCertRequests :: "(client, issue list) io" where
  "fake_ListOpenCertRequests c = (Inr (Issues c), c)"

definition fake_ListOpenRevocationRequests :: "(client, issue list) io" where
  "fake_ListOpenRevocationRequests c = (Inr (RevocationIssues c), c)"

definition fake_OwnComments :: "int \<Rightarrow> (client, comment list) io" where
  "fake_OwnComments i c = (Inr (OwnCommentsByIssue c i), c)"

definition fake_PostComment :: "int \<Rightarrow> string \<Rightarrow> (client, unit) io" where
  "fake_PostComment i b c = (Inr (), c\<lparr>PostedComments := (PostedComments c)(i := PostedComments c i @ [b])\<rparr>)"

definition fake_SetLabels :: "int \<Rightarrow> string list \<Rightarrow> string list \<Rightarrow> (client, unit) io" where
  "fake_SetLabels i add remove c =
     (Inr (), c\<lparr>LabelsAdded := (LabelsAdded c)(i := LabelsAdded c i @ add),
               LabelsRemoved := (LabelsRemoved c)(i := LabelsRemoved c i @ remove)\<rparr>)"

definition fake_CloseIssue :: "int \<Rightarrow> (client, unit) io" where
  "fake_CloseIssue i c = (Inr (), c\<lparr>Closed := (Closed c)(i := True)\<rparr>)"

definition fake_GetFile :: "string \<Rightarrow> string \<Rightarrow> (client, string \<times> string) io" where
  "fake_GetFile repo path c =
     (if inaccessibleRepos c repo then (Inl ErrNotFound, c)
      else case Files c (fileKey repo path) of
             None \<Rightarrow> (Inl ErrNotFound, c)
           | Some b \<Rightarrow> (Inr (blob_content b, blob_sha b), c))"

definition fake_RepoAccessible :: "string \<Rightarrow> (client, bool) io" where
  "fake_RepoAccessible repo c = (Inr (\<not> inaccessibleRepos c repo), c)"

definition fake_GetLedger :: "string \<Rightarrow> (client, string \<times> string) io" where
  "fake_GetLedger appID c =
     (case Ledgers c appID of None \<Rightarrow> (Inl ErrNotFound, c) | Some b \<Rightarrow> (Inr (blob_content b, blob_sha b), c))"

definition checkPrevSHA :: "blob option \<Rightarrow> string \<Rightarrow> client \<Rightarrow> go_error option \<times> client" where
  "checkPrevSHA existing prevSHA c =
     (if FailNextPutWithConflict c then (Some ErrConflict, c\<lparr>FailNextPutWithConflict := False\<rparr>)
      else case existing of
             None \<Rightarrow> (if prevSHA \<noteq> [] then Some ErrConflict else None, c)
           | Some b \<Rightarrow> (if blob_sha b \<noteq> prevSHA then Some ErrConflict else None, c))"

definition fake_PutLedger :: "string \<Rightarrow> string \<Rightarrow> string \<Rightarrow> string \<Rightarrow> (client, unit) io" where
  "fake_PutLedger appID ct prevSHA msg c =
     (case checkPrevSHA (Ledgers c appID) prevSHA c of
        (Some e, c1) \<Rightarrow> (Inl e, c1)
      | (None, c1) \<Rightarrow>
          (case mintSHA c1 of
             (s, c2) \<Rightarrow> (Inr (), c2\<lparr>Ledgers := (Ledgers c2)(appID \<mapsto> \<lparr>blob_content = ct, blob_sha = s\<rparr>)\<rparr>)))"

definition fake_PutFile :: "string \<Rightarrow> string \<Rightarrow> string \<Rightarrow> string \<Rightarrow> string \<Rightarrow> (client, unit) io" where
  "fake_PutFile repo path ct prevSHA msg c =
     (case checkPrevSHA (Files c (fileKey repo path)) prevSHA c of
        (Some e, c1) \<Rightarrow> (Inl e, c1)
      | (None, c1) \<Rightarrow>
          (case mintSHA c1 of
             (s, c2) \<Rightarrow> (Inr (), c2\<lparr>Files := (Files c2)(fileKey repo path \<mapsto> \<lparr>blob_content = ct, blob_sha = s\<rparr>)\<rparr>)))"

definition fake_github :: "client github" where
  "fake_github =
     \<lparr>ListOpenCertRequests = fake_ListOpenCertRequests,
      ListOpenRevocationRequests = fake_ListOpenRevocationRequests,
      OwnComments = fake_OwnComments, PostComment = fake_PostComment, SetLabels = fake_SetLabels,
      CloseIssue = fake_CloseIssue, GetFile = fake_GetFile, RepoAccessible = fake_RepoAccessible,
      GetLedger = fake_GetLedger, PutLedger = fake_PutLedger, PutFile = fake_PutFile\<rparr>"

lemma fake_github_simps [simp]:
  "ListOpenCertRequests fake_github = fake_ListOpenCertRequests"
  "ListOpenRevocationRequests fake_github = fake_ListOpenRevocationRequests"
  "OwnComments fake_github = fake_OwnComments" "PostComment fake_github = fake_PostComment"
  "SetLabels fake_github = fake_SetLabels" "CloseIssue fake_github = fake_CloseIssue"
  "GetFile fake_github = fake_GetFile" "RepoAccessible fake_github = fake_RepoAccessible"
  "GetLedger fake_github = fake_GetLedger" "PutLedger fake_github = fake_PutLedger"
  "PutFile fake_github = fake_PutFile"
  by (simp_all add: fake_github_def)

end
