(* ===== verification/Contention.thy ===== *)
theory Contention imports LedgerStore FakeClient GoDecode begin

text \<open>
  The in-memory client shared with other writers: before each access to a ledger a batch of
  foreign writes happens, any batch at any time, and the history of each file is kept beside the
  client. This is the model the contract of the ledger files is discharged on.
\<close>

record shared =
  Client :: client
  History :: "string \<Rightarrow> version list"
  Pending :: "(string \<times> string) list list"

section \<open>Operations\<close>

definition record_version :: "string \<Rightarrow> client \<Rightarrow> shared \<Rightarrow> shared" where
  "record_version a c w =
     (case Ledgers c a of
        None \<Rightarrow> w\<lparr>Client := c\<rparr>
      | Some b \<Rightarrow> w\<lparr>Client := c, History := (History w)(a := (blob_content b, blob_sha b) # History w a)\<rparr>)"

definition foreign_write :: "string \<times> string \<Rightarrow> shared \<Rightarrow> shared" where
  "foreign_write ac w = (case SetLedger (fst ac) (snd ac) (Client w) of (s, c) \<Rightarrow> record_version (fst ac) c w)"

definition interfere :: "shared \<Rightarrow> shared" where
  "interfere w =
     (case Pending w of [] \<Rightarrow> w | batch # later \<Rightarrow> fold foreign_write batch (w\<lparr>Pending := later\<rparr>))"

definition lift_client :: "(client, 'a) io \<Rightarrow> (shared, 'a) io" where
  "lift_client f w = (case f (Client w) of (r, c) \<Rightarrow> (r, w\<lparr>Client := c\<rparr>))"

definition shared_GetLedger :: "string \<Rightarrow> (shared, string \<times> string) io" where
  "shared_GetLedger a w = lift_client (fake_GetLedger a) (interfere w)"

definition shared_PutLedger :: "string \<Rightarrow> string \<Rightarrow> string \<Rightarrow> string \<Rightarrow> (shared, unit) io" where
  "shared_PutLedger a ct p m w =
     (let w1 = interfere w in
      case fake_PutLedger a ct p m (Client w1) of
        (Inl e, c) \<Rightarrow> (Inl e, w1\<lparr>Client := c\<rparr>)
      | (Inr u, c) \<Rightarrow> (Inr u, record_version a c w1))"

definition shared_github :: "shared github" where
  "shared_github =
     \<lparr>ListOpenCertRequests = lift_client fake_ListOpenCertRequests,
      ListOpenRevocationRequests = lift_client fake_ListOpenRevocationRequests,
      OwnComments = (\<lambda>i. lift_client (fake_OwnComments i)),
      PostComment = (\<lambda>i b. lift_client (fake_PostComment i b)),
      SetLabels = (\<lambda>i a r. lift_client (fake_SetLabels i a r)),
      CloseIssue = (\<lambda>i. lift_client (fake_CloseIssue i)),
      GetFile = (\<lambda>r p. lift_client (fake_GetFile r p)),
      RepoAccessible = (\<lambda>r. lift_client (fake_RepoAccessible r)),
      GetLedger = shared_GetLedger, PutLedger = shared_PutLedger,
      PutFile = (\<lambda>r f ct p m. lift_client (fake_PutFile r f ct p m))\<rparr>"

section \<open>The invariant\<close>

definition minted_sha :: "nat \<Rightarrow> string \<Rightarrow> bool" where
  "minted_sha n s \<longleftrightarrow> (\<exists>k. 0 < k \<and> k \<le> n \<and> s = sha_name k)"

definition head_is :: "blob option \<Rightarrow> version list \<Rightarrow> bool" where
  "head_is b vs \<longleftrightarrow> (case b of None \<Rightarrow> vs = [] | Some x \<Rightarrow> \<exists>older. vs = (blob_content x, blob_sha x) # older)"

lemma head_is_simps [simp]: "head_is None vs \<longleftrightarrow> vs = []"
  "head_is (Some x) vs \<longleftrightarrow> (\<exists>older. vs = (blob_content x, blob_sha x) # older)"
  by (simp_all add: head_is_def)

definition consistent :: "shared \<Rightarrow> bool" where
  "consistent w \<longleftrightarrow>
     (\<forall>a. distinct (map snd (History w a)) \<and>
          list_all (\<lambda>(c, s). minted_sha (nextSHA (Client w)) s) (History w a) \<and>
          head_is (Ledgers (Client w) a) (History w a))"

lemma show_nat_inject: "show_nat m = show_nat n \<longleftrightarrow> m = n"
  by (metis decimal_show_nat of_nat_eq_iff)

lemma sha_name_inject [simp]: "sha_name m = sha_name n \<longleftrightarrow> m = n"
  by (simp add: sha_name_def show_nat_inject)

lemma sha_name_nonempty [simp]: "sha_name n \<noteq> []" "[] \<noteq> sha_name n"
  by (simp_all add: sha_name_def)

lemma minted_sha_mono: "minted_sha n s \<Longrightarrow> n \<le> m \<Longrightarrow> minted_sha m s"
  unfolding minted_sha_def using le_trans by blast

lemma minted_sha_fresh: "\<not> minted_sha n (sha_name (Suc n))"
  by (auto simp: minted_sha_def)

lemma consistent_record:
  assumes w: "consistent w" and c: "nextSHA c = Suc (nextSHA (Client w))"
    "Ledgers c = (Ledgers (Client w))(a \<mapsto> \<lparr>blob_content = ct, blob_sha = sha_name (Suc (nextSHA (Client w)))\<rparr>)"
  shows "consistent (record_version a c w) \<and> extends History w (record_version a c w) \<and>
    History (record_version a c w) a = (ct, sha_name (Suc (nextSHA (Client w)))) # History w a"
proof -
  let ?n = "nextSHA (Client w)" and ?s = "sha_name (Suc (nextSHA (Client w)))"
  have r: "record_version a c w = w\<lparr>Client := c, History := (History w)(a := (ct, ?s) # History w a)\<rparr>"
    by (simp add: record_version_def c(2))
  have fresh: "?s \<notin> snd ` set (History w a)"
    using w minted_sha_fresh [of ?n] by (fastforce simp: consistent_def list_all_iff)
  have old: "list_all (\<lambda>(c, s). minted_sha (Suc ?n) s) (History w b)" for b
    using w minted_sha_mono [of ?n _ "Suc ?n"] by (fastforce simp: consistent_def list_all_iff)
  have new: "minted_sha (Suc ?n) ?s" by (auto simp: minted_sha_def)
  have "consistent (record_version a c w)"
    unfolding consistent_def r using w fresh old new c by (auto simp: consistent_def)
  then show ?thesis unfolding r by (auto simp: extends_def suffix_ConsI)
qed

lemma foreign_write_keeps:
  "consistent w \<Longrightarrow> consistent (foreign_write ac w) \<and> extends History w (foreign_write ac w)"
  using consistent_record [of w _ "fst ac" "snd ac"]
  by (simp add: foreign_write_def SetLedger_def mintSHA_def Let_def)

lemma foreign_writes_keep:
  "consistent w \<Longrightarrow> consistent (fold foreign_write b w) \<and> extends History w (fold foreign_write b w)"
proof (induction b arbitrary: w)
  case (Cons ac b)
  then show ?case using foreign_write_keeps [of w ac] extends_trans by fastforce
qed simp

lemma interfere_keeps: "consistent w \<Longrightarrow> consistent (interfere w) \<and> extends History w (interfere w)"
proof (cases "Pending w")
  case (Cons batch later)
  assume "consistent w"
  then have c: "consistent (w\<lparr>Pending := later\<rparr>)" by (simp add: consistent_def)
  show ?thesis
    using foreign_writes_keep [OF c, of batch] Cons by (simp add: interfere_def extends_def)
qed (simp add: interfere_def)

lemma consistent_same_ledgers:
  "consistent w \<Longrightarrow> Ledgers c = Ledgers (Client w) \<Longrightarrow> nextSHA c = nextSHA (Client w) \<Longrightarrow>
     consistent (w\<lparr>Client := c\<rparr>) \<and> extends History w (w\<lparr>Client := c\<rparr>)"
  by (simp add: consistent_def extends_def)

lemma get_world:
  "consistent w \<Longrightarrow> shared_GetLedger a w = (r, w') \<Longrightarrow> w' = interfere w"
  by (auto simp: shared_GetLedger_def lift_client_def fake_GetLedger_def split: option.splits)

lemma put_world:
  assumes "consistent w" "shared_PutLedger a ct p m w = (r, w')"
  shows "consistent w' \<and> extends History w w' \<and>
    (\<forall>u. r = Inr u \<longrightarrow> (\<exists>s. History w' a = (ct, s) # History (interfere w) a \<and> p = current_sha (History (interfere w) a)))"
proof -
  let ?w1 = "interfere w"
  have w1: "consistent ?w1" "extends History w ?w1" using interfere_keeps [OF assms(1)] by auto
  obtain chk c1 where chk: "checkPrevSHA (Ledgers (Client ?w1) a) p (Client ?w1) = (chk, c1)" by fastforce
  have same: "Ledgers c1 = Ledgers (Client ?w1)" "nextSHA c1 = nextSHA (Client ?w1)"
    using chk by (auto simp: checkPrevSHA_def split: if_splits option.splits)
  show ?thesis
  proof (cases chk)
    case (Some e)
    then have "r = Inl e" "w' = ?w1\<lparr>Client := c1\<rparr>"
      using assms(2) chk by (auto simp: shared_PutLedger_def fake_PutLedger_def Let_def)
    then show ?thesis
      using consistent_same_ledgers [OF w1(1) same] extends_trans [OF w1(2)] by simp
  next
    case None
    let ?c = "c1\<lparr>nextSHA := Suc (nextSHA c1), Ledgers := (Ledgers c1)(a \<mapsto> \<lparr>blob_content = ct, blob_sha = sha_name (Suc (nextSHA c1))\<rparr>)\<rparr>"
    have w': "w' = record_version a ?c ?w1"
      using assms(2) chk None
      by (auto simp: shared_PutLedger_def fake_PutLedger_def mintSHA_def Let_def)
    have rec: "consistent w' \<and> extends History ?w1 w' \<and>
        History w' a = (ct, sha_name (Suc (nextSHA (Client ?w1)))) # History ?w1 a"
      unfolding w' by (rule consistent_record [OF w1(1)]) (simp_all add: same)
    have "head_is (Ledgers (Client ?w1) a) (History ?w1 a)"
      using w1(1) by (simp add: consistent_def)
    then have "p = current_sha (History ?w1 a)"
      using chk None
      by (cases "Ledgers (Client ?w1) a") (auto simp: checkPrevSHA_def current_sha_def split: if_splits)
    then show ?thesis using rec extends_trans [OF w1(2), of w'] by simp
  qed
qed

lemma suffix_of_extends: "extends hist w w' \<Longrightarrow> suffix (hist w a) (hist w' a)"
  by (simp add: extends_def)

lemma get_found_shared:
  assumes "consistent w" "shared_GetLedger a w = (Inr (ct, s), w')"
  shows "\<exists>older. History w' a = (ct, s) # older"
proof -
  let ?w1 = "interfere w"
  have "head_is (Ledgers (Client ?w1) a) (History ?w1 a)"
    using interfere_keeps [OF assms(1)] by (simp add: consistent_def)
  moreover have "w' = ?w1" using get_world [OF assms] .
  ultimately show ?thesis
    using assms(2) by (auto simp: shared_GetLedger_def lift_client_def fake_GetLedger_def split: option.splits)
qed

lemma sha_content_shared:
  assumes "consistent w" "(c, s) \<in> set (History w a)" "(c', s) \<in> set (History w a)"
  shows "c = c'"
proof -
  have "distinct (map snd (History w a))" using assms(1) by (simp add: consistent_def)
  then show ?thesis using assms(2,3) by (metis inj_on_eq_iff distinct_map prod.inject snd_conv)
qed

lemma sha_nonempty_shared: "consistent w \<Longrightarrow> (c, s) \<in> set (History w a) \<Longrightarrow> s \<noteq> []"
  by (auto simp: consistent_def list_all_iff minted_sha_def dest!: bspec spec [of _ a])

interpretation shared_files: ledger_files shared_github History consistent
proof unfold_locales
  fix w a r w' assume w: "consistent w" and g: "GetLedger shared_github a w = (r, w')"
  then have "w' = interfere w" using get_world by (simp add: shared_github_def)
  then show "consistent w' \<and> extends History w w'" using interfere_keeps [OF w] by simp
next
  fix w a c s w' assume "consistent w" "GetLedger shared_github a w = (Inr (c, s), w')"
  then show "\<exists>older. History w' a = (c, s) # older" by (simp add: shared_github_def get_found_shared)
next
  fix w a c p m ur w' assume "consistent w" "PutLedger shared_github a c p m w = (ur, w')"
  then show "consistent w' \<and> extends History w w'"
    using put_world [of w a c p m ur w'] by (simp add: shared_github_def)
next
  fix w a c p m u w' assume w: "consistent w" and p: "PutLedger shared_github a c p m w = (Inr u, w')"
  have "suffix (History w a) (History (interfere w) a)"
    by (rule suffix_of_extends) (use interfere_keeps [OF w] in blast)
  then show "\<exists>s older. History w' a = (c, s) # older \<and> suffix (History w a) older \<and> p = current_sha older"
    using put_world [OF w, of a c p m "Inr u" w'] p by (auto simp: shared_github_def)
next
  fix w c s a c' assume "consistent w" "(c, s) \<in> set (History w a)" "(c', s) \<in> set (History w a)"
  then show "c = c'" by (rule sha_content_shared)
next
  fix w c s a assume "consistent w" "(c, s) \<in> set (History w a)"
  then show "s \<noteq> []" by (rule sha_nonempty_shared)
qed

text \<open>A client with its ledgers as the first versions, and a schedule of foreign writes.\<close>

definition share :: "client \<Rightarrow> (string \<times> string) list list \<Rightarrow> shared" where
  "share c schedule =
     \<lparr>Client = c, History = (\<lambda>a. case Ledgers c a of None \<Rightarrow> [] | Some b \<Rightarrow> [(blob_content b, blob_sha b)]),
      Pending = schedule\<rparr>"

lemma consistent_share:
  "(\<And>a b. Ledgers c a = Some b \<Longrightarrow> minted_sha (nextSHA c) (blob_sha b)) \<Longrightarrow> consistent (share c schedule)"
  by (auto simp: consistent_def share_def split: option.splits)

lemma consistent_share_New: "consistent (share New schedule)"
  by (rule consistent_share) (simp add: New_def)

end
