(* ===== verification/NoLostUpdate.thy ===== *)
theory NoLostUpdate imports Enroll Revoke Contention begin

text \<open>
  The two read-change-write loops as clients of the ledger files: a write that succeeds stands on
  the version it was made from, so that no other writer's version is lost.
\<close>

section \<open>Under the contract\<close>

definition wrote_on_top :: "version list \<Rightarrow> version list \<Rightarrow> (ledger option \<Rightarrow> string \<Rightarrow> bool) \<Rightarrow> bool" where
  "wrote_on_top before vs made \<longleftrightarrow>
     (\<exists>data s older ex. vs = (data, s) # older \<and> suffix before older \<and> latest older ex \<and> made ex data)"

lemma wrote_on_top_mono:
  "wrote_on_top b1 vs made \<Longrightarrow> suffix b b1 \<Longrightarrow> wrote_on_top b vs made"
  unfolding wrote_on_top_def using suffix_order.trans by blast

context ledger_files begin

lemma enroll_load:
  assumes "good w" "GH d = gh" "Enroll.loadLedger d a w = (Inr (ex, sha), w')"
  shows "good w' \<and> extends hist w w' \<and> was_read (hist w' a) ex sha"
proof -
  obtain r where g: "GetLedger gh a w = (r, w')"
    using assms(2,3) by (auto simp: Enroll.loadLedger_def split: prod.splits sum.splits if_splits)
  show ?thesis
  proof (cases r)
    case (Inl e)
    with assms g have "ex = None" "sha = []" by (auto simp: Enroll.loadLedger_def split: if_splits)
    then show ?thesis using get_keeps [OF assms(1) g] by (simp add: read_missing)
  next
    case (Inr ds)
    then obtain data s where r: "r = Inr (data, s)" by (cases ds) auto
    with assms g obtain l where "ex = Some l" "sha = s" "Ledger.Parse data = Inr l"
      by (auto simp: Enroll.loadLedger_def split: sum.splits)
    with read_found [OF assms(1) g [unfolded r]] show ?thesis by simp
  qed
qed

lemma revoke_load:
  assumes "good w" "Revoke.loadLedger gh a w = (Inr (ex, sha), w')"
  shows "good w' \<and> extends hist w w' \<and> was_read (hist w' a) ex sha"
proof -
  obtain r where g: "GetLedger gh a w = (r, w')"
    using assms(2) by (auto simp: Revoke.loadLedger_def split: prod.splits sum.splits if_splits)
  show ?thesis
  proof (cases r)
    case (Inl e)
    with assms g have "ex = None" "sha = []" by (auto simp: Revoke.loadLedger_def split: if_splits)
    then show ?thesis using get_keeps [OF assms(1) g] by (simp add: read_missing)
  next
    case (Inr ds)
    then obtain data s where r: "r = Inr (data, s)" by (cases ds) auto
    with assms g obtain l where "ex = Some l" "sha = s" "Ledger.Parse data = Inr l"
      by (auto simp: Revoke.loadLedger_def split: sum.splits)
    with read_found [OF assms(1) g [unfolded r]] show ?thesis by simp
  qed
qed

lemma commit_on_top:
  assumes "good w" "was_read (hist w a) ex sha" "GH d = gh"
    and "commit_loop d a repo entry now n lc ex sha w = (Inr u, w')"
  shows "wrote_on_top (hist w a) (hist w' a) (\<lambda>ex data. Marshal (next_ledger a repo now entry ex) = Inr data)"
  using assms
proof (induction n arbitrary: lc ex sha w)
  case 0
  then show ?case by (simp add: Let_def)
next
  case (Suc n)
  obtain data where data: "Marshal (next_ledger a repo now entry ex) = Inr data" by (simp add: Marshal_def)
  obtain r w1 where put: "PutLedger gh a data sha (issue_message a) w = (r, w1)" by fastforce
  show ?case
  proof (cases r)
    case (Inr v)
    then have "w' = w1" using Suc.prems data put by simp
    then show ?thesis
      using put_on_top [OF Suc.prems(1,2) put [unfolded Inr]] data by (auto simp: wrote_on_top_def)
  next
    case (Inl e)
    then obtain ex2 sha2 w2 where l: "Enroll.loadLedger d a w1 = (Inr (ex2, sha2), w2)"
      and loop: "commit_loop d a repo entry now n (Some e) ex2 sha2 w2 = (Inr u, w')"
      using Suc.prems data put by (auto split: if_splits prod.splits sum.splits)
    have w1: "good w1" "extends hist w w1" using put_keeps [OF Suc.prems(1) put] by auto
    have w2: "good w2" "extends hist w1 w2" "was_read (hist w2 a) ex2 sha2"
      using enroll_load [OF w1(1) Suc.prems(3) l] by auto
    have "suffix (hist w a) (hist w2 a)"
      using extends_trans [OF w1(2) w2(2)] by (simp add: extends_def)
    then show ?thesis using wrote_on_top_mono [OF Suc.IH [OF w2(1,3) Suc.prems(3) loop]] by simp
  qed
qed

lemma apply_on_top:
  assumes "good w" "was_read (hist w a) ex sha"
    and "apply_loop gh a fnd rv n lc ex sha w = (Inr serial, w')"
  shows "wrote_on_top (hist w a) (hist w' a)
    (\<lambda>ex data. \<exists>l idx. ex = Some l \<and> fnd ex = Some idx \<and> Marshal (flip_at idx rv l) = Inr data \<and>
       serial = Serial (certs l ! idx))"
  using assms
proof (induction n arbitrary: lc ex sha w)
  case 0
  then show ?case by (simp add: Let_def)
next
  case (Suc n)
  from Suc.prems(3) obtain idx l where fl: "fnd ex = Some idx" "ex = Some l"
    by (auto split: option.splits)
  let ?serial = "Serial (certs l ! idx)"
  obtain data where data: "Marshal (flip_at idx rv l) = Inr data" by (simp add: Marshal_def)
  obtain r w1 where put: "PutLedger gh a data sha (revoke_message ?serial a (RevActor rv)) w = (r, w1)" by fastforce
  show ?case
  proof (cases r)
    case (Inr v)
    then have "w' = w1 \<and> serial = ?serial" using Suc.prems data put fl by (simp add: Let_def)
    then show ?thesis
      using put_on_top [OF Suc.prems(1,2) put [unfolded Inr]] data fl unfolding wrote_on_top_def by blast
  next
    case (Inl e)
    then obtain ex2 sha2 w2 where l: "Revoke.loadLedger gh a w1 = (Inr (ex2, sha2), w2)"
      and loop: "apply_loop gh a fnd rv n (Some e) ex2 sha2 w2 = (Inr serial, w')"
      using Suc.prems data put fl by (auto simp: Let_def split: if_splits prod.splits sum.splits)
    have w1: "good w1" "extends hist w w1" using put_keeps [OF Suc.prems(1) put] by auto
    have w2: "good w2" "extends hist w1 w2" "was_read (hist w2 a) ex2 sha2"
      using revoke_load [OF w1(1) l] by auto
    have "suffix (hist w a) (hist w2 a)"
      using extends_trans [OF w1(2) w2(2)] by (simp add: extends_def)
    then show ?thesis using wrote_on_top_mono [OF Suc.IH [OF w2(1,3) loop]] by simp
  qed
qed

end

section \<open>Success under contention\<close>

text \<open>Every version of a file, written or still to be written by others, is a valid ledger.\<close>

definition all_parse :: "string \<Rightarrow> shared \<Rightarrow> bool" where
  "all_parse a w \<longleftrightarrow>
     list_all (\<lambda>(c, s). \<exists>l. Ledger.Parse c = Inr l) (History w a) \<and>
     list_all (list_all (\<lambda>(b, c). b = a \<longrightarrow> (\<exists>l. Ledger.Parse c = Inr l))) (Pending w)"

lemma foreign_write_parse:
  "list_all (\<lambda>(c, s). \<exists>l. Ledger.Parse c = Inr l) (History w a) \<Longrightarrow>
     (fst bc = a \<longrightarrow> (\<exists>l. Ledger.Parse (snd bc) = Inr l)) \<Longrightarrow>
     list_all (\<lambda>(c, s). \<exists>l. Ledger.Parse c = Inr l) (History (foreign_write bc w) a)"
  by (auto simp: foreign_write_def SetLedger_def mintSHA_def Let_def record_version_def)

lemma foreign_write_rest [simp]:
  "Pending (foreign_write bc w) = Pending w"
  "FailNextPutWithConflict (Client (foreign_write bc w)) = FailNextPutWithConflict (Client w)"
  by (auto simp: foreign_write_def SetLedger_def mintSHA_def Let_def record_version_def)

lemma fold_foreign_rest [simp]:
  "Pending (fold foreign_write b w) = Pending w"
  "FailNextPutWithConflict (Client (fold foreign_write b w)) = FailNextPutWithConflict (Client w)"
  by (induction b arbitrary: w) auto

lemma fold_foreign_parse:
  "list_all (\<lambda>(c, s). \<exists>l. Ledger.Parse c = Inr l) (History w a) \<Longrightarrow>
     list_all (\<lambda>(b, c). b = a \<longrightarrow> (\<exists>l. Ledger.Parse c = Inr l)) bs \<Longrightarrow>
     list_all (\<lambda>(c, s). \<exists>l. Ledger.Parse c = Inr l) (History (fold foreign_write bs w) a)"
proof (induction bs arbitrary: w)
  case (Cons bc bs)
  have "fst bc = a \<longrightarrow> (\<exists>l. Ledger.Parse (snd bc) = Inr l)" using Cons.prems(2) by (auto split: prod.splits)
  from foreign_write_parse [OF Cons.prems(1) this] show ?case using Cons by simp
qed simp

lemma interfere_parse:
  assumes "all_parse a w"
  shows "all_parse a (interfere w)" "length (Pending (interfere w)) = length (Pending w) - 1"
    "FailNextPutWithConflict (Client (interfere w)) = FailNextPutWithConflict (Client w)"
proof (atomize (full), cases "Pending w")
  case (Cons b bs)
  then have "list_all (\<lambda>(c, s). \<exists>l. Ledger.Parse c = Inr l) (History (fold foreign_write b (w\<lparr>Pending := bs\<rparr>)) a)"
    using assms by (intro fold_foreign_parse) (simp_all add: all_parse_def)
  then show "all_parse a (interfere w) \<and> length (Pending (interfere w)) = length (Pending w) - 1 \<and>
    FailNextPutWithConflict (Client (interfere w)) = FailNextPutWithConflict (Client w)"
    using Cons assms by (simp add: interfere_def all_parse_def)
qed (use assms in \<open>simp add: interfere_def\<close>)

lemma consistent_latest:
  assumes "consistent w" "all_parse a w" "Ledgers (Client w) a = Some b"
  shows "\<exists>l. Ledger.Parse (blob_content b) = Inr l"
proof -
  have "head_is (Ledgers (Client w) a) (History w a)" using assms(1) by (simp add: consistent_def)
  then have "(blob_content b, blob_sha b) \<in> set (History w a)" using assms(3) by auto
  then show ?thesis using assms(2) by (auto simp: all_parse_def list_all_iff)
qed

text \<open>What the loader returns is the state of the file.\<close>

definition is_current :: "string \<Rightarrow> shared \<Rightarrow> ledger option \<Rightarrow> string \<Rightarrow> bool" where
  "is_current a w ex sha \<longleftrightarrow>
     (case Ledgers (Client w) a of
        None \<Rightarrow> ex = None \<and> sha = []
      | Some b \<Rightarrow> sha = blob_sha b \<and> (\<exists>l. ex = Some l \<and> Ledger.Parse (blob_content b) = Inr l))"

lemma load_current:
  assumes "consistent w" "all_parse a w" "GH d = shared_github"
  shows "\<exists>ex sha. Enroll.loadLedger d a w = (Inr (ex, sha), interfere w) \<and> is_current a (interfere w) ex sha"
proof -
  let ?w = "interfere w"
  have w: "consistent ?w" "all_parse a ?w"
    using interfere_keeps [OF assms(1)] interfere_parse [OF assms(2)] by auto
  show ?thesis
  proof (cases "Ledgers (Client ?w) a")
    case None
    then show ?thesis
      using assms(3) by (simp add: Enroll.loadLedger_def shared_github_def shared_GetLedger_def lift_client_def
          fake_GetLedger_def is_current_def)
  next
    case (Some b)
    then obtain l where "Ledger.Parse (blob_content b) = Inr l" using consistent_latest [OF w] by blast
    then show ?thesis
      using assms(3) Some by (simp add: Enroll.loadLedger_def shared_github_def shared_GetLedger_def lift_client_def
          fake_GetLedger_def is_current_def)
  qed
qed

lemma put_current:
  assumes "Pending w = []" "\<not> FailNextPutWithConflict (Client w)" "is_current a w ex sha"
  shows "\<exists>w'. PutLedger shared_github a data sha m w = (Inr (), w')"
  using assms
  by (cases "Ledgers (Client w) a")
     (simp_all add: shared_github_def shared_PutLedger_def interfere_def fake_PutLedger_def checkPrevSHA_def
       is_current_def Let_def mintSHA_def)

lemma put_conflict:
  assumes "PutLedger shared_github a data sha m w = (Inl e, w')" "\<not> FailNextPutWithConflict (Client w)" "all_parse a w"
  shows "e = ErrConflict \<and> all_parse a w' \<and> Pending w' = Pending (interfere w) \<and>
    \<not> FailNextPutWithConflict (Client w')"
proof -
  let ?w1 = "interfere w"
  have f: "\<not> FailNextPutWithConflict (Client ?w1)" and p: "all_parse a ?w1"
    using interfere_parse [OF assms(3)] assms(2) by auto
  then have "e = ErrConflict \<and> w' = ?w1\<lparr>Client := Client ?w1\<rparr>"
    using assms(1) by (auto simp: shared_github_def shared_PutLedger_def fake_PutLedger_def checkPrevSHA_def
        Let_def mintSHA_def split: if_splits option.splits)
  then show ?thesis using f p by simp
qed

lemma commit_succeeds:
  assumes "consistent w" "all_parse a w" "GH d = shared_github" "\<not> FailNextPutWithConflict (Client w)"
    and "length (Pending w) \<le> 2 * n" "n = 0 \<longrightarrow> is_current a w ex sha"
  shows "\<exists>w'. commit_loop d a repo entry now (Suc n) lc ex sha w = (Inr (), w')"
  using assms
proof (induction n arbitrary: lc ex sha w)
  case 0
  obtain data where data: "Marshal (next_ledger a repo now entry ex) = Inr data" by (simp add: Marshal_def)
  obtain w' where "PutLedger shared_github a data sha (issue_message a) w = (Inr (), w')"
    using put_current [of w a ex sha] 0 by auto
  then show ?case using 0 data by simp
next
  case (Suc n)
  obtain data where data: "Marshal (next_ledger a repo now entry ex) = Inr data" by (simp add: Marshal_def)
  obtain r w1 where put: "PutLedger shared_github a data sha (issue_message a) w = (r, w1)" by fastforce
  show ?case
  proof (cases r)
    case (Inr u)
    then show ?thesis using put data Suc.prems(3) by simp
  next
    case (Inl e)
    note c = put_conflict [OF put [unfolded Inl] Suc.prems(4,2)]
    have w1: "consistent w1" using shared_files.put_keeps [OF Suc.prems(1) put] by simp
    have len: "length (Pending w1) = length (Pending w) - 1"
      using c interfere_parse [OF Suc.prems(2)] by simp
    have p1: "all_parse a w1" using c by blast
    obtain ex2 sha2 where load: "Enroll.loadLedger d a w1 = (Inr (ex2, sha2), interfere w1)"
      "is_current a (interfere w1) ex2 sha2"
      using load_current [OF w1 p1 Suc.prems(3)] by blast
    have "\<exists>w'. commit_loop d a repo entry now (Suc n) (Some e) ex2 sha2 (interfere w1) = (Inr (), w')"
    proof (rule Suc.IH)
      show "consistent (interfere w1)" using interfere_keeps [OF w1] by simp
      show "all_parse a (interfere w1)" "\<not> FailNextPutWithConflict (Client (interfere w1))"
        using interfere_parse [OF p1] c by auto
      show "length (Pending (interfere w1)) \<le> 2 * n"
        using interfere_parse(2) [OF p1] len Suc.prems(5) by simp
    qed (use load Suc.prems(3) in auto)
    then show ?thesis using Inl put data c load Suc.prems(3) by simp
  qed
qed

lemma commit_after_conflict:
  assumes "Ledger.Parse text = Inr lo" and "GH d = shared_github"
  shows "\<exists>data w'. commit_loop d a repo entry now (Suc (Suc n)) None None [] (share New [[(a, text)]]) = (Inr (), w') \<and>
       Marshal (append_cert entry lo) = Inr data \<and> map fst (History w' a) = [data, text]"
  using assms
  by (simp add: Marshal_def shared_github_def shared_PutLedger_def interfere_def share_def foreign_write_def
      SetLedger_def mintSHA_def New_def record_version_def fake_PutLedger_def checkPrevSHA_def Let_def
      Enroll.loadLedger_def shared_GetLedger_def lift_client_def fake_GetLedger_def next_ledger_def)

section \<open>A revocation after a revocation\<close>

lemma flip_overwrites: "flip_at idx rv (flip_at idx rv1 l) = flip_at idx rv l"
  by (cases "idx < length (certs l)")
     (simp_all add: flip_at_def certs_def flip_cert_def list_update_beyond)

lemma flip_found: "findByFingerprint (Some (flip_at idx rv l)) fp = findByFingerprint (Some l) fp"
proof -
  have "find_index (\<lambda>c. CertFingerprint c = fp) ((cs :: certificate list)[i := flip_cert rv (cs ! i)]) =
      find_index (\<lambda>c. CertFingerprint c = fp) cs" for cs i
    by (induction cs arbitrary: i) (auto simp: flip_cert_def split: nat.split)
  then show ?thesis by (simp add: findByFingerprint_def flip_at_def certs_def)
qed

text \<open>A file that changes between the first read and the first write.\<close>

definition changed_between :: "string \<Rightarrow> string \<Rightarrow> string \<Rightarrow> (string \<times> string) list list \<Rightarrow> shared" where
  "changed_between a text text1 before = share (snd (SetLedger a text New)) (before @ [[(a, text1)]])"

lemma changed_load:
  "Ledger.Parse text = Inr l \<Longrightarrow>
     Revoke.loadLedger shared_github a (changed_between a text text1 [[]]) =
       (Inr (Some l, sha_name 1), changed_between a text text1 [])"
  by (simp add: Revoke.loadLedger_def changed_between_def shared_github_def shared_GetLedger_def interfere_def share_def
      lift_client_def fake_GetLedger_def SetLedger_def mintSHA_def New_def Let_def)

lemma apply_after_conflict:
  assumes "Ledger.Parse text1 = Inr l1" "fnd (Some l) = Some idx" "fnd (Some l1) = Some idx"
    and "Marshal (flip_at idx rv l1) = Inr data"
  shows "\<exists>w'. apply_loop shared_github a fnd rv (Suc (Suc n)) None (Some l) (sha_name 1) (changed_between a text text1 []) =
      (Inr (Serial (certs l1 ! idx)), w') \<and> map fst (History w' a) = [data, text1, text]"
  using assms
  by (simp add: Marshal_def changed_between_def shared_github_def shared_PutLedger_def interfere_def share_def foreign_write_def
      SetLedger_def mintSHA_def New_def record_version_def fake_PutLedger_def checkPrevSHA_def Let_def
      Revoke.loadLedger_def shared_GetLedger_def lift_client_def fake_GetLedger_def)

lemma shared_deliver:
  assumes "RevGH d = shared_github"
  shows "History (snd (Revoke.deliver d iss b w)) = History w"
  using assms
  by (simp add: Revoke.deliver_def shared_github_def lift_client_def fake_PostComment_def fake_SetLabels_def fake_CloseIssue_def
      split: prod.split sum.split)

section \<open>Properties\<close>

text \<open>On the in-memory GitHub shared with arbitrary other writers, no update is lost: a write loop
  that succeeds, started from any version read before, has put on top of the file's history a
  ledger made from exactly the version just below it. The issuer appends its entry to that version (a
  new ledger if there was none), a revocation differs from it in exactly the certificate that the
  finder selects there, and every earlier version is still in the history.\<close>
theorem shared_store_loses_no_update:
  assumes "consistent w" and "was_read (History w a) ex sha" and "GH d = shared_github"
  shows "(case commit_loop d a repo entry now n lc ex sha w of
       (Inl e, w') \<Rightarrow> True
     | (Inr u, w') \<Rightarrow> \<exists>data s older ex'. History w' a = (data, s) # older \<and> suffix (History w a) older \<and>
         latest older ex' \<and> Marshal (next_ledger a repo now entry ex') = Inr data) \<and>
    (case apply_loop shared_github a fnd rv n lc ex sha w of
       (Inl e, w') \<Rightarrow> True
     | (Inr serial, w') \<Rightarrow> \<exists>data s older l idx. History w' a = (data, s) # older \<and> suffix (History w a) older \<and>
         latest older (Some l) \<and> fnd (Some l) = Some idx \<and> Marshal (flip_at idx rv l) = Inr data \<and>
         serial = Serial (certs l ! idx))"
  using shared_files.commit_on_top [OF assms, of repo entry now n lc] shared_files.apply_on_top [OF assms(1,2), of fnd rv n lc]
  unfolding wrote_on_top_def by (fastforce split: prod.split sum.split)

text \<open>The retry loop gets through contention: however the foreign writes fall, as long as they come
  in at most eight batches and leave readable ledgers, five rounds are enough for the write to
  succeed.\<close>
theorem issuer_survives_contention:
  assumes "consistent w" and "all_parse a w" and "GH d = shared_github"
    and "\<not> FailNextPutWithConflict (Client w)" and "length (Pending w) \<le> 8"
  shows "\<exists>w'. commit_loop d a repo entry now 5 lc ex sha w = (Inr (), w')"
  using commit_succeeds [OF assms(1-4), of 4 ex sha repo entry now lc] assms(5)
  by (simp only: numeral_eq_Suc) simp

text \<open>C15: The ownership check is not repeated after a conflict: when a ledger of another repository
  appears between the check (no ledger, a new claim) and the write, the loop appends the entry to
  that ledger, which the check itself would have refused.\<close>
theorem conflict_skips_ownership_check:
  assumes "Ledger.Parse text = Inr lo" and "\<not> Reserved lo" and "Repo (Ledger.Owner lo) \<noteq> repo"
    and "GH d = shared_github"
  shows "Decide None repo = DecisionNewClaim \<and> Decide (Some lo) repo = DecisionRejectedMismatch \<and>
    (\<exists>data w'. commit_loop d a repo entry now 5 None None [] (share New [[(a, text)]]) = (Inr (), w') \<and>
       Marshal (append_cert entry lo) = Inr data \<and> map fst (History w' a) = [data, text])"
proof -
  have "(5 :: nat) = Suc (Suc 3)" by simp
  then show ?thesis
    using assms(2,3) commit_after_conflict [OF assms(1,4), of a repo entry now 3] by (simp add: Decide_def)
qed

text \<open>C16: A revocation can be overwritten after a conflict: when the operator's revocation of a certificate
  lands between the look of the self-service path, which finds the certificate active, and its
  write, the retry flips the revoked entry again. The file ends up as if the operator had never
  revoked: the reason, the date and the actor are gone.\<close>
theorem conflict_overwrites_revocation:
  assumes "Ledger.Parse text = Inr l" and "Ledger.Parse text1 = Inr (flip_at idx rv1 l)"
    and "findByFingerprint (Some l) (Fingerprint lib (Raw (SignerCert vres))) = Some idx"
    and "Status (certs l ! idx) \<noteq> StatusRevoked" and "RevGH d = shared_github"
  shows "\<exists>data. Marshal (flip_at idx \<lparr>RevReason = ''self-service'', RevFrom = NotBefore (certs l ! idx), RevActor = []\<rparr> l) = Inr data \<and>
    map fst (History (snd (match_and_revoke lib d iss vres a (changed_between a text text1 [[]]))) a) = [data, text1, text]"
proof -
  let ?rv = "\<lparr>RevReason = ''self-service'', RevFrom = NotBefore (certs l ! idx), RevActor = []\<rparr>"
  let ?fnd = "\<lambda>lg. findByFingerprint lg (Fingerprint lib (Raw (SignerCert vres)))"
  obtain data where data: "Marshal (flip_at idx ?rv l) = Inr data" by (simp add: Marshal_def)
  obtain serial w' where run: "applyRevocation shared_github a ?fnd ?rv (Some l) (sha_name 1) (changed_between a text text1 []) = (Inr serial, w')"
    and h: "map fst (History w' a) = [data, text1, text]"
    using apply_after_conflict [OF assms(2), of ?fnd l idx ?rv data a 3 "text"] assms(3) data
    by (auto simp: flip_found flip_overwrites applyRevocation_def Revoke.maxLedgerRetries_def numeral_eq_Suc)
  have "snd (match_and_revoke lib d iss vres a (changed_between a text text1 [[]])) =
      snd (Revoke.deliver d iss (revoked_body serial a (NotBefore (certs l ! idx))) w')"
    using assms(3,4) run changed_load [OF assms(1), of a text1] by (simp add: match_and_revoke_def assms(5) Let_def)
  then show ?thesis using data h by (simp add: shared_deliver [OF assms(5)])
qed

end
