(* ===== verification/Trace.thy ===== *)
theory Trace imports Ghclient Ledger begin

text \<open>
  Vocabulary for statements about the calls a run made: what a read gave, which writes a retry
  loop may make, and runs that neither write a ledger nor close an issue.
\<close>

definition observed_clock :: "('w \<Rightarrow> time \<times> 'w) \<Rightarrow> 'w observed \<Rightarrow> time \<times> 'w observed" where
  "observed_clock c wt = (case c (fst wt) of (t, w') \<Rightarrow> (t, (w', EvNow t # snd wt)))"

text \<open>The trace grows, without a write to a ledger and without closing an issue.\<close>

definition quietly :: "event list \<Rightarrow> event list \<Rightarrow> bool" where
  "quietly tr tr' \<longleftrightarrow> (\<exists>ext. tr' = ext @ tr \<and> list_all silent ext)"

lemma quietly_refl [simp]: "quietly tr tr"
  by (simp add: quietly_def)

lemma quietly_Cons [simp, intro]: "quietly tr tr' \<Longrightarrow> silent e \<Longrightarrow> quietly tr (e # tr')"
  by (force simp: quietly_def)

lemma quietly_ConsD: "quietly (e # tr) tr' \<Longrightarrow> silent e \<Longrightarrow> quietly tr tr'"
  by (force simp: quietly_def)

lemma quietly_all: "quietly tr tr' \<Longrightarrow> list_all silent tr \<Longrightarrow> list_all silent tr'"
  by (auto simp: quietly_def)

section \<open>Reads\<close>

text \<open>The call that gave a ledger and its SHA.\<close>

definition read_as :: "ledger option \<Rightarrow> string \<Rightarrow> (string \<times> string) result \<Rightarrow> bool" where
  "read_as ex sha r \<longleftrightarrow>
     (case ex of
        None \<Rightarrow> sha = [] \<and> (\<exists>e. r = Inl e \<and> errors_is e ErrNotFound)
      | Some l \<Rightarrow> \<exists>data. r = Inr (data, sha) \<and> Ledger.Parse data = Inr l)"

definition known_reads :: "string \<Rightarrow> event list \<Rightarrow> (ledger option \<times> string) set" where
  "known_reads a tr = {(ex, sha). \<exists>r. EvGetLedger a r \<in> set tr \<and> read_as ex sha r}"

lemma known_reads_mono: "known_reads a tr \<subseteq> known_reads a (ext @ tr)"
  by (auto simp: known_reads_def)

lemma known_readsI: "EvGetLedger a r \<in> set tr \<Longrightarrow> read_as ex sha r \<Longrightarrow> (ex, sha) \<in> known_reads a tr"
  by (auto simp: known_reads_def)

section \<open>Writes of a retry loop\<close>

definition put_ok :: "event \<Rightarrow> bool" where
  "put_ok ev \<longleftrightarrow> (case ev of EvPutLedger a c p m (Inr u) \<Rightarrow> True | _ \<Rightarrow> False)"

lemma put_ok_simps [simp]:
  "put_ok (EvPutLedger a c p m (Inr u))" "\<not> put_ok (EvPutLedger a c p m (Inl e))"
  by (simp_all add: put_ok_def)

text \<open>
  The writes of a loop, latest first: not more than its \<open>n\<close> rounds, each made (\<open>P\<close>) from what was
  read, the first from \<open>x\<close>, what the loop was given, the later ones from a read of \<open>K\<close>; all but
  the last refused, the last one accepted exactly if the loop succeeds.
\<close>

definition loop_writes ::
  "('b \<Rightarrow> event \<Rightarrow> bool) \<Rightarrow> nat \<Rightarrow> 'b \<Rightarrow> 'b set \<Rightarrow> 'a result \<Rightarrow> event list \<Rightarrow> bool" where
  "loop_writes P n x K res ps \<longleftrightarrow>
     length ps \<le> n \<and> (\<forall>e\<in>set ps. \<exists>y\<in>insert x K. P y e) \<and> (ps \<noteq> [] \<longrightarrow> P x (last ps)) \<and>
     (case res of Inr u \<Rightarrow> ps \<noteq> [] \<and> put_ok (hd ps) \<and> (\<forall>e\<in>set (tl ps). \<not> put_ok e)
      | Inl e \<Rightarrow> \<forall>e\<in>set ps. \<not> put_ok e)"

lemma loop_none [simp]: "loop_writes P n x K (Inl e) []"
  by (simp add: loop_writes_def)

lemma loop_one:
  "P x ev \<Longrightarrow> put_ok ev \<Longrightarrow> loop_writes P (Suc n) x K (Inr u) [ev]"
  "P x ev \<Longrightarrow> \<not> put_ok ev \<Longrightarrow> loop_writes P (Suc n) x K (Inl e) [ev]"
  by (simp_all add: loop_writes_def)

lemma loop_more:
  assumes "P x ev" "\<not> put_ok ev" "y \<in> K" "loop_writes P n y K res ps"
  shows "loop_writes P (Suc n) x K res (ps @ [ev])"
  using assms unfolding loop_writes_def by (cases res; cases ps) auto

lemma loop_mono: "loop_writes P n x K res ps \<Longrightarrow> K \<subseteq> K' \<Longrightarrow> loop_writes P n x K' res ps"
  unfolding loop_writes_def by (meson insert_mono subsetD)

end
