(* ===== verification/EnrollSafety.thy ===== *)
theory EnrollSafety imports Enroll Trace begin

text \<open>
  What must have happened before the issuer writes a ledger, whatever the outside world answers:
  the pipeline is run with every call observed, and the statements are about the calls.
\<close>

section \<open>The pipeline under observation\<close>

definition observed_signer :: "'w signer \<Rightarrow> 'w observed signer" where
  "observed_signer s =
     \<lparr>IssuerCertificate = IssuerCertificate s, Sign = (\<lambda>t p. observe (EvSign t p) (Sign s t p)),
      SignCRL = (\<lambda>l. unobserved (SignCRL s l))\<rparr>"

definition observed_deps :: "'w deps \<Rightarrow> 'w observed deps" where
  "observed_deps d =
     \<lparr>GH = observed (GH d), Signer = observed_signer (Signer d), Clock = observed_clock (Clock d),
      Rand = unobserved (Rand d)\<rparr>"

lemma observed_deps_simps [simp]:
  "GH (observed_deps d) = observed (GH d)"
  "IssuerCertificate (Signer (observed_deps d)) = IssuerCertificate (Signer d)"
  "Sign (Signer (observed_deps d)) t p = observe (EvSign t p) (Sign (Signer d) t p)"
  "Clock (observed_deps d) (w, tr) = (case Clock d w of (t, w') \<Rightarrow> (t, (w', EvNow t # tr)))"
  "Rand (observed_deps d) = unobserved (Rand d)"
  by (simp_all add: observed_deps_def observed_signer_def observed_clock_def)

section \<open>Steps that write nothing\<close>

lemma read_more_unobserved:
  "read_more (unobserved r) n acc (w, tr) = (res, (w', tr')) \<Longrightarrow> tr' = tr"
  by (induction n arbitrary: acc w) (auto split: prod.splits sum.splits)

lemma read_full_unobserved: "read_full (unobserved r) n (w, tr) = (res, (w', tr')) \<Longrightarrow> tr' = tr"
  by (auto simp: read_full_def dest: read_more_unobserved)

lemma rand_int_unobserved: "rand_int_128 (unobserved r) (w, tr) = (res, (w', tr')) \<Longrightarrow> tr' = tr"
  by (auto simp: rand_int_128_def split: prod.splits sum.splits dest: read_full_unobserved)

lemma Generate_unobserved: "Generate df (Some (unobserved r)) (w, tr) = (res, (w', tr')) \<Longrightarrow> tr' = tr"
  by (auto simp: Generate_def Let_def split: prod.splits sum.splits dest: read_full_unobserved)

lemma randomSerial_unobserved:
  "randomSerial (unobserved r) (w, tr) = Some (res, (w', tr')) \<Longrightarrow> tr' = tr"
proof -
  have "randomSerial rd wt = Some y \<Longrightarrow> rd = unobserved r \<longrightarrow> snd (snd y) = snd wt" for rd and wt :: "'a observed" and y
  proof (rule randomSerial.raw_induct [of "\<lambda>rd wt y. rd = unobserved r \<longrightarrow> snd (snd y) = snd wt"])
    fix rec rd and wt :: "'a observed" and y
    assume IH: "\<And>rd wt y. rec rd wt = Some y \<Longrightarrow> rd = unobserved r \<longrightarrow> snd (snd y) = snd wt"
      and *: "(case rand_int_128 rd wt of
        (Inl e, w1) \<Rightarrow> Some (Inl (Wrap ''certtmpl: serial: '' e []), w1)
      | (Inr n, w1) \<Rightarrow> if 0 < n then Some (Inr n, w1) else rec rd w1) = Some y"
    obtain w tr where wt: "wt = (w, tr)" by (cases wt)
    show "rd = unobserved r \<longrightarrow> snd (snd y) = snd wt"
    proof
      assume rd: "rd = unobserved r"
      obtain res w1 tr1 where d: "rand_int_128 rd wt = (res, (w1, tr1))" by (metis surj_pair)
      have "tr1 = tr" using rand_int_unobserved [of r w tr res w1 tr1] rd wt d by simp
      show "snd (snd y) = snd wt"
      proof (cases "\<exists>n. res = Inr n \<and> \<not> 0 < n")
        case True
        with * d have "rec rd (w1, tr1) = Some y" by auto
        then have "snd (snd y) = tr1" using IH [of rd "(w1, tr1)" y] rd by simp
        with \<open>tr1 = tr\<close> wt show ?thesis by simp
      next
        case False
        with * d have "snd y = (w1, tr1)" by (cases res) (auto split: if_splits)
        with \<open>tr1 = tr\<close> wt show ?thesis by simp
      qed
    qed
  qed
  then show "randomSerial (unobserved r) (w, tr) = Some (res, (w', tr')) \<Longrightarrow> tr' = tr" by fastforce
qed

lemma Leaf_unobserved: "Leaf (unobserved r) inp (w, tr) = Some (res, (w', tr')) \<Longrightarrow> tr' = tr"
  by (auto simp: Leaf_def split: sum.splits option.splits if_splits dest: randomSerial_unobserved)

lemma terminal_quiet: "terminal (observed_deps d) iss l c (w, tr) = (res, (w', tr')) \<Longrightarrow> quietly tr tr'"
  by (auto simp: terminal_def split: prod.splits sum.splits)

lemma postChallenge_quiet: "postChallenge lib (observed_deps d) n (w, tr) = (res, (w', tr')) \<Longrightarrow> quietly tr tr'"
  by (auto simp: postChallenge_def split: prod.splits sum.splits dest!: Generate_unobserved)

lemma info_not_found_quiet: "info_not_found (observed_deps d) iss rp (w, tr) = (res, (w', tr')) \<Longrightarrow> quietly tr tr'"
  by (auto simp: info_not_found_def split: prod.splits sum.splits if_splits dest!: terminal_quiet
      intro: quietly_ConsD)

lemma loadLedger_trace:
  "loadLedger (observed_deps d) a (w, tr) = (res, (w', tr')) \<Longrightarrow>
     \<exists>r. tr' = EvGetLedger a r # tr \<and>
       (case res of
          Inl e \<Rightarrow> True
        | Inr (None, sha) \<Rightarrow> sha = [] \<and> (\<exists>e. r = Inl e \<and> errors_is e ErrNotFound)
        | Inr (Some l, sha) \<Rightarrow> \<exists>data. r = Inr (data, sha) \<and> Ledger.Parse data = Inr l)"
  by (auto simp: loadLedger_def split: prod.splits sum.splits if_splits)

lemma deliver_no_puts:
  "deliver (observed_deps d) iss a der ic (w, tr) = (res, (w', tr')) \<Longrightarrow> \<exists>post. tr' = post @ tr \<and> puts post = []"
  by (auto simp: deliver_def Let_def split: prod.splits sum.splits)

section \<open>The write loop\<close>

lemma loadLedger_read:
  assumes "loadLedger (observed_deps d) a (w, tr) = (Inr (ex, sha), (w', tr'))"
  shows "\<exists>r. tr' = EvGetLedger a r # tr \<and> read_as ex sha r"
  using loadLedger_trace [OF assms] by (cases ex) (auto simp: read_as_def)

text \<open>What one write of the loop looks like, made from the ledger \<open>ex\<close> with SHA \<open>sha\<close>.\<close>

fun issue_put :: "string \<Rightarrow> string \<Rightarrow> certificate \<Rightarrow> time \<Rightarrow> ledger option \<times> string \<Rightarrow> event \<Rightarrow> bool" where
  "issue_put a repo entry now (ex, sha) ev \<longleftrightarrow>
     (\<exists>data r. Marshal (next_ledger a repo now entry ex) = Inr data \<and>
        ev = EvPutLedger a data sha (issue_message a) r)"

lemma commit_loop_writes:
  "commit_loop (observed_deps d) a repo entry now n lc ex sha (w, tr) = (res, (w', tr')) \<Longrightarrow>
     \<exists>ext. tr' = ext @ tr \<and> (\<forall>e\<in>set ext. \<not> is_close e) \<and>
       loop_writes (issue_put a repo entry now) n (ex, sha) (known_reads a tr') res (puts ext)"
proof (induction n arbitrary: lc ex sha w tr)
  case 0
  then show ?case by (auto simp: Let_def)
next
  case (Suc n)
  let ?d = "observed_deps d" and ?P = "issue_put a repo entry now"
  obtain data where data: "Marshal (next_ledger a repo now entry ex) = Inr data" by (simp add: Marshal_def)
  obtain r w1 where put: "PutLedger (GH d) a data sha (issue_message a) w = (r, w1)" by (metis surj_pair)
  let ?ev = "EvPutLedger a data sha (issue_message a)"
  have own: "?P (ex, sha) (?ev r)" for r using data by simp
  show ?case
  proof (cases "\<exists>e. r = Inl e \<and> errors_is e ErrConflict")
    case False
    then have "tr' = ?ev r # tr \<and> (res = Inr () \<and> r = Inr () \<or> (\<exists>e e'. res = Inl e \<and> r = Inl e'))"
      using Suc.prems data put by (cases r) auto
    then show ?thesis
      using loop_one [of ?P "(ex, sha)" "?ev r", OF own] by (intro exI [of _ "[?ev r]"]) auto
  next
    case True
    then obtain e where e: "r = Inl e" "errors_is e ErrConflict" by blast
    obtain lr w2 tr2 where load: "loadLedger ?d a (w1, ?ev r # tr) = (lr, (w2, tr2))" by (metis surj_pair)
    show ?thesis
    proof (cases lr)
      case (Inl e2)
      with Suc.prems data put e load have "res = Inl e2" "tr' = tr2" by auto
      moreover obtain g where "tr2 = EvGetLedger a g # ?ev r # tr" using loadLedger_trace [OF load] by blast
      ultimately show ?thesis
        using loop_one(2) [of ?P "(ex, sha)" "?ev r", OF own] e
        by (intro exI [of _ "[EvGetLedger a g, ?ev r]"]) simp
    next
      case (Inr exs)
      then obtain ex2 sha2 where lr: "lr = Inr (ex2, sha2)" by (cases exs) auto
      obtain g where g: "tr2 = EvGetLedger a g # ?ev r # tr" "read_as ex2 sha2 g"
        using loadLedger_read [OF load [unfolded lr]] by blast
      have "commit_loop ?d a repo entry now n (Some e) ex2 sha2 (w2, tr2) = (res, (w', tr'))"
        using Suc.prems data put e load lr by simp
      from Suc.IH [OF this] obtain ext where ext: "tr' = ext @ tr2" "\<forall>e\<in>set ext. \<not> is_close e"
        "loop_writes ?P n (ex2, sha2) (known_reads a tr') res (puts ext)" by blast
      have "(ex2, sha2) \<in> known_reads a tr'" by (rule known_readsI [of a g]) (use g ext(1) in auto)
      then have "loop_writes ?P (Suc n) (ex, sha) (known_reads a tr') res (puts ext @ [?ev r])"
        using loop_more [of ?P "(ex, sha)" "?ev r" "(ex2, sha2)", OF own] ext(3) e by simp
      then show ?thesis
        using ext(1,2) g by (intro exI [of _ "ext @ [EvGetLedger a g, ?ev r]"]) simp
    qed
  qed
qed

lemma commitLedger_writes:
  assumes "commitLedger (observed_deps d) a repo entry ex sha (w, tr) = (res, (w', tr'))"
  shows "\<exists>now ext. tr' = ext @ tr \<and> (\<forall>e\<in>set ext. \<not> is_close e) \<and> loop_writes (issue_put a repo entry now) maxLedgerRetries (ex, sha) (known_reads a tr') res (puts ext)"
proof -
  obtain now w1 where c: "Clock d w = (now, w1)" by (metis surj_pair)
  with assms have "commit_loop (observed_deps d) a repo entry now maxLedgerRetries None ex sha (w1, EvNow now # tr) = (res, (w', tr'))"
    by (simp add: commitLedger_def)
  from commit_loop_writes [OF this] obtain ext where "tr' = ext @ EvNow now # tr"
    "\<forall>e\<in>set ext. \<not> is_close e" "loop_writes (issue_put a repo entry now) maxLedgerRetries (ex, sha) (known_reads a tr') res (puts ext)" by blast
  then show ?thesis by (intro exI [of _ now] exI [of _ "ext @ [EvNow now]"]) simp
qed

section \<open>From one phase to the next\<close>

definition leaf_inputs :: "string \<Rightarrow> form \<Rightarrow> public_key option \<Rightarrow> time \<Rightarrow> x509_cert option \<Rightarrow> inputs" where
  "leaf_inputs a f pub now issuer =
     \<lparr>InAppID = a, InOwner = ownerOf (FormRepo f), InOrigin = OriginGitHub, InPublicKey = pub,
      InNotBefore = now, InIssuer = issuer\<rparr>"

text \<open>A leaf was signed and then recorded, or its recording failed.\<close>

definition minted ::
  "'v crypto_lib \<Rightarrow> x509_cert option \<Rightarrow> issue \<Rightarrow> form \<Rightarrow> string \<Rightarrow> public_key option \<Rightarrow> ledger option \<Rightarrow> string
     \<Rightarrow> event list \<Rightarrow> event list \<Rightarrow> bool" where
  "minted lib ic iss f a pub ex sha tr tr' \<longleftrightarrow>
     (\<exists>now t issuer serial der leaf ext post (cres :: unit result).
        ic = Some issuer \<and> 0 < serial \<and> serial < 2 ^ 128 \<and> Valid a \<and> pub \<noteq> None \<and>
        ParseCertificate lib der = Inr leaf \<and>
        tr' = post @ ext @ EvSign (leaf_template (leaf_inputs a f pub now ic) issuer serial) pub (Inr der) # EvNow now # tr \<and>
        puts post = [] \<and> (\<forall>e\<in>set ext. \<not> is_close e) \<and>
        loop_writes (issue_put a (FormRepo f) (ledger_entry lib iss leaf der) t) maxLedgerRetries (ex, sha)
          (known_reads a tr') cres (puts ext) \<and>
        (case cres of Inl e \<Rightarrow> post = [] | Inr u \<Rightarrow> True))"

lemma issueCert_phase:
  assumes "issueCert lib (observed_deps d) iss f a pub ex sha (w, tr) = Some (res, (w', tr'))"
  shows "quietly tr tr' \<or> minted lib (IssuerCertificate (Signer d)) iss f a pub ex sha tr tr'"
proof -
  let ?d = "observed_deps d" and ?ic = "IssuerCertificate (Signer d)"
  obtain now w1 where c: "Clock d w = (now, w1)" by (metis surj_pair)
  let ?inp = "leaf_inputs a f pub now ?ic"
  obtain lr w2 tr2 where leaf: "Leaf (unobserved (Rand d)) ?inp (w1, EvNow now # tr) = Some (lr, (w2, tr2))"
    using assms c by (cases "Leaf (unobserved (Rand d)) ?inp (w1, EvNow now # tr)")
      (auto simp: issueCert_def leaf_inputs_def)
  have tr2: "tr2 = EvNow now # tr" using Leaf_unobserved [OF leaf] .
  note unf = assms [unfolded issueCert_def observed_deps_simps c prod.case Let_def leaf_inputs_def [symmetric] leaf option.case]
  show ?thesis
  proof (cases lr)
    case (Inl e)
    with unf tr2 have "tr' = EvNow now # tr" by auto
    then show ?thesis by simp
  next
    case (Inr tmpl)
    then obtain issuer serial where lt: "Valid a" "pub \<noteq> None" "?ic = Some issuer" "tmpl = leaf_template ?inp issuer serial"
      "randomSerial (unobserved (Rand d)) (w1, EvNow now # tr) = Some (Inr serial, (w2, tr2))"
      using leaf by (auto simp: Leaf_Inr leaf_inputs_def)
    have serial: "0 < serial" "serial < 2 ^ 128" using randomSerial_range [OF lt(5)] by blast+
    obtain sr w3 where sign: "Sign (Signer d) tmpl pub w2 = (sr, w3)" by (metis surj_pair)
    show ?thesis
    proof (cases "\<exists>der leaf. sr = Inr der \<and> ParseCertificate lib der = Inr leaf")
      case False
      then have "tr' = EvSign tmpl pub sr # tr2"
        using unf Inr sign by (cases sr) (auto split: sum.splits)
      then show ?thesis using tr2 by simp
    next
      case True
      then obtain der leaf where der: "sr = Inr der" "ParseCertificate lib der = Inr leaf" by blast
      let ?entry = "ledger_entry lib iss leaf der" and ?tr3 = "EvSign tmpl pub (Inr der) # tr2"
      obtain cres w4 tr4 where com: "commitLedger ?d a (FormRepo f) ?entry ex sha (w3, ?tr3) = (cres, (w4, tr4))"
        by (metis surj_pair)
      obtain t ext where ext: "tr4 = ext @ ?tr3" "\<forall>e\<in>set ext. \<not> is_close e"
        "loop_writes (issue_put a (FormRepo f) ?entry t) maxLedgerRetries (ex, sha) (known_reads a tr4) cres (puts ext)"
        using commitLedger_writes [OF com] by blast
      have "\<exists>post. tr' = post @ tr4 \<and> puts post = [] \<and> (case cres of Inl e \<Rightarrow> post = [] | Inr u \<Rightarrow> True)"
        using unf Inr sign der com by (cases cres) (auto dest: deliver_no_puts)
      then obtain post where post: "tr' = post @ tr4" "puts post = []" "case cres of Inl e \<Rightarrow> post = [] | Inr u \<Rightarrow> True" by blast
      have "minted lib ?ic iss f a pub ex sha tr tr'"
        unfolding minted_def
        using lt serial der ext post loop_mono [OF ext(3) known_reads_mono, of post] tr2
        by (intro exI [of _ now] exI [of _ t] exI [of _ issuer] exI [of _ serial] exI [of _ der] exI [of _ leaf]
            exI [of _ ext] exI [of _ post] exI [of _ cres]) simp
      then show ?thesis ..
    qed
  qed
qed

lemma decide_phase:
  assumes "decide_and_issue lib (observed_deps d) iss f req a (w, tr) = Some (res, (w', tr'))"
  shows "quietly tr tr' \<or>
    (\<exists>ex sha g. read_as ex sha g \<and> Decide ex (FormRepo f) \<in> {DecisionNewClaim, DecisionAllowed} \<and>
       minted lib (IssuerCertificate (Signer d)) iss f a (ReqPublicKey req) ex sha (EvGetLedger a g # tr) tr')"
proof -
  let ?d = "observed_deps d"
  obtain lr w1 tr1 where load: "loadLedger ?d a (w, tr) = (lr, (w1, tr1))" by (metis surj_pair)
  obtain g where g: "tr1 = EvGetLedger a g # tr" using loadLedger_trace [OF load] by blast
  show ?thesis
  proof (cases lr)
    case (Inl e)
    with assms load g show ?thesis by (auto simp: decide_and_issue_def)
  next
    case (Inr exs)
    then obtain ex sha where lr: "lr = Inr (ex, sha)" by (cases exs) auto
    have rd: "read_as ex sha g" using loadLedger_read [OF load [unfolded lr]] g by auto
    show ?thesis
    proof (cases "Decide ex (FormRepo f) \<in> {DecisionNewClaim, DecisionAllowed}")
      case False
      then obtain c where "terminal ?d iss LabelRejected c (w1, tr1) = (res, (w', tr'))"
        using assms load lr by (cases "Decide ex (FormRepo f)") (auto simp: decide_and_issue_def)
      from terminal_quiet [OF this] show ?thesis using g by (auto dest: quietly_ConsD)
    next
      case True
      then have "issueCert lib ?d iss f a (ReqPublicKey req) ex sha (w1, tr1) = Some (res, (w', tr'))"
        using assms load lr by (cases "Decide ex (FormRepo f)") (auto simp: decide_and_issue_def)
      from issueCert_phase [OF this] show ?thesis
        using True rd g by (auto dest: quietly_ConsD)
    qed
  qed
qed

lemma priorChallenge_trace:
  "priorChallenge (observed_deps d) n (w, tr) = (res, (w', tr')) \<Longrightarrow>
     \<exists>r. tr' = EvOwnComments n r # tr \<and>
       (case res of Inl e \<Rightarrow> True | Inr ch \<Rightarrow> \<exists>cs. r = Inr cs \<and> ch = last_challenge cs None)"
  by (auto simp: priorChallenge_def split: prod.splits sum.splits)

lemma challenge_phase_cases:
  assumes "challenge_phase lib (observed_deps d) iss f req a (w, tr) = Some (res, (w', tr'))"
  shows "quietly tr tr' \<or>
    (\<exists>cs nonce postedAt now got gsha w1.
       last_challenge cs None = Some (nonce, postedAt) \<and> \<not> Expired postedAt now \<and> Match nonce got \<and>
       decide_and_issue lib (observed_deps d) iss f req a
         (w1, EvGetFile (FormRepo f) FilePath (Inr (got, gsha)) # EvNow now # EvOwnComments (Number iss) (Inr cs) # tr)
         = Some (res, (w', tr')))"
proof -
  let ?d = "observed_deps d"
  obtain pr w1 tr1 where prior: "priorChallenge ?d (Number iss) (w, tr) = (pr, (w1, tr1))" by (metis surj_pair)
  obtain r where r: "tr1 = EvOwnComments (Number iss) r # tr"
    "case pr of Inl e \<Rightarrow> True | Inr ch \<Rightarrow> \<exists>cs. r = Inr cs \<and> ch = last_challenge cs None"
    using priorChallenge_trace [OF prior] by blast
  show ?thesis
  proof (cases "\<exists>nonce postedAt. pr = Inr (Some (nonce, postedAt))")
    case False
    then have "quietly tr1 tr'"
      using assms prior by (cases pr) (auto simp: challenge_phase_def split: option.splits dest: postChallenge_quiet)
    then show ?thesis using r by (auto dest: quietly_ConsD)
  next
    case True
    then obtain nonce postedAt cs where pr: "pr = Inr (Some (nonce, postedAt))" "r = Inr cs"
      "last_challenge cs None = Some (nonce, postedAt)" using r by auto
    obtain now w2 where c: "Clock d w1 = (now, w2)" by (metis surj_pair)
    let ?tr2 = "EvNow now # tr1"
    show ?thesis
    proof (cases "Expired postedAt now")
      case True
      then have "terminal ?d iss LabelExpired msg_expired (w2, ?tr2) = (res, (w', tr'))"
        using assms prior pr c by (simp add: challenge_phase_def)
      from terminal_quiet [OF this] show ?thesis using r by (auto dest!: quietly_ConsD)
    next
      case fresh: False
      obtain fr w3 where fetch: "GetFile (GH d) (FormRepo f) FilePath w2 = (fr, w3)" by (metis surj_pair)
      note unf = assms [unfolded challenge_phase_def prior prod.case pr sum.case option.case]
      show ?thesis
      proof (cases "\<exists>got gsha. fr = Inr (got, gsha) \<and> Match nonce got")
        case False
        then have "tr' = EvGetFile (FormRepo f) FilePath fr # ?tr2"
          using unf c fresh fetch by (cases fr) (auto split: if_splits prod.splits)
        then show ?thesis using r by simp
      next
        case True
        then obtain got gsha where "fr = Inr (got, gsha)" "Match nonce got" by blast
        then show ?thesis
          using unf c fresh fetch r pr by auto blast
      qed
    qed
  qed
qed

text \<open>The checks of steps 1 to 5.\<close>

definition identified ::
  "'v crypto_lib \<Rightarrow> xml_parser \<Rightarrow> issue \<Rightarrow> form \<Rightarrow> certificate_request \<Rightarrow> string \<Rightarrow> string \<Rightarrow> bool" where
  "identified lib xml iss f req a infoXML \<longleftrightarrow>
     LabelIssued \<notin> set (Labels iss) \<and> parseForm (IssueBody iss) = Inr f \<and> Csr.Parse lib (CSR f) = Inr req \<and>
     CommonName (ReqSubject req) = a \<and> Valid a \<and> (\<exists>rawID. ExtractID xml infoXML = Inr rawID \<and> Fold rawID = a)"

lemma hasLabel_iff: "hasLabel ls l \<longleftrightarrow> l \<in> set ls"
  by (induction ls) auto

lemma Process_phase:
  assumes "Process lib xml (observed_deps d) iss (w, tr) = Some (res, (w', tr'))"
  shows "quietly tr tr' \<or>
    (\<exists>f req a infoXML isha w1. identified lib xml iss f req a infoXML \<and>
       challenge_phase lib (observed_deps d) iss f req a
         (w1, EvGetFile (FormRepo f) infoPath (Inr (infoXML, isha)) # tr) = Some (res, (w', tr')))"
proof -
  let ?d = "observed_deps d"
  show ?thesis
  proof (cases "\<exists>f req. \<not> hasLabel (Labels iss) LabelIssued \<and> parseForm (IssueBody iss) = Inr f \<and>
      Csr.Parse lib (CSR f) = Inr req \<and> Valid (CommonName (ReqSubject req))")
    case False
    then have "quietly tr tr'"
      using assms by (auto simp: Process_def ValidateStrict_def split: sum.splits if_splits dest: terminal_quiet)
    then show ?thesis ..
  next
    case True
    then obtain f req where f: "\<not> hasLabel (Labels iss) LabelIssued" "parseForm (IssueBody iss) = Inr f"
      "Csr.Parse lib (CSR f) = Inr req" "Valid (CommonName (ReqSubject req))" by blast
    let ?cn = "CommonName (ReqSubject req)"
    obtain fr w1 where fetch: "GetFile (GH d) (FormRepo f) infoPath w = (fr, w1)" by (metis surj_pair)
    let ?tr1 = "EvGetFile (FormRepo f) infoPath fr # tr"
    have unf: "(case fr of
        Inl e \<Rightarrow> if errors_is e ErrNotFound then Some (info_not_found ?d iss (FormRepo f) (w1, ?tr1))
                 else Some (Inl (Wrap ''enroll: fetch info.xml: '' e []), (w1, ?tr1))
      | Inr (infoXML, sha) \<Rightarrow>
          (case ExtractID xml infoXML of
             Inl e \<Rightarrow> Some (terminal ?d iss LabelNeedsChanges (msg_no_id (FormRepo f) e) (w1, ?tr1))
           | Inr rawID \<Rightarrow>
               (case Canonicalize rawID of
                  Inl e \<Rightarrow> Some (terminal ?d iss LabelNeedsChanges (msg_bad_id rawID) (w1, ?tr1))
                | Inr infoAppID \<Rightarrow>
                    if ?cn \<noteq> infoAppID
                    then Some (terminal ?d iss LabelNeedsChanges (msg_mismatch ?cn infoAppID) (w1, ?tr1))
                    else challenge_phase lib ?d iss f req ?cn (w1, ?tr1)))) = Some (res, (w', tr'))"
      using assms f fetch by (cases fr) (auto simp: Process_def ValidateStrict_def)
    show ?thesis
    proof (cases "\<exists>infoXML isha rawID. fr = Inr (infoXML, isha) \<and> ExtractID xml infoXML = Inr rawID \<and> Canonicalize rawID = Inr ?cn")
      case False
      then have "quietly ?tr1 tr'"
        using unf by (cases fr) (auto split: sum.splits if_splits prod.splits dest: terminal_quiet info_not_found_quiet)
      then show ?thesis by (auto dest: quietly_ConsD)
    next
      case True
      then obtain infoXML isha rawID where x: "fr = Inr (infoXML, isha)" "ExtractID xml infoXML = Inr rawID"
        "Canonicalize rawID = Inr ?cn" by blast
      then have "identified lib xml iss f req ?cn infoXML"
        using f by (auto simp: identified_def hasLabel_iff)
      moreover have "challenge_phase lib ?d iss f req ?cn (w1, ?tr1) = Some (res, (w', tr'))"
        using unf x by simp
      ultimately show ?thesis using x by blast
    qed
  qed
qed

section \<open>What a run has shown before it issues\<close>

text \<open>
  The calls of \<open>tr\<close> prove the requester's claim to the appId \<open>a\<close>: the issue is not issued yet, its
  request has an allowed key and a valid signature, its common name is the appId and equals the
  folded id of the repository's \<open>info.xml\<close>, the bot's latest challenge is at most 72 hours old
  and the repository serves its nonce, and the ledger read last leaves the appId to the repository.
\<close>

definition challenge_met :: "issue \<Rightarrow> string \<Rightarrow> event list \<Rightarrow> bool" where
  "challenge_met iss repo tr \<longleftrightarrow>
     (\<exists>cs nonce postedAt now got gsha.
        EvOwnComments (Number iss) (Inr cs) \<in> set tr \<and> last_challenge cs None = Some (nonce, postedAt) \<and>
        EvNow now \<in> set tr \<and> now - postedAt \<le> Validity \<and>
        EvGetFile repo FilePath (Inr (got, gsha)) \<in> set tr \<and> trim_space got = nonce)"

definition entitled ::
  "'v crypto_lib \<Rightarrow> xml_parser \<Rightarrow> issue \<Rightarrow> form \<Rightarrow> certificate_request \<Rightarrow> string \<Rightarrow> ledger option \<Rightarrow> string
     \<Rightarrow> event list \<Rightarrow> bool" where
  "entitled lib xml iss f req a ex sha tr \<longleftrightarrow>
     (\<exists>infoXML isha. identified lib xml iss f req a infoXML \<and>
        EvGetFile (FormRepo f) infoPath (Inr (infoXML, isha)) \<in> set tr) \<and>
     challenge_met iss (FormRepo f) tr \<and>
     (\<exists>g. EvGetLedger a g \<in> set tr \<and> read_as ex sha g) \<and>
     Decide ex (FormRepo f) \<in> {DecisionNewClaim, DecisionAllowed}"

lemma Process_outcome:
  assumes run: "Process lib xml (observed_deps d) iss (w, []) = Some (res, (w', tr))"
  shows "list_all silent tr \<or>
    (\<exists>f req a ex sha before. list_all silent before \<and> entitled lib xml iss f req a ex sha before \<and>
       minted lib (IssuerCertificate (Signer d)) iss f a (ReqPublicKey req) ex sha before tr)"
proof (cases "list_all silent tr")
  case False
  then have nq: "\<not> quietly t tr" if "list_all silent t" for t
    using that quietly_all by blast
  obtain f req a infoXML isha w1 where id: "identified lib xml iss f req a infoXML"
    and ch: "challenge_phase lib (observed_deps d) iss f req a
        (w1, [EvGetFile (FormRepo f) infoPath (Inr (infoXML, isha))]) = Some (res, (w', tr))"
    using Process_phase [OF run] nq [of "[]"] by auto
  let ?tr1 = "[EvGetFile (FormRepo f) infoPath (Inr (infoXML, isha))]"
  obtain cs nonce postedAt now got gsha w2 where c: "last_challenge cs None = Some (nonce, postedAt)"
      "\<not> Expired postedAt now" "Match nonce got"
    and dec: "decide_and_issue lib (observed_deps d) iss f req a
         (w2, EvGetFile (FormRepo f) FilePath (Inr (got, gsha)) # EvNow now # EvOwnComments (Number iss) (Inr cs) # ?tr1)
         = Some (res, (w', tr))"
    using challenge_phase_cases [OF ch] nq [of ?tr1] by auto
  let ?tr2 = "EvGetFile (FormRepo f) FilePath (Inr (got, gsha)) # EvNow now # EvOwnComments (Number iss) (Inr cs) # ?tr1"
  obtain ex sha g where g: "read_as ex sha g" "Decide ex (FormRepo f) \<in> {DecisionNewClaim, DecisionAllowed}"
      "minted lib (IssuerCertificate (Signer d)) iss f a (ReqPublicKey req) ex sha (EvGetLedger a g # ?tr2) tr"
    using decide_phase [OF dec] nq [of ?tr2] by auto
  have "challenge_met iss (FormRepo f) (EvGetLedger a g # ?tr2)"
    unfolding challenge_met_def using c
    by (intro exI [of _ cs] exI [of _ nonce] exI [of _ postedAt] exI [of _ now] exI [of _ got] exI [of _ gsha])
       (simp add: Expired_iff Match_def Let_def)
  then have "entitled lib xml iss f req a ex sha (EvGetLedger a g # ?tr2)"
    using id g by (auto simp: entitled_def)
  moreover have "list_all silent (EvGetLedger a g # ?tr2)" by simp
  ultimately show ?thesis using g(3) by blast
qed simp

lemma minted_suffix: "minted lib ic iss f a pub ex sha before tr \<Longrightarrow> \<exists>after. tr = after @ before"
  unfolding minted_def by (metis append.assoc append_Cons append_Nil)

section \<open>Properties\<close>

text \<open>C1: Whatever GitHub, the clock, the signer and the random source answer: when a poll of the
  issuer writes a ledger or closes the issue, the requester's claim had been proved by earlier calls
  of the same poll (allowed key and proof of possession, CommonName equal to the \<open>info.xml\<close> id,
  a fresh challenge answered by the repository, the appId free or owned by that repository), and no
  ledger had been written nor the issue closed before that proof was complete.\<close>
theorem issuance_needs_proof:
  "case Process lib xml (observed_deps d) iss (w, []) of
     None \<Rightarrow> True
   | Some (res, (w', tr)) \<Rightarrow>
       list_all silent tr \<or>
       (\<exists>f req a ex sha before after. tr = after @ before \<and> list_all silent before \<and>
          entitled lib xml iss f req a ex sha before)"
proof (cases "Process lib xml (observed_deps d) iss (w, [])")
  case (Some r)
  then obtain res w' tr where r: "Process lib xml (observed_deps d) iss (w, []) = Some (res, (w', tr))"
    by (cases r) auto
  show ?thesis
    unfolding r option.case prod.case using Process_outcome [OF r] minted_suffix by meson
qed simp

text \<open>C2: The ledger writes of a poll are at most five, all of the proved appId, each appending exactly
  the entry of the one leaf signed in this poll to a ledger that this poll read (or to a new ledger
  of the proved repository); the first appends to the ledger the ownership check accepted; only the
  last one can have succeeded. The leaf was signed for the key and name of the request, after the
  proof, with a positive serial below 2^128 and an end of validity not after the issuer's.\<close>
theorem issuance_writes:
  "case Process lib xml (observed_deps d) iss (w, []) of
     None \<Rightarrow> True
   | Some (res, (w', tr)) \<Rightarrow>
       list_all silent tr \<or>
       (\<exists>f req a ex sha before now t issuer serial der leaf later (cres :: unit result).
          entitled lib xml iss f req a ex sha before \<and>
          tr = later @ EvSign (leaf_template (leaf_inputs a f (ReqPublicKey req) now (Some issuer)) issuer serial)
                         (ReqPublicKey req) (Inr der) # EvNow now # before \<and>
          0 < serial \<and> serial < 2 ^ 128 \<and> ParseCertificate lib der = Inr leaf \<and>
          loop_writes (issue_put a (FormRepo f) (ledger_entry lib iss leaf der) t) 5 (ex, sha) (known_reads a tr) cres (puts tr))"
proof (cases "Process lib xml (observed_deps d) iss (w, [])")
  case (Some r)
  then obtain res w' tr where r: "Process lib xml (observed_deps d) iss (w, []) = Some (res, (w', tr))"
    by (cases r) auto
  show ?thesis
  proof (cases "list_all silent tr")
    case False
    then obtain f req a ex sha before where b: "list_all silent before" "entitled lib xml iss f req a ex sha before"
      "minted lib (IssuerCertificate (Signer d)) iss f a (ReqPublicKey req) ex sha before tr"
      using Process_outcome [OF r] by blast
    from b(3) obtain now t issuer serial der leaf ext post cres where m:
      "IssuerCertificate (Signer d) = Some issuer" "0 < serial" "serial < 2 ^ 128" "ParseCertificate lib der = Inr leaf"
      "tr = post @ ext @ EvSign (leaf_template (leaf_inputs a f (ReqPublicKey req) now (IssuerCertificate (Signer d))) issuer serial)
              (ReqPublicKey req) (Inr der) # EvNow now # before"
      "puts post = []" "loop_writes (issue_put a (FormRepo f) (ledger_entry lib iss leaf der) t) maxLedgerRetries (ex, sha) (known_reads a tr) (cres :: unit result) (puts ext)"
      unfolding minted_def by (elim exE conjE) (rule that; assumption)
    have "puts tr = puts ext" using m(5,6) puts_silent [OF b(1)] by simp
    with m b show ?thesis
      unfolding r option.case prod.case maxLedgerRetries_def by (metis append.assoc)
  qed (simp add: r)
qed simp

text \<open>C5: An issue is only closed by the issuer after a write of its ledger entry has succeeded: a
  poll that closes the issue has made a successful ledger write as its latest write.\<close>
theorem close_needs_record:
  "case Process lib xml (observed_deps d) iss (w, []) of
     None \<Rightarrow> True
   | Some (res, (w', tr)) \<Rightarrow>
       list_all (\<lambda>e. \<not> is_close e) tr \<or> puts tr \<noteq> [] \<and> put_ok (hd (puts tr))"
proof (cases "Process lib xml (observed_deps d) iss (w, [])")
  case (Some r)
  then obtain res w' tr where r: "Process lib xml (observed_deps d) iss (w, []) = Some (res, (w', tr))"
    by (cases r) auto
  show ?thesis
  proof (cases "list_all silent tr")
    case True
    then have "list_all (\<lambda>e. \<not> is_close e) tr" by (auto simp: list_all_iff)
    then show ?thesis by (simp add: r)
  next
    case False
    then obtain f req a ex sha before where b: "list_all silent before"
      "minted lib (IssuerCertificate (Signer d)) iss f a (ReqPublicKey req) ex sha before tr"
        "entitled lib xml iss f req a ex sha before"
      using Process_outcome [OF r] by blast
    from b(2) obtain now t issuer serial der leaf ext post cres where m:
      "tr = post @ ext @ EvSign (leaf_template (leaf_inputs a f (ReqPublicKey req) now (IssuerCertificate (Signer d))) issuer serial)
              (ReqPublicKey req) (Inr der) # EvNow now # before"
      "puts post = []" "\<forall>e\<in>set ext. \<not> is_close e"
      "loop_writes (issue_put a (FormRepo f) (ledger_entry lib iss leaf der) t) maxLedgerRetries (ex, sha) (known_reads a tr) (cres :: unit result) (puts ext)"
      "case cres of Inl e \<Rightarrow> post = [] | Inr u \<Rightarrow> True"
      unfolding minted_def by (elim exE conjE) (rule that; assumption)
    have puts: "puts tr = puts ext" using m(1,2) puts_silent [OF b(1)] by simp
    show ?thesis
    proof (cases cres)
      case (Inl e)
      then have "list_all (\<lambda>e. \<not> is_close e) tr"
        using m(1,3,5) b(1) Inl by (auto simp: list_all_iff)
      then show ?thesis by (simp add: r)
    next
      case (Inr u)
      then show ?thesis using m(4) puts by (simp add: r loop_writes_def)
    qed
  qed
qed simp

end
