(* ===== verification/RevokeSafety.thy ===== *)
theory RevokeSafety imports Revoke Trace begin

text \<open>
  What must have happened before a revocation is written, for both pipelines and every behaviour
  of the outside world, and what a flip changes in a ledger.
\<close>

section \<open>The pipelines under observation\<close>

definition observed_verifier :: "'w verifier \<Rightarrow> 'w observed verifier" where
  "observed_verifier v = \<lparr>Verify = (\<lambda>b. observe (EvVerify b) (Verify v b))\<rparr>"

definition observed_rdeps :: "'w deps \<Rightarrow> 'w observed deps" where
  "observed_rdeps d =
     \<lparr>RevGH = observed (RevGH d), RevVerifier = observed_verifier (RevVerifier d),
      RevClock = observed_clock (RevClock d)\<rparr>"

definition observed_pdeps :: "'w privileged_deps \<Rightarrow> 'w observed privileged_deps" where
  "observed_pdeps d = \<lparr>PrivGH = observed (PrivGH d), PrivClock = observed_clock (PrivClock d)\<rparr>"

lemma observed_rdeps_simps [simp]:
  "RevGH (observed_rdeps d) = observed (RevGH d)"
  "Verify (RevVerifier (observed_rdeps d)) b = observe (EvVerify b) (Verify (RevVerifier d) b)"
  "PrivGH (observed_pdeps d') = observed (PrivGH d')"
  by (simp_all add: observed_rdeps_def observed_verifier_def observed_pdeps_def)

lemma load_trace:
  "loadLedger (observed gh) a (w, tr) = (res, (w', tr')) \<Longrightarrow>
     \<exists>r. tr' = EvGetLedger a r # tr \<and> (\<forall>ex sha. res = Inr (ex, sha) \<longrightarrow> read_as ex sha r)"
  by (auto simp: loadLedger_def read_as_def split: prod.splits sum.splits if_splits)

lemma rterminal_quiet: "terminal (observed_rdeps d) iss l c (w, tr) = (res, (w', tr')) \<Longrightarrow> quietly tr tr'"
  by (auto simp: terminal_def split: prod.splits sum.splits)

lemma already_no_puts: "already_revoked (observed_rdeps d) iss (w, tr) = (res, (w', tr')) \<Longrightarrow> puts tr' = puts tr"
  by (auto simp: already_revoked_def terminal_def split: prod.splits sum.splits)

lemma rdeliver_no_puts: "deliver (observed_rdeps d) iss b (w, tr) = (res, (w', tr')) \<Longrightarrow> \<exists>post. tr' = post @ tr \<and> puts post = []"
  by (auto simp: deliver_def split: prod.splits sum.splits)

section \<open>The write loop\<close>

text \<open>One write of the loop, made from the ledger \<open>ex\<close> with SHA \<open>sha\<close>.\<close>

fun revoke_put :: "string \<Rightarrow> find_func \<Rightarrow> revocation \<Rightarrow> ledger option \<times> string \<Rightarrow> event \<Rightarrow> bool" where
  "revoke_put a fnd rv (ex, sha) ev \<longleftrightarrow>
     (\<exists>l idx data r. ex = Some l \<and> fnd ex = Some idx \<and> Marshal (flip_at idx rv l) = Inr data \<and>
        ev = EvPutLedger a data sha (revoke_message (Serial (certs l ! idx)) a (RevActor rv)) r)"

lemma apply_loop_writes:
  "apply_loop (observed gh) a fnd rv n lc ex sha (w, tr) = (res, (w', tr')) \<Longrightarrow>
     \<exists>ext. tr' = ext @ tr \<and>
       loop_writes (revoke_put a fnd rv) n (ex, sha) (known_reads a tr') res (puts ext)"
proof (induction n arbitrary: lc ex sha w tr)
  case 0
  then show ?case by (auto simp: Let_def)
next
  case (Suc n)
  let ?P = "revoke_put a fnd rv"
  show ?case
  proof (cases "\<exists>idx l. fnd ex = Some idx \<and> ex = Some l")
    case False
    then have "tr' = tr \<and> (\<exists>e. res = Inl e)"
      using Suc.prems by (cases "fnd ex"; cases ex) auto
    then show ?thesis by (intro exI [of _ "[]"]) auto
  next
    case True
    then obtain idx l where fl: "fnd ex = Some idx" "ex = Some l" by blast
    let ?msg = "revoke_message (Serial (certs l ! idx)) a (RevActor rv)"
    obtain data where data: "Marshal (flip_at idx rv l) = Inr data" by (simp add: Marshal_def)
    obtain r w1 where put: "PutLedger gh a data sha ?msg w = (r, w1)" by (metis surj_pair)
    let ?ev = "EvPutLedger a data sha ?msg"
    have own: "?P (ex, sha) (?ev r)" for r using data fl by auto
    show ?thesis
    proof (cases "\<exists>e. r = Inl e \<and> errors_is e ErrConflict")
      case False
      then have "tr' = ?ev r # tr \<and> ((\<exists>s. res = Inr s) \<and> r = Inr () \<or> (\<exists>e e'. res = Inl e \<and> r = Inl e'))"
        using Suc.prems data put fl by (cases r) (auto simp: Let_def)
      then show ?thesis
        using loop_one [of ?P "(ex, sha)" "?ev r", OF own] by (intro exI [of _ "[?ev r]"]) auto
    next
      case True
      then obtain e where e: "r = Inl e" "errors_is e ErrConflict" by blast
      obtain lr w2 tr2 where load: "loadLedger (observed gh) a (w1, ?ev r # tr) = (lr, (w2, tr2))" by (metis surj_pair)
      obtain g where g: "tr2 = EvGetLedger a g # ?ev r # tr" "\<forall>ex sha. lr = Inr (ex, sha) \<longrightarrow> read_as ex sha g"
        using load_trace [OF load] by blast
      show ?thesis
      proof (cases lr)
        case (Inl e2)
        with Suc.prems data put e load fl have "res = Inl e2" "tr' = tr2" by (auto simp: Let_def)
        then show ?thesis
          using loop_one(2) [of ?P "(ex, sha)" "?ev r", OF own] e g(1)
          by (intro exI [of _ "[EvGetLedger a g, ?ev r]"]) simp
      next
        case (Inr exs)
        then obtain ex2 sha2 where lr: "lr = Inr (ex2, sha2)" by (cases exs) auto
        have "apply_loop (observed gh) a fnd rv n (Some e) ex2 sha2 (w2, tr2) = (res, (w', tr'))"
          using Suc.prems data put e load lr fl by (simp add: Let_def)
        from Suc.IH [OF this] obtain ext where ext: "tr' = ext @ tr2"
          "loop_writes ?P n (ex2, sha2) (known_reads a tr') res (puts ext)" by blast
        have "(ex2, sha2) \<in> known_reads a tr'" by (rule known_readsI [of a g]) (use g lr ext(1) in auto)
        then have "loop_writes ?P (Suc n) (ex, sha) (known_reads a tr') res (puts ext @ [?ev r])"
          using loop_more [of ?P "(ex, sha)" "?ev r" "(ex2, sha2)", OF own] ext(2) e by simp
        then show ?thesis
          using ext(1) g(1) by (intro exI [of _ "ext @ [EvGetLedger a g, ?ev r]"]) simp
      qed
    qed
  qed
qed

section \<open>Self-service\<close>

definition self_revocation :: "timestamp \<Rightarrow> revocation" where
  "self_revocation t = \<lparr>RevReason = ''self-service'', RevFrom = t, RevActor = []\<rparr>"

lemma match_phase:
  assumes "match_and_revoke lib (observed_rdeps d) iss vres a (w, tr) = (res, (w', tr'))"
  shows "puts tr' = puts tr \<or>
    (\<exists>g lg sha idx ext post (cres :: string result).
       read_as (Some lg) sha g \<and> tr' = post @ ext @ EvGetLedger a g # tr \<and> puts post = [] \<and>
       findByFingerprint (Some lg) (Fingerprint lib (Raw (SignerCert vres))) = Some idx \<and>
       Status (certs lg ! idx) \<noteq> StatusRevoked \<and>
       loop_writes (revoke_put a (\<lambda>l. findByFingerprint l (Fingerprint lib (Raw (SignerCert vres))))
           (self_revocation (NotBefore (certs lg ! idx))))
         maxLedgerRetries (Some lg, sha) (known_reads a tr') cres (puts ext))"
proof -
  let ?d = "observed_rdeps d" and ?fp = "Fingerprint lib (Raw (SignerCert vres))"
  obtain lr w1 tr1 where load: "loadLedger (observed (RevGH d)) a (w, tr) = (lr, (w1, tr1))" by (metis surj_pair)
  obtain g where g: "tr1 = EvGetLedger a g # tr" "\<forall>ex sha. lr = Inr (ex, sha) \<longrightarrow> read_as ex sha g"
    using load_trace [OF load] by blast
  show ?thesis
  proof (cases "\<exists>lg sha idx. lr = Inr (Some lg, sha) \<and> findByFingerprint (Some lg) ?fp = Some idx \<and>
      Status (certs lg ! idx) \<noteq> StatusRevoked")
    case False
    then have "puts tr' = puts tr1"
      using assms load
      by (auto simp: match_and_revoke_def Let_def quietly_def puts_silent
          split: sum.splits option.splits prod.splits if_splits
          dest!: rterminal_quiet already_no_puts)
    then show ?thesis using g by simp
  next
    case True
    then obtain lg sha idx where l: "lr = Inr (Some lg, sha)" "findByFingerprint (Some lg) ?fp = Some idx"
      "Status (certs lg ! idx) \<noteq> StatusRevoked" by blast
    let ?rv = "self_revocation (NotBefore (certs lg ! idx))"
    obtain cres w2 tr2 where loop: "apply_loop (observed (RevGH d)) a (\<lambda>l. findByFingerprint l ?fp) ?rv maxLedgerRetries
        None (Some lg) sha (w1, tr1) = (cres, (w2, tr2))" by (metis surj_pair)
    obtain ext where ext: "tr2 = ext @ tr1"
      "loop_writes (revoke_put a (\<lambda>l. findByFingerprint l ?fp) ?rv) maxLedgerRetries (Some lg, sha)
         (known_reads a tr2) cres (puts ext)" using apply_loop_writes [OF loop] by blast
    have "\<exists>post. tr' = post @ tr2 \<and> puts post = []"
      using assms load l loop
      by (cases cres) (auto simp: match_and_revoke_def Let_def self_revocation_def applyRevocation_def dest: rdeliver_no_puts)
    then obtain post where post: "tr' = post @ tr2" "puts post = []" by blast
    have "loop_writes (revoke_put a (\<lambda>l. findByFingerprint l ?fp) ?rv) maxLedgerRetries (Some lg, sha)
         (known_reads a tr') cres (puts ext)"
      using loop_mono [OF ext(2) known_reads_mono, of post] post by simp
    then show ?thesis
      using g l post ext(1)
      by (intro disjI2 exI [of _ g] exI [of _ lg] exI [of _ sha] exI [of _ idx] exI [of _ ext] exI [of _ post] exI [of _ cres]) simp
  qed
qed

lemma revoke_phase:
  assumes "Process lib (observed_rdeps d) iss (w, tr) = (res, (w', tr'))"
  shows "puts tr' = puts tr \<or>
    (\<exists>f vres a w1. LabelRevoked \<notin> set (Labels iss) \<and> parseForm (IssueBody iss) = Inr f \<and>
       Fold (CommonName (Subject (SignerCert vres))) = a \<and> Valid a \<and>
       match_and_revoke lib (observed_rdeps d) iss vres a (w1, EvVerify (CMS f) (Inr vres) # tr) = (res, (w', tr')))"
proof -
  let ?d = "observed_rdeps d"
  have lab: "hasLabel ls l \<longleftrightarrow> l \<in> set ls" for ls l by (induction ls) auto
  have q: "quietly t t' \<Longrightarrow> puts t' = puts t" for t t' by (auto simp: quietly_def puts_silent)
  show ?thesis
  proof (cases "\<exists>f. \<not> hasLabel (Labels iss) LabelRevoked \<and> parseForm (IssueBody iss) = Inr f")
    case False
    then have "puts tr' = puts tr"
      using assms by (auto simp: Process_def split: sum.splits if_splits dest!: rterminal_quiet q)
    then show ?thesis ..
  next
    case True
    then obtain f where f: "\<not> hasLabel (Labels iss) LabelRevoked" "parseForm (IssueBody iss) = Inr f" by blast
    obtain vr w1 where v: "Verify (RevVerifier d) (CMS f) w = (vr, w1)" by (metis surj_pair)
    let ?tr1 = "EvVerify (CMS f) vr # tr"
    show ?thesis
    proof (cases "\<exists>vres. vr = Inr vres \<and> Valid (Fold (CommonName (Subject (SignerCert vres))))")
      case False
      then have "puts tr' = puts ?tr1"
        using assms f v by (cases vr) (auto simp: Process_def split: sum.splits if_splits dest!: rterminal_quiet q)
      then show ?thesis by simp
    next
      case True
      then obtain vres where vres: "vr = Inr vres" "Valid (Fold (CommonName (Subject (SignerCert vres))))" by blast
      then have "Canonicalize (CommonName (Subject (SignerCert vres))) = Inr (Fold (CommonName (Subject (SignerCert vres))))"
        by simp
      then have "match_and_revoke lib ?d iss vres (Fold (CommonName (Subject (SignerCert vres)))) (w1, ?tr1) = (res, (w', tr'))"
        using assms f v vres(1) unfolding Process_def by (simp del: Canonicalize_Inr)
      then show ?thesis using f vres lab by blast
    qed
  qed
qed

section \<open>What a flip changes\<close>

lemma find_index_Some:
  "find_index p xs = Some i \<longleftrightarrow> i < length xs \<and> p (xs ! i) \<and> (\<forall>j<i. \<not> p (xs ! j))"
proof (induction xs arbitrary: i)
  case (Cons x xs)
  then show ?case
    by (cases i) (auto simp: nth_Cons' less_Suc_eq_0_disj)
qed simp

lemma find_index_None: "find_index p xs = None \<longleftrightarrow> list_all (\<lambda>x. \<not> p x) xs"
  by (induction xs) auto

lemma certs_flip: "certs (flip_at idx rv l) = (certs l)[idx := flip_cert rv (certs l ! idx)]"
  by (simp add: flip_at_def certs_def)

lemma AppID_flip [simp]: "Ledger.AppID (flip_at idx rv l) = Ledger.AppID l"
  by (simp add: flip_at_def)

lemma flip_ok: "ledger_ok l \<Longrightarrow> ledger_ok (flip_at idx rv l)"
proof -
  assume ok: "ledger_ok l"
  have "cert_ok (flip_cert rv (certs l ! idx))" by (simp add: cert_ok_def flip_cert_def)
  with ok show ?thesis
    using set_update_subset_insert [of "certs l" idx "flip_cert rv (certs l ! idx)"]
    by (auto simp: ledger_ok_def certs_flip list_all_iff)
qed

section \<open>Privileged\<close>

text \<open>What the operator's inputs must satisfy.\<close>

definition acceptable :: "privileged_request \<Rightarrow> bool" where
  "acceptable req \<longleftrightarrow>
     Valid (PrivAppID req) \<and> trim_space (PrivSerial req) \<noteq> [] \<and> PrivReason req \<noteq> [] \<and> PrivActor req \<noteq> []"

lemma check_request_None: "check_request req = None \<longleftrightarrow> acceptable req"
  by (auto simp: check_request_def acceptable_def split: sum.splits)

lemma resolve_from_Inr:
  "resolve_from wanted nb = Inr t \<longleftrightarrow> (case wanted of None \<Rightarrow> t = nb | Some rf \<Rightarrow> t = rf \<and> nb \<le> rf)"
  by (auto simp: resolve_from_def split: option.splits)

definition privileged_revocation :: "privileged_request \<Rightarrow> timestamp \<Rightarrow> revocation" where
  "privileged_revocation req t = \<lparr>RevReason = PrivReason req, RevFrom = t, RevActor = PrivActor req\<rparr>"

lemma privileged_phase:
  assumes "PrivilegedProcess (observed_pdeps d) req (w, tr) = (res, (w', tr'))"
  shows "tr' = tr \<and> isl res \<or>
    (\<exists>g. tr' = EvGetLedger (PrivAppID req) g # tr \<and> isl res) \<or>
    (\<exists>g lg sha idx t ext (cres :: string result).
       acceptable req \<and> read_as (Some lg) sha g \<and> tr' = ext @ EvGetLedger (PrivAppID req) g # tr \<and>
       findBySerial (Some lg) (trim_space (PrivSerial req)) = Some idx \<and>
       resolve_from (PrivRevokedFrom req) (NotBefore (certs lg ! idx)) = Inr t \<and>
       isl res = isl cres \<and>
       loop_writes (revoke_put (PrivAppID req) (\<lambda>l. findBySerial l (trim_space (PrivSerial req))) (privileged_revocation req t))
         maxLedgerRetries (Some lg, sha) (known_reads (PrivAppID req) tr') cres (puts ext))"
proof -
  let ?a = "PrivAppID req" and ?d = "observed_pdeps d" and ?s = "trim_space (PrivSerial req)"
  show ?thesis
  proof (cases "acceptable req")
    case False
    then obtain e where "check_request req = Some e" using check_request_None [of req] by blast
    then show ?thesis using assms by (auto simp: PrivilegedProcess_def)
  next
    case True
    then have chk: "check_request req = None" by (simp add: check_request_None)
    obtain lr w1 tr1 where load: "loadLedger (observed (PrivGH d)) ?a (w, tr) = (lr, (w1, tr1))" by (metis surj_pair)
    obtain g where g: "tr1 = EvGetLedger ?a g # tr" "\<forall>ex sha. lr = Inr (ex, sha) \<longrightarrow> read_as ex sha g"
      using load_trace [OF load] by blast
    show ?thesis
    proof (cases "\<exists>lg sha idx t. lr = Inr (Some lg, sha) \<and> findBySerial (Some lg) ?s = Some idx \<and>
        resolve_from (PrivRevokedFrom req) (NotBefore (certs lg ! idx)) = Inr t")
      case False
      then have "tr' = tr1 \<and> isl res"
        using assms load chk by (auto simp: PrivilegedProcess_def Let_def split: sum.splits option.splits prod.splits)
      then show ?thesis using g by blast
    next
      case True
      then obtain lg sha idx t where l: "lr = Inr (Some lg, sha)" "findBySerial (Some lg) ?s = Some idx"
        "resolve_from (PrivRevokedFrom req) (NotBefore (certs lg ! idx)) = Inr t" by blast
      let ?rv = "privileged_revocation req t"
      obtain cres w2 tr2 where loop: "apply_loop (observed (PrivGH d)) ?a (\<lambda>l. findBySerial l ?s) ?rv maxLedgerRetries
          None (Some lg) sha (w1, tr1) = (cres, (w2, tr2))" by (metis surj_pair)
      have "PrivilegedProcess ?d req (w, tr) =
          (case cres of Inl e \<Rightarrow> (Inl e, (w2, tr2)) | Inr s \<Rightarrow> (Inr (), (w2, tr2)))"
        unfolding PrivilegedProcess_def Let_def chk option.case observed_rdeps_simps(3) load prod.case l sum.case
          applyRevocation_def loop [unfolded privileged_revocation_def] ..
      then have fin: "tr' = tr2" "isl res = isl cres"
        using assms by (cases cres; simp)+
      obtain ext where "tr2 = ext @ tr1"
        "loop_writes (revoke_put ?a (\<lambda>l. findBySerial l ?s) ?rv) maxLedgerRetries (Some lg, sha)
           (known_reads ?a tr2) cres (puts ext)" using apply_loop_writes [OF loop] by blast
      then show ?thesis
        using g l fin \<open>acceptable req\<close>
        by (intro disjI2 exI [of _ g] exI [of _ lg] exI [of _ sha] exI [of _ idx] exI [of _ t] exI [of _ ext] exI [of _ cres]) simp
    qed
  qed
qed

section \<open>What a flip leaves\<close>

definition revocation_canonical :: "revocation \<Rightarrow> bool" where
  "revocation_canonical rv \<longleftrightarrow> utf8_valid (RevReason rv) \<and> utf8_valid (RevActor rv) \<and> time_canonical (RevFrom rv)"

text \<open>The same certificate of the same requester, whatever its state.\<close>

definition same_identity :: "certificate \<Rightarrow> certificate \<Rightarrow> bool" where
  "same_identity c c' \<longleftrightarrow>
     Serial c' = Serial c \<and> CertFingerprint c' = CertFingerprint c \<and> NotBefore c' = NotBefore c \<and>
     NotAfter c' = NotAfter c \<and> Requester c' = Requester c \<and> IssueRef c' = IssueRef c"

lemma flip_canonical:
  assumes "ledger_canonical l" "idx < length (certs l)" "revocation_canonical rv"
  shows "ledger_canonical (flip_at idx rv l)"
proof -
  have "certificate_canonical (certs l ! idx)" using assms(1,2) by (simp add: ledger_canonical_def list_all_length)
  then have "certificate_canonical (flip_cert rv (certs l ! idx))"
    using assms(3) by (simp add: certificate_canonical_def flip_cert_def revocation_canonical_def StatusRevoked_def is_ascii_def)
  then have "list_all certificate_canonical (certs (flip_at idx rv l))"
    using assms(1) set_update_subset_insert [of "certs l" idx "flip_cert rv (certs l ! idx)"]
    by (auto simp: ledger_canonical_def certs_flip list_all_iff)
  then show ?thesis using assms(1) by (simp add: ledger_canonical_def flip_at_def)
qed

section \<open>Properties\<close>

text \<open>C3: Whatever GitHub, the verifier and the clock answer: when a poll of the self-service revoker
  writes a ledger, the issue carried a CMS block that the verifier accepted in this poll, the
  CommonName of its signer certificate folds to a valid appId, the ledger of that appId was read
  after the verification and holds a certificate, not yet revoked, with the signer's fingerprint.
  All writes, at most five of which only the last can have succeeded, flip the first certificate
  with this fingerprint in a ledger of that appId that the poll read, from its issue date on.\<close>
theorem self_revocation_needs_proof:
  "case Process lib (observed_rdeps d) iss (w, []) of (res, (w', tr)) \<Rightarrow>
     puts tr = [] \<or>
     (\<exists>f vres a fnd g lg sha idx ext post (cres :: string result).
        LabelRevoked \<notin> set (Labels iss) \<and> parseForm (IssueBody iss) = Inr f \<and>
        a = Fold (CommonName (Subject (SignerCert vres))) \<and> Valid a \<and>
        tr = post @ ext @ [EvGetLedger a g, EvVerify (CMS f) (Inr vres)] \<and> puts post = [] \<and>
        read_as (Some lg) sha g \<and>
        fnd = (\<lambda>l. findByFingerprint l (Fingerprint lib (Raw (SignerCert vres)))) \<and>
        fnd (Some lg) = Some idx \<and> Status (certs lg ! idx) \<noteq> StatusRevoked \<and>
        loop_writes (revoke_put a fnd (self_revocation (NotBefore (certs lg ! idx))))
          5 (Some lg, sha) (known_reads a tr) cres (puts tr))"
proof -
  obtain res w' tr where r: "Process lib (observed_rdeps d) iss (w, []) = (res, (w', tr))" by (metis surj_pair)
  show ?thesis
  proof (cases "puts tr = []")
    case False
    with revoke_phase [OF r] obtain f vres a w1 where p: "LabelRevoked \<notin> set (Labels iss)"
      "parseForm (IssueBody iss) = Inr f" "Fold (CommonName (Subject (SignerCert vres))) = a" "Valid a"
      "match_and_revoke lib (observed_rdeps d) iss vres a (w1, [EvVerify (CMS f) (Inr vres)]) = (res, (w', tr))" by auto
    let ?fnd = "\<lambda>l. findByFingerprint l (Fingerprint lib (Raw (SignerCert vres)))"
    from match_phase [OF p(5)] False obtain g lg sha idx ext post and cres :: "string result" where m:
      "read_as (Some lg) sha g" "tr = post @ ext @ EvGetLedger a g # [EvVerify (CMS f) (Inr vres)]" "puts post = []"
      "?fnd (Some lg) = Some idx" "Status (certs lg ! idx) \<noteq> StatusRevoked"
      "loop_writes (revoke_put a ?fnd (self_revocation (NotBefore (certs lg ! idx)))) maxLedgerRetries (Some lg, sha)
         (known_reads a tr) cres (puts ext)" by auto
    have e: "puts tr = puts ext" using m(2,3) by simp
    show ?thesis
      unfolding r prod.case using p m(1-5) m(6) [folded e, unfolded maxLedgerRetries_def]
      by (intro disjI2 exI [of _ f] exI [of _ vres] exI [of _ a] exI [of _ ?fnd] exI [of _ g] exI [of _ lg] exI [of _ sha]
          exI [of _ idx] exI [of _ ext] exI [of _ post] exI [of _ cres]) simp
  qed (simp add: r)
qed

text \<open>C11: A privileged run that succeeds was given an appId of the strict grammar and a serial, a reason
  and an actor that are not empty; it read the ledger of that appId, and its last write, accepted
  by GitHub, flips the first certificate with that serial to the operator's reason and date; the
  date is the operator's, not before the certificate's issue date, or by default that issue date.
  A run that fails has had no write accepted.\<close>
theorem privileged_revocation_checked:
  "case PrivilegedProcess (observed_pdeps d) req (w, []) of (res, (w', tr)) \<Rightarrow>
     (case res of
        Inl e \<Rightarrow> list_all (\<lambda>ev. \<not> put_ok ev) (puts tr)
      | Inr u \<Rightarrow>
          acceptable req \<and>
          (\<exists>lg sha g idx t (cres :: string result). read_as (Some lg) sha g \<and> EvGetLedger (PrivAppID req) g \<in> set tr \<and>
             findBySerial (Some lg) (trim_space (PrivSerial req)) = Some idx \<and>
             (case PrivRevokedFrom req of
                None \<Rightarrow> t = NotBefore (certs lg ! idx)
              | Some rf \<Rightarrow> t = rf \<and> NotBefore (certs lg ! idx) \<le> rf) \<and>
             puts tr \<noteq> [] \<and> put_ok (hd (puts tr)) \<and>
             loop_writes (revoke_put (PrivAppID req) (\<lambda>l. findBySerial l (trim_space (PrivSerial req)))
                 \<lparr>RevReason = PrivReason req, RevFrom = t, RevActor = PrivActor req\<rparr>)
               5 (Some lg, sha) (known_reads (PrivAppID req) tr) cres (puts tr)))"
proof -
  obtain res w' tr where r: "PrivilegedProcess (observed_pdeps d) req (w, []) = (res, (w', tr))" by (metis surj_pair)
  show ?thesis
    using privileged_phase [OF r]
  proof (elim disjE exE conjE)
    fix g lg sha idx t ext and cres :: "string result"
    assume m: "acceptable req" "read_as (Some lg) sha g" "tr = ext @ EvGetLedger (PrivAppID req) g # []"
      "findBySerial (Some lg) (trim_space (PrivSerial req)) = Some idx"
      "resolve_from (PrivRevokedFrom req) (NotBefore (certs lg ! idx)) = Inr t" "isl res = isl cres"
      and l: "loop_writes (revoke_put (PrivAppID req) (\<lambda>l. findBySerial l (trim_space (PrivSerial req))) (privileged_revocation req t))
         maxLedgerRetries (Some lg, sha) (known_reads (PrivAppID req) tr) cres (puts ext)"
    have e: "puts tr = puts ext" using m(3) by simp
    show ?thesis
    proof (cases res)
      case (Inl er)
      then obtain e2 where "cres = Inl e2" using m(6) by (cases cres) auto
      then show ?thesis using l Inl by (simp add: r e loop_writes_def list_all_iff)
    next
      case (Inr u)
      then obtain s where "cres = Inr s" using m(6) by (cases cres) auto
      then have ok: "puts tr \<noteq> []" "put_ok (hd (puts tr))" using l by (simp_all add: e loop_writes_def)
      show ?thesis
        unfolding r prod.case Inr sum.case
        using m(1,2,4) ok m(5) [unfolded resolve_from_Inr] l [folded e, unfolded maxLedgerRetries_def privileged_revocation_def] m(3)
        by (intro conjI exI [of _ lg] exI [of _ sha] exI [of _ g] exI [of _ idx] exI [of _ t] exI [of _ cres]) simp_all
    qed
  qed (auto simp: r split: sum.splits)
qed

text \<open>C18: The file a flip writes reads back as the ledger it was made from, with the owner, the claim
  and every other certificate as they were and the chosen one revoked as asked: its serial,
  fingerprint, validity, requester and issue are untouched.\<close>
theorem flip_reads_back:
  assumes "ledger_canonical l" and "ledger_ok l" and "idx < length (certs l)" and "revocation_canonical rv"
    and "Marshal (flip_at idx rv l) = Inr data"
  shows "\<exists>l'. Ledger.Parse data = Inr l' \<and> Ledger.AppID l' = Ledger.AppID l \<and> Ledger.Owner l' = Ledger.Owner l \<and>
    ClaimedAt l' = ClaimedAt l \<and> Reserved l' = Reserved l \<and> length (certs l') = length (certs l) \<and>
    (\<forall>j. j \<noteq> idx \<longrightarrow> certs l' ! j = certs l ! j) \<and> same_identity (certs l ! idx) (certs l' ! idx) \<and>
    Status (certs l' ! idx) = StatusRevoked \<and> RevokedFrom (certs l' ! idx) = Some (RevFrom rv) \<and>
    Reason (certs l' ! idx) = RevReason rv \<and> Actor (certs l' ! idx) = RevActor rv"
proof (intro exI [of _ "flip_at idx rv l"] conjI)
  show "Ledger.Parse data = Inr (flip_at idx rv l)"
    by (rule Parse_Marshal_canonical [OF flip_canonical [OF assms(1,3,4)] flip_ok [OF assms(2)] assms(5)])
  show "length (certs (flip_at idx rv l)) = length (certs l)"
    "\<forall>j. j \<noteq> idx \<longrightarrow> certs (flip_at idx rv l) ! j = certs l ! j"
    "same_identity (certs l ! idx) (certs (flip_at idx rv l) ! idx)"
    "Status (certs (flip_at idx rv l) ! idx) = StatusRevoked"
    "RevokedFrom (certs (flip_at idx rv l) ! idx) = Some (RevFrom rv)"
    "Reason (certs (flip_at idx rv l) ! idx) = RevReason rv" "Actor (certs (flip_at idx rv l) ! idx) = RevActor rv"
    using assms(3) by (simp_all add: certs_flip same_identity_def flip_cert_def)
qed (simp_all add: flip_at_def)

end
