(* ===== verification/Witnesses.thy ===== *)
theory Witnesses imports NoLostUpdate EnrollSafety RevokeSafety begin

text \<open>
  Concrete inputs on which the hypotheses of the properties hold.
\<close>

section \<open>Data\<close>

definition ex_requester :: requester where
  "ex_requester = \<lparr>RequesterOrigin = ''github'', Login = ''dev'', UserID = 7\<rparr>"

definition ex_entry :: certificate where
  "ex_entry =
     \<lparr>Serial = ''0x1f'', CertFingerprint = ''sha256:00'', NotBefore = 0, NotAfter = 86400 * nanosecond_per_second,
      Requester = ex_requester, IssueRef = ''#1'', Status = StatusActive, RevokedFrom = None, Reason = [], Actor = []\<rparr>"

definition ex_ledger :: ledger where
  "ex_ledger =
     \<lparr>AppID = ''acme'', Owner = \<lparr>OwnerOrigin = ''github'', Repo = ''acme/acme''\<rparr>, ClaimedAt = 0,
      Reserved = False, Certificates = Some [ex_entry]\<rparr>"

definition ex_text :: string where
  "ex_text = (case Marshal ex_ledger of Inr t \<Rightarrow> t | Inl e \<Rightarrow> [])"

lemma time_canonical_0: "time_canonical 0" "time_canonical (86400 * nanosecond_per_second)"
  by code_simp+

lemma ex_ledger_ok: "ledger_canonical ex_ledger" "ledger_ok ex_ledger"
  by (simp_all add: ledger_canonical_def ex_ledger_def certs_def certificate_canonical_def ex_entry_def
      time_canonical_0 owner_canonical_def requester_canonical_def ex_requester_def is_ascii_def int64_def
      StatusActive_def ledger_ok_def cert_ok_def Valid_iff is_lower_def appid_char_def)

lemma Marshal_ex: "Marshal ex_ledger = Inr ex_text"
  by (simp add: ex_text_def Marshal_def)

lemma Parse_ex: "Ledger.Parse ex_text = Inr ex_ledger"
  by (rule Parse_Marshal_canonical [OF ex_ledger_ok Marshal_ex])

definition ex_signer :: "'w signer" where
  "ex_signer =
     \<lparr>IssuerCertificate = None, Sign = (\<lambda>t p w. (Inr ''der'', w)), SignCRL = (\<lambda>l w. (Inr ''crl'', w))\<rparr>"

definition ex_deps :: "'w github \<Rightarrow> 'w Enroll.deps" where
  "ex_deps gh =
     \<lparr>GH = gh, Signer = ex_signer, Clock = (\<lambda>w. (0, w)), Rand = (\<lambda>w. (Inr CHR ''x'', w))\<rparr>"

lemma ex_deps_GH [simp]: "GH (ex_deps gh) = gh"
  by (simp add: ex_deps_def)

definition ex_shared :: shared where
  "ex_shared = share New [[(''acme'', ex_text)]]"

lemma ex_shared_ok: "consistent ex_shared" "all_parse ''acme'' ex_shared"
    "\<not> FailNextPutWithConflict (Client ex_shared)" "length (Pending ex_shared) \<le> 8"
  by (simp_all add: ex_shared_def consistent_share_New)
     (simp_all add: share_def all_parse_def New_def Parse_ex)

lemma ex_five: "(5 :: nat) = Suc (Suc 3)"
  by simp

section \<open>The write loops\<close>

theorem shared_store_loses_no_update_witness:
  "\<exists>w' data s older ex'.
     commit_loop (ex_deps shared_github) ''acme'' ''evil/acme'' ex_entry 0 5 None None [] ex_shared = (Inr (), w') \<and>
     History w' ''acme'' = (data, s) # older \<and> latest older ex' \<and>
     Marshal (next_ledger ''acme'' ''evil/acme'' 0 ex_entry ex') = Inr data"
proof -
  obtain w' where run: "commit_loop (ex_deps shared_github) ''acme'' ''evil/acme'' ex_entry 0 5 None None [] ex_shared = (Inr (), w')"
    using commit_after_conflict [OF Parse_ex, of "ex_deps shared_github" "''acme''" "''evil/acme''" ex_entry 0 3]
    unfolding ex_five ex_shared_def by auto
  have "was_read (History ex_shared ''acme'') None []" by (simp add: was_read_def)
  note shared_store_loses_no_update [OF ex_shared_ok(1) this ex_deps_GH, where repo = "''evil/acme''" and entry = ex_entry and
      now = 0 and n = 5 and lc = None, THEN conjunct1]
  then show ?thesis unfolding run by auto
qed

theorem issuer_survives_contention_witness:
  "\<exists>w'. commit_loop (ex_deps shared_github) ''acme'' ''evil/acme'' ex_entry 0 5 None None [] ex_shared = (Inr (), w')"
  by (rule issuer_survives_contention [OF ex_shared_ok(1,2) ex_deps_GH ex_shared_ok(3,4)])

theorem conflict_skips_ownership_check_witness:
  "\<exists>data w'. commit_loop (ex_deps shared_github) ''acme'' ''evil/acme'' ex_entry 0 5 None None [] ex_shared = (Inr (), w') \<and>
     Marshal (append_cert ex_entry ex_ledger) = Inr data \<and> map fst (History w' ''acme'') = [data, ex_text]"
proof -
  have "\<not> Reserved ex_ledger" "Repo (Ledger.Owner ex_ledger) \<noteq> ''evil/acme''"
    by (simp_all add: ex_ledger_def)
  from conflict_skips_ownership_check [OF Parse_ex this ex_deps_GH] show ?thesis
    unfolding ex_shared_def by blast
qed

text \<open>The ledger in the store, and a revocation.\<close>

definition ex_store :: shared where
  "ex_store = share (snd (SetLedger ''acme'' ex_text New)) []"

lemma ex_store_consistent: "consistent ex_store"
  unfolding ex_store_def
  by (rule consistent_share) (auto simp: SetLedger_def mintSHA_def New_def minted_sha_def split: if_splits)

definition ex_revocation :: revocation where
  "ex_revocation = \<lparr>RevReason = ''self-service'', RevFrom = 0, RevActor = []\<rparr>"

section \<open>The ledger file\<close>

theorem flip_reads_back_witness:
  "\<exists>data l'. Marshal (flip_at 0 ex_revocation ex_ledger) = Inr data \<and> Ledger.Parse data = Inr l' \<and>
     Status (certs l' ! 0) = StatusRevoked"
proof -
  have r: "revocation_canonical ex_revocation" "0 < length (certs ex_ledger)"
    by (simp_all add: revocation_canonical_def ex_revocation_def time_canonical_0 is_ascii_def ex_ledger_def certs_def)
  obtain data where "Marshal (flip_at 0 ex_revocation ex_ledger) = Inr data" by (simp add: Marshal_def)
  with flip_reads_back [OF ex_ledger_ok r(2,1) this] show ?thesis by blast
qed

end
