(* ===== verification/GoHttp.thy ===== *)
theory GoHttp imports GoJson X509 begin

text \<open>
  What the two HTTP clients use of Go's library: \<open>json.Marshal\<close> (compact, with HTML escaping)
  and the requests and responses of \<open>net/http\<close>. The transport is the parameter \<open>http_lib\<close>.
\<close>

section \<open>Compact JSON\<close>

definition html_byte :: "char \<Rightarrow> string" where
  "html_byte c =
     (if c = CHR ''<'' then CHR 0x5C # ''u003c''
      else if c = CHR ''>'' then CHR 0x5C # ''u003e''
      else if c = CHR ''&'' then CHR 0x5C # ''u0026'' else [c])"

definition html_escape :: "string \<Rightarrow> string" where
  "html_escape s = concat (map html_byte s)"

fun compact_json :: "json \<Rightarrow> string"
and compact_elems :: "json list \<Rightarrow> string"
and compact_members :: "(string \<times> json) list \<Rightarrow> string" where
  "compact_json JNull = ''null''"
| "compact_json (JBool b) = (if b then ''true'' else ''false'')"
| "compact_json (JNum n) = n"
| "compact_json (JStr s) = html_escape (print_string s)"
| "compact_json (JArr []) = ''[]''"
| "compact_json (JArr (v # vs)) = ''['' @ compact_json v @ compact_elems vs @ '']''"
| "compact_json (JObj []) = ''{}''"
| "compact_json (JObj ((k, v) # ms)) =
     ''{'' @ html_escape (print_string k) @ '':'' @ compact_json v @ compact_members ms @ ''}''"
| "compact_elems [] = []"
| "compact_elems (v # vs) = '','' @ compact_json v @ compact_elems vs"
| "compact_members [] = []"
| "compact_members ((k, v) # ms) =
     '','' @ html_escape (print_string k) @ '':'' @ compact_json v @ compact_members ms"

section \<open>Requests\<close>

record http_request =
  ReqMethod :: string
  ReqUrl :: string
  ReqHeader :: "(string \<times> string) list"
  ReqBody :: "string option"

text \<open>\<open>StatusText\<close> is the code with its text (\<open>404 Not Found\<close>); \<open>RespBody\<close> is what
  \<open>io.ReadAll\<close> returns, its error dropped.\<close>

record http_response =
  StatusCode :: int
  StatusText :: string
  RespBody :: string

text \<open>\<open>NewRequest\<close> fails when the URL does not parse, \<open>Do\<close> when no response arrives.\<close>

record 'w http_lib =
  BadUrl :: "string \<Rightarrow> go_error option"
  RoundTrip :: "http_request \<Rightarrow> ('w, http_response) io"

end
