(* ===== verification/GoCompact.thy ===== *)
theory GoCompact imports GoHttp begin

text \<open>
  What \<open>json.Marshal\<close> writes, \<open>json.Unmarshal\<close> reads back: the round trip of the compact encoding
  with its HTML escapes. It holds of every value: a byte of a string that is not part of a valid
  rune comes back as the replacement character, all else as it was.
\<close>

section \<open>Strings\<close>

definition html_char :: "char \<Rightarrow> bool" where
  "html_char c \<longleftrightarrow> c = CHR ''<'' \<or> c = CHR ''>'' \<or> c = CHR ''&''"

lemma html_byte_plain: "\<not> html_char c \<Longrightarrow> html_byte c = [c]"
  by (simp add: html_byte_def html_char_def)

lemma html_escape_simps [simp]:
  "html_escape [] = []" "html_escape (c # s) = html_byte c @ html_escape s"
  "html_escape (s @ t) = html_escape s @ html_escape t"
  by (simp_all add: html_escape_def)

lemma html_escape_plain: "list_all (\<lambda>c. \<not> html_char c) s \<Longrightarrow> html_escape s = s"
  by (induction s) (auto simp: html_byte_plain)

lemma html_char_ascii: "\<not> is_ascii c \<Longrightarrow> \<not> html_char c"
  by (auto simp: html_char_def is_ascii_def)

lemma html_char_hex: "d < 16 \<Longrightarrow> \<not> html_char (hex_char d)"
  by (auto simp: html_char_def char_eq_byte byte_hex_char simp del: byte_inject)

lemma html_escape_ascii:
  "is_ascii c \<Longrightarrow> html_escape (escape_ascii c) = (if html_char c then html_byte c else escape_ascii c)"
proof (cases "html_char c")
  case True
  then show ?thesis by (auto simp: html_char_def escape_ascii_def)
next
  case False
  assume "is_ascii c"
  then have "list_all (\<lambda>c. \<not> html_char c) (escape_ascii c)"
    using False html_char_hex [of "byte c div 16"] html_char_hex [of "byte c mod 16"]
    by (auto simp: escape_ascii_def hex_byte_def is_ascii_def) (auto simp: html_char_def)
  then show ?thesis using False by (simp add: html_escape_plain)
qed

lemma utf8_rune_bytes:
  "\<not> is_ascii c \<Longrightarrow> utf8_decode (c # t) = Some (u, n) \<Longrightarrow> list_all (\<lambda>c. \<not> is_ascii c) (take n (c # t))"
  by (auto simp: utf8_decode.simps(2) Let_def is_ascii_def is_cont_def split: if_splits list.splits)

lemma html_rune:
  "\<not> is_ascii c \<Longrightarrow> utf8_decode (c # t) = Some (u, n) \<Longrightarrow> html_escape (take n (c # t)) = take n (c # t)"
  by (rule html_escape_plain) (auto dest!: utf8_rune_bytes simp: list_all_iff html_char_ascii)

lemma unescape_html:
  "unescape (''u003c'' @ s) = Some (''<'', s)" "unescape (''u003e'' @ s) = Some (''>'', s)"
  "unescape (''u0026'' @ s) = Some (''&'', s)"
  by (simp_all add: unescape_def hex_val_def is_digit_def utf8_encode_def char_eq_byte del: byte_inject)

lemma parse_html_byte:
  assumes "html_char c"
  shows "parse_string (html_byte c @ s) = map_option (apfst ((#) c)) (parse_string s)"
  using assms unescape_html [of s, THEN parse_string_escape]
  by (auto simp: html_char_def html_byte_def append_single)

lemma parse_escape_char:
  assumes "is_ascii c"
  shows "parse_string (html_escape (escape_ascii c) @ s) = map_option (apfst ((#) c)) (parse_string s)"
  using assms parse_html_byte escape_ascii_parse by (simp add: html_escape_ascii)

lemma html_line_separators:
  "html_escape (CHR 0x5C # ''u2028'') = CHR 0x5C # ''u2028''" "html_escape (CHR 0x5C # ''u2029'') = CHR 0x5C # ''u2029''"
  by (simp_all add: html_byte_def)

lemma parse_line_separators:
  "parse_string (CHR 0x5C # ''u2028'' @ s) = map_option (apfst ((@) (utf8_encode 8232))) (parse_string s)"
  "parse_string (CHR 0x5C # ''u2029'' @ s) = map_option (apfst ((@) (utf8_encode 8233))) (parse_string s)"
  using unescape_line_separators [of s, THEN parse_string_escape] by simp_all

text \<open>One rune of two bytes or more.\<close>

lemma parse_escape_rune:
  assumes "\<not> is_ascii c" "utf8_decode (c # t) = Some (u, n)"
  shows "parse_string (html_escape (if u = 8232 then CHR 0x5C # ''u2028'' else if u = 8233 then CHR 0x5C # ''u2029''
           else take n (c # t)) @ x) = map_option (apfst ((@) (take n (c # t)))) (parse_string x)"
proof -
  have tk: "take n (c # t) = utf8_encode u" by (rule utf8_decode_encode [OF assms(2)])
  show ?thesis
  proof (cases "u = 8232 \<or> u = 8233")
    case True
    then show ?thesis
      unfolding tk using parse_line_separators [of x] html_line_separators by auto
  next
    case False
    obtain m where n: "n = Suc m" using utf8_decode_size [OF assms(2)] by (cases n) auto
    have "utf8_decode (c # (take m t @ x)) = Some (u, n)"
      using utf8_decode_local [OF assms(2), of x] by (simp add: n)
    from parse_string_rune [OF assms(1) this]
    have "parse_string (take n (c # t) @ x) =
        map_option (apfst ((@) (take n (take n (c # t) @ x)))) (parse_string (drop n (take n (c # t) @ x)))"
      by (simp add: n)
    moreover have "length (take n (c # t)) = n" using utf8_decode_size [OF assms(2)] by simp
    ultimately show ?thesis using False html_rune [OF assms] by simp
  qed
qed

lemma html_ufffd: "html_escape (CHR 0x5C # ''ufffd'') = CHR 0x5C # ''ufffd''"
  by (simp add: html_byte_def)

lemma parse_html_string:
  "parse_string (html_escape (escape_string s) @ CHR 0x22 # r) = Some (to_valid s, r)"
proof (induction s rule: escape_string.induct)
  case (1 s)
  show ?case
  proof (cases s)
    case Nil
    then show ?thesis by (simp add: parse_string_quote)
  next
    case (Cons c t)
    show ?thesis
    proof (cases "is_ascii c")
      case True
      with 1 Cons show ?thesis
        by (simp add: escape_string_ascii parse_escape_char)
    next
      case False
      show ?thesis
      proof (cases "utf8_decode s")
        case None
        then have IH: "parse_string (html_escape (escape_string t) @ CHR 0x22 # r) = Some (to_valid t, r)"
          using 1(2) Cons False by auto
        have esc: "escape_string s = (CHR 0x5C # ''ufffd'') @ escape_string t"
          using False None Cons by (subst escape_string.simps) simp
        have "to_valid s = replacement @ to_valid t"
          using None Cons by (subst to_valid.simps) simp
        then show ?thesis
          unfolding esc html_escape_simps(3) html_ufffd append_assoc
          using parse_ufffd [of "html_escape (escape_string t) @ CHR 0x22 # r"] IH by simp
      next
        case (Some un)
        then obtain u n where dec: "utf8_decode s = Some (u, n)" by (cases un) auto
        from dec Cons False have IH: "parse_string (html_escape (escape_string (drop n s)) @ CHR 0x22 # r) = Some (to_valid (drop n s), r)"
          using 1(3) by auto
        have esc: "escape_string s =
            (if u = 8232 then CHR 0x5C # ''u2028'' else if u = 8233 then CHR 0x5C # ''u2029'' else take n s)
            @ escape_string (drop n s)"
          using False dec Cons by (subst escape_string.simps) simp
        have "parse_string (html_escape (escape_string s) @ CHR 0x22 # r) =
            map_option (apfst ((@) (take n s))) (parse_string (html_escape (escape_string (drop n s)) @ CHR 0x22 # r))"
          unfolding esc html_escape_simps(3) append_assoc
          using parse_escape_rune [OF False dec [unfolded Cons], of "html_escape (escape_string (drop n s)) @ CHR 0x22 # r"]
          unfolding Cons .
        moreover have "to_valid s = take n s @ to_valid (drop n s)"
          using dec Cons by (subst to_valid.simps) simp
        ultimately show ?thesis by (simp add: IH)
      qed
    qed
  qed
qed

lemma html_print_string: "html_escape (print_string s) = CHR 0x22 # html_escape (escape_string s) @ [CHR 0x22]"
  by (simp add: print_string_def html_byte_def)

section \<open>Values\<close>

definition reads_compact :: "json \<Rightarrow> bool" where
  "reads_compact v \<longleftrightarrow>
     (\<forall>n s. num_stop s \<longrightarrow> 2 * length (compact_json v @ s) < n \<longrightarrow> parse_value n (compact_json v @ s) = Some (clean_json v, s))"

lemma reads_compactD:
  "reads_compact v \<Longrightarrow> num_stop s \<Longrightarrow> 2 * length (compact_json v @ s) < n \<Longrightarrow> parse_value n (compact_json v @ s) = Some (clean_json v, s)"
  unfolding reads_compact_def by blast

lemma num_stop_close [simp]: "num_stop (CHR '']'' # s)" "num_stop (CHR ''}'' # s)"
  by (simp_all add: num_stop_def is_digit_def)

lemma num_stop_compact: "num_stop (compact_elems vs @ '']'' @ s)" "num_stop (compact_members ms @ ''}'' @ s)"
  by (cases vs; simp add: num_stop_def is_digit_def) (cases ms; auto simp: num_stop_def is_digit_def)

lemma parse_compact_string:
  "0 < n \<Longrightarrow> parse_value n (html_escape (print_string x) @ s) = Some (JStr (to_valid x), s)"
  by (cases n) (simp_all add: parse_value.simps html_print_string skip_ws_solid parse_html_string)

lemma compact_json_hd:
  "numerals_ok v \<Longrightarrow> \<exists>c t. compact_json v = c # t \<and> \<not> is_json_ws c \<and> c \<noteq> CHR '']'' \<and> c \<noteq> CHR ''}''"
proof (cases v)
  case (JNum n)
  assume "numerals_ok v"
  with JNum is_int_lit_hd [of n] num_hd_other show ?thesis by fastforce
next
  case (JArr vs)
  then show ?thesis by (cases vs) auto
next
  case (JObj ms)
  then show ?thesis by (cases ms) auto
qed (auto simp: html_print_string)

lemma parse_compact_elems:
  assumes "\<And>x. x \<in> set (v # vs) \<Longrightarrow> reads_compact x"
    and "2 * length (compact_json v @ compact_elems vs @ '']'' @ s) + 1 < n"
  shows "parse_elems n (compact_json v @ compact_elems vs @ '']'' @ s) = Some (map clean_json (v # vs), s)"
  using assms
proof (induction vs arbitrary: v n)
  case Nil
  then obtain m where n: "n = Suc m" by (cases n) auto
  have "parse_value m (compact_json v @ '']'' @ s) = Some (clean_json v, '']'' @ s)"
    by (rule reads_compactD) (use Nil n in auto)
  then show ?case by (simp add: n parse_elems.simps skip_ws_solid)
next
  case (Cons u vs)
  then obtain m where n: "n = Suc m" by (cases n) auto
  let ?r = "compact_elems (u # vs) @ '']'' @ s"
  have "parse_value m (compact_json v @ ?r) = Some (clean_json v, ?r)"
    by (rule reads_compactD) (use Cons.prems n in auto)
  moreover have "parse_elems m (compact_json u @ compact_elems vs @ '']'' @ s) = Some (map clean_json (u # vs), s)"
    by (rule Cons.IH) (use Cons.prems n in auto)
  ultimately show ?case by (simp add: n parse_elems.simps skip_ws_solid)
qed

lemma parse_compact_step:
  assumes "parse_value m x = Some (v, r)"
  shows "parse_members (Suc m) (html_escape (print_string k) @ CHR '':'' # x) =
    (case skip_ws r of [] \<Rightarrow> None
     | c # r' \<Rightarrow> if c = CHR '','' then map_option (apfst ((#) (to_valid k, v))) (parse_members m r')
                 else if c = CHR ''}'' then Some ([(to_valid k, v)], r') else None)"
  using assms by (simp add: parse_members.simps html_print_string skip_ws_solid parse_html_string)

lemma parse_compact_members:
  assumes "\<And>k' x. (k', x) \<in> set ((k, v) # ms) \<Longrightarrow> reads_compact x"
    and "2 * length (html_escape (print_string k) @ CHR '':'' # compact_json v @ compact_members ms @ ''}'' @ s) + 1 < n"
  shows "parse_members n (html_escape (print_string k) @ CHR '':'' # compact_json v @ compact_members ms @ ''}'' @ s)
    = Some (map (\<lambda>(k, v). (to_valid k, clean_json v)) ((k, v) # ms), s)"
  using assms
proof (induction ms arbitrary: k v n)
  case Nil
  then obtain m where n: "n = Suc m" by (cases n) auto
  have "parse_value m (compact_json v @ ''}'' @ s) = Some (clean_json v, ''}'' @ s)"
    by (rule reads_compactD) (use Nil n in auto)
  from parse_compact_step [OF this, of k] Nil n
  show ?case by (simp add: skip_ws_solid)
next
  case (Cons p ms)
  obtain k2 u where p: "p = (k2, u)" by (cases p) auto
  from Cons obtain m where n: "n = Suc m" by (cases n) auto
  let ?r = "compact_members (p # ms) @ ''}'' @ s"
  have "parse_value m (compact_json v @ ?r) = Some (clean_json v, ?r)"
    by (rule reads_compactD) (use Cons.prems n p in auto)
  moreover have "parse_members m (html_escape (print_string k2) @ CHR '':'' # compact_json u @ compact_members ms @ ''}'' @ s)
      = Some (map (\<lambda>(k, v). (to_valid k, clean_json v)) ((k2, u) # ms), s)"
    by (rule Cons.IH) (use Cons.prems n p in auto)
  ultimately show ?case
    using parse_compact_step [of m "compact_json v @ ?r" "clean_json v" ?r k] n p
    by (simp add: skip_ws_solid)
qed

lemma compact_reads_back: "numerals_ok v \<Longrightarrow> reads_compact v"
proof (induction v)
  case (JArr vs)
  show ?case
    unfolding reads_compact_def
  proof (intro allI impI)
    fix n s
    assume n: "2 * length (compact_json (JArr vs) @ s) < n"
    from n obtain m where m: "n = Suc m" by (cases n) auto
    show "parse_value n (compact_json (JArr vs) @ s) = Some (clean_json (JArr vs), s)"
    proof (cases vs)
      case Nil
      with m show ?thesis by (simp add: parse_value.simps skip_ws_solid)
    next
      case (Cons v vs')
      have "parse_elems m (compact_json v @ compact_elems vs' @ '']'' @ s) = Some (map clean_json (v # vs'), s)"
        by (rule parse_compact_elems) (use JArr Cons n m in \<open>auto simp: list_all_iff\<close>)
      moreover obtain c t where "compact_json v = c # t" "\<not> is_json_ws c" "c \<noteq> CHR '']''"
        using compact_json_hd [of v] JArr Cons by auto
      ultimately show ?thesis
        by (simp add: m Cons parse_value.simps skip_ws_solid)
    qed
  qed
next
  case (JObj ms)
  show ?case
    unfolding reads_compact_def
  proof (intro allI impI)
    fix n s
    assume n: "2 * length (compact_json (JObj ms) @ s) < n"
    from n obtain m where m: "n = Suc m" by (cases n) auto
    show "parse_value n (compact_json (JObj ms) @ s) = Some (clean_json (JObj ms), s)"
    proof (cases ms)
      case Nil
      with m show ?thesis by (simp add: parse_value.simps skip_ws_solid)
    next
      case (Cons p ms')
      obtain k v where p: "p = (k, v)" by (cases p) auto
      have "parse_members m (html_escape (print_string k) @ CHR '':'' # compact_json v @ compact_members ms' @ ''}'' @ s)
          = Some (map (\<lambda>(k, v). (to_valid k, clean_json v)) ((k, v) # ms'), s)"
        by (rule parse_compact_members) (use JObj Cons p n m in \<open>fastforce simp: list_all_iff\<close>)+
      then show ?thesis
        by (simp add: m Cons p parse_value.simps skip_ws_solid html_print_string)
    qed
  qed
qed (auto simp: reads_compact_def parse_number_value [of _ _ "[]", simplified] parse_compact_string
      parse_literals [of "[]", simplified])

text \<open>A compact text is read whole as the value it was made from.\<close>

lemma parse_compact_clean: "numerals_ok v \<Longrightarrow> parse_whole (compact_json v) = Some (clean_json v)"
  using reads_compactD [OF compact_reads_back, of v "[]" "Suc (2 * length (compact_json v))"]
  by (simp add: parse_whole_def skip_ws_def)

lemma parse_compact: "json_ok v \<Longrightarrow> parse_whole (compact_json v) = Some v"
  using parse_compact_clean [of v] json_ok_clean [of v] by simp

end
