(* ===== verification/RestClient.thy ===== *)
theory RestClient imports Ghclient GoCompact GoDecode begin

text \<open>
  \<open>internal/ghclient/rest\<close>: the client of the GitHub REST API, over the transport \<open>http_lib\<close>. The
  status code that the Go method \<open>do\<close> also returns is used by no caller and is left out; a context
  is never cancelled.
\<close>

section \<open>Configuration\<close>

definition defaultAPIBase :: string where "defaultAPIBase = ''https://api.github.com''"
definition acceptHeader :: string where "acceptHeader = ''application/vnd.github+json''"
definition apiVersion :: string where "apiVersion = ''2022-11-28''"
definition certRequestLabel :: string where "certRequestLabel = ''cert-request''"
definition revocationLabel :: string where "revocationLabel = ''revocation-request''"

record config =
  Token :: string
  BotLogin :: string
  CfgRepo :: string
  APIBase :: string

record rest_client =
  cfg :: config
  base :: string

definition New :: "config \<Rightarrow> rest_client result" where
  "New c =
     (if Token c = [] \<or> BotLogin c = [] \<or> CfgRepo c = []
      then Inl (Errorf ''rest: Token, BotLogin and Repo are required'')
      else Inr \<lparr>cfg = c, base = trim_right_byte (if APIBase c = [] then defaultAPIBase else APIBase c) CHR ''/''\<rparr>)"

section \<open>Requests\<close>

definition request :: "rest_client \<Rightarrow> string \<Rightarrow> string \<Rightarrow> json option \<Rightarrow> http_request" where
  "request c meth path body =
     \<lparr>ReqMethod = meth, ReqUrl = base c @ path,
      ReqHeader = [(''Authorization'', ''Bearer '' @ Token (cfg c)), (''Accept'', acceptHeader),
                   (''X-GitHub-Api-Version'', apiVersion)]
                  @ (if body = None then [] else [(''Content-Type'', ''application/json'')]),
      ReqBody = map_option compact_json body\<rparr>"

text \<open>The error for a status, if it is one.\<close>

definition status_error :: "string \<Rightarrow> string \<Rightarrow> http_response \<Rightarrow> go_error option" where
  "status_error meth path resp =
     (if StatusCode resp = 404 then Some ErrNotFound
      else if StatusCode resp = 409 then
        (let body = trim_space (RespBody resp)
         in if body \<noteq> [] then Some (Wrap [] ErrConflict ('': '' @ StatusText resp @ '': '' @ body)) else Some ErrConflict)
      else if StatusCode resp < 200 \<or> StatusCode resp \<ge> 300 then
        Some (Errorf (''rest: '' @ meth @ '' '' @ path @ '': '' @ StatusText resp @ '': '' @ trim_space (RespBody resp)))
      else None)"

text \<open>The response decoded into \<open>out\<close>; \<open>None\<close> for no decoder is the nil \<open>out\<close>.\<close>

definition decode_into :: "(json \<Rightarrow> 'a option) option \<Rightarrow> 'a \<Rightarrow> string \<Rightarrow> 'a result" where
  "decode_into dec out data =
     (case dec of
        None \<Rightarrow> Inr out
      | Some f \<Rightarrow>
          if data = [] then Inr out
          else (case Option.bind (parse_whole data) f of
                  None \<Rightarrow> Inl (Wrap ''rest: decode response: '' (Errorf ''json'') [])
                | Some x \<Rightarrow> Inr x))"

definition do_request ::
  "'w http_lib \<Rightarrow> rest_client \<Rightarrow> string \<Rightarrow> string \<Rightarrow> json option \<Rightarrow> (json \<Rightarrow> 'a option) option \<Rightarrow> 'a \<Rightarrow> ('w, 'a) io" where
  "do_request http c meth path body dec out w =
     (case BadUrl http (base c @ path) of
        Some e \<Rightarrow> (Inl (Wrap ''rest: build request: '' e []), w)
      | None \<Rightarrow>
          (case RoundTrip http (request c meth path body) w of
             (Inl e, w1) \<Rightarrow> (Inl (Wrap (''rest: '' @ meth @ '' '' @ path @ '': '') e []), w1)
           | (Inr resp, w1) \<Rightarrow>
               (case status_error meth path resp of
                  Some e \<Rightarrow> (Inl e, w1)
                | None \<Rightarrow> (decode_into dec out (RespBody resp), w1))))"

section \<open>Issues\<close>

record raw_issue =
  RawNumber :: int
  RawBody :: string
  RawLogin :: string
  RawID :: int
  RawLabels :: "string list option \<times> string list"
  RawPullRequest :: bool

definition zero_raw_issue :: raw_issue where
  "zero_raw_issue =
     \<lparr>RawNumber = 0, RawBody = [], RawLogin = [], RawID = 0, RawLabels = (None, []), RawPullRequest = False\<rparr>"

definition user_fields :: "raw_issue field list" where
  "user_fields =
     [(''login'', \<lambda>j s. map_option (\<lambda>x. s\<lparr>RawLogin := x\<rparr>) (decode_string j (RawLogin s))),
      (''id'', \<lambda>j s. map_option (\<lambda>x. s\<lparr>RawID := x\<rparr>) (decode_int64 j (RawID s)))]"

definition label_fields :: "string field list" where
  "label_fields = [(''name'', \<lambda>j s. decode_string j s)]"

text \<open>A pointer to the struct without fields: set by an object, cleared by null.\<close>

definition decode_presence :: "json \<Rightarrow> bool option" where
  "decode_presence j = (case j of JNull \<Rightarrow> Some False | JObj ms \<Rightarrow> Some True | _ \<Rightarrow> None)"

definition issue_fields :: "raw_issue field list" where
  "issue_fields =
     [(''number'', \<lambda>j s. map_option (\<lambda>x. s\<lparr>RawNumber := x\<rparr>) (decode_int64 j (RawNumber s))),
      (''body'', \<lambda>j s. map_option (\<lambda>x. s\<lparr>RawBody := x\<rparr>) (decode_string j (RawBody s))),
      (''user'', decode_struct False user_fields),
      (''labels'', \<lambda>j s. map_option (\<lambda>x. s\<lparr>RawLabels := x\<rparr>)
          (decode_slice (decode_struct False label_fields) [] j (RawLabels s))),
      (''pull_request'', \<lambda>j s. map_option (\<lambda>x. s\<lparr>RawPullRequest := x\<rparr>) (decode_presence j))]"

definition decode_issues :: "json \<Rightarrow> raw_issue list option" where
  "decode_issues j =
     map_option (\<lambda>(xs, sp). case xs of None \<Rightarrow> [] | Some ys \<Rightarrow> ys)
       (decode_slice (decode_struct False issue_fields) zero_raw_issue j (None, []))"

definition issue_of_raw :: "raw_issue \<Rightarrow> issue" where
  "issue_of_raw r =
     \<lparr>Number = RawNumber r, IssueBody = RawBody r,
      Author = \<lparr>AuthorLogin = RawLogin r, AuthorUserID = RawID r\<rparr>,
      Labels = (case fst (RawLabels r) of None \<Rightarrow> [] | Some ls \<Rightarrow> ls)\<rparr>"

definition list_path :: "rest_client \<Rightarrow> string \<Rightarrow> string" where
  "list_path c label = ''/repos/'' @ CfgRepo (cfg c) @ ''/issues?state=open&labels='' @ label @ ''&per_page=100''"

fun keep_issues :: "raw_issue list \<Rightarrow> issue list" where
  "keep_issues [] = []"
| "keep_issues (r # rs) = (if RawPullRequest r then keep_issues rs else issue_of_raw r # keep_issues rs)"

definition listOpenIssues :: "'w http_lib \<Rightarrow> rest_client \<Rightarrow> string \<Rightarrow> ('w, issue list) io" where
  "listOpenIssues http c label w =
     (case do_request http c ''GET'' (list_path c label) None (Some decode_issues) [] w of
        (Inl e, w1) \<Rightarrow> (Inl e, w1)
      | (Inr raws, w1) \<Rightarrow> (Inr (keep_issues raws), w1))"

definition rest_ListOpenCertRequests :: "'w http_lib \<Rightarrow> rest_client \<Rightarrow> ('w, issue list) io" where
  "rest_ListOpenCertRequests http c = listOpenIssues http c certRequestLabel"

definition rest_ListOpenRevocationRequests :: "'w http_lib \<Rightarrow> rest_client \<Rightarrow> ('w, issue list) io" where
  "rest_ListOpenRevocationRequests http c = listOpenIssues http c revocationLabel"

section \<open>Comments, labels, state\<close>

record raw_comment =
  RawCommentBody :: string
  RawCreatedAt :: time
  RawAuthor :: string

definition zero_raw_comment :: raw_comment where
  "zero_raw_comment = \<lparr>RawCommentBody = [], RawCreatedAt = zero_time, RawAuthor = []\<rparr>"

definition comment_user_fields :: "raw_comment field list" where
  "comment_user_fields = [(''login'', \<lambda>j s. map_option (\<lambda>x. s\<lparr>RawAuthor := x\<rparr>) (decode_string j (RawAuthor s)))]"

definition comment_fields :: "raw_comment field list" where
  "comment_fields =
     [(''body'', \<lambda>j s. map_option (\<lambda>x. s\<lparr>RawCommentBody := x\<rparr>) (decode_string j (RawCommentBody s))),
      (''created_at'', \<lambda>j s. map_option (\<lambda>x. s\<lparr>RawCreatedAt := x\<rparr>) (decode_time j (RawCreatedAt s))),
      (''user'', decode_struct False comment_user_fields)]"

definition decode_comments :: "json \<Rightarrow> raw_comment list option" where
  "decode_comments j =
     map_option (\<lambda>(xs, sp). case xs of None \<Rightarrow> [] | Some ys \<Rightarrow> ys)
       (decode_slice (decode_struct False comment_fields) zero_raw_comment j (None, []))"

fun keep_comments :: "string \<Rightarrow> raw_comment list \<Rightarrow> comment list" where
  "keep_comments own [] = []"
| "keep_comments own (r # rs) =
     (if RawAuthor r \<noteq> own then keep_comments own rs
      else \<lparr>Body = RawCommentBody r, CreatedAt = RawCreatedAt r\<rparr> # keep_comments own rs)"

definition issue_path :: "rest_client \<Rightarrow> int \<Rightarrow> string" where
  "issue_path c n = ''/repos/'' @ CfgRepo (cfg c) @ ''/issues/'' @ show_int n"

definition rest_OwnComments :: "'w http_lib \<Rightarrow> rest_client \<Rightarrow> int \<Rightarrow> ('w, comment list) io" where
  "rest_OwnComments http c n w =
     (case do_request http c ''GET'' (issue_path c n @ ''/comments?per_page=100'') None (Some decode_comments) [] w of
        (Inl e, w1) \<Rightarrow> (Inl e, w1)
      | (Inr raws, w1) \<Rightarrow> (Inr (keep_comments (BotLogin (cfg c)) raws), w1))"

definition rest_PostComment :: "'w http_lib \<Rightarrow> rest_client \<Rightarrow> int \<Rightarrow> string \<Rightarrow> ('w, unit) io" where
  "rest_PostComment http c n body =
     do_request http c ''POST'' (issue_path c n @ ''/comments'') (Some (JObj [(''body'', JStr body)])) None ()"

text \<open>\<open>url.PathEscape\<close>.\<close>

definition path_safe :: "char \<Rightarrow> bool" where
  "path_safe ch \<longleftrightarrow> is_lower ch \<or> is_upper ch \<or> is_digit ch \<or> ch \<in> set ''-_.~$&+:=@''"

definition upper_hex :: "nat \<Rightarrow> char" where
  "upper_hex d = (if d < 10 then char_of (48 + d) else char_of (55 + d))"

definition path_escape :: "string \<Rightarrow> string" where
  "path_escape s =
     concat (map (\<lambda>ch. if path_safe ch then [ch]
                       else [CHR 0x25, upper_hex (byte ch div 16), upper_hex (byte ch mod 16)]) s)"

fun remove_labels :: "'w http_lib \<Rightarrow> rest_client \<Rightarrow> int \<Rightarrow> string list \<Rightarrow> ('w, unit) io" where
  "remove_labels http c n [] w = (Inr (), w)"
| "remove_labels http c n (l # ls) w =
     (case do_request http c ''DELETE'' (issue_path c n @ ''/labels/'' @ path_escape l) None None () w of
        (Inl e, w1) \<Rightarrow> if e \<noteq> ErrNotFound then (Inl e, w1) else remove_labels http c n ls w1
      | (Inr u, w1) \<Rightarrow> remove_labels http c n ls w1)"

definition rest_SetLabels :: "'w http_lib \<Rightarrow> rest_client \<Rightarrow> int \<Rightarrow> string list \<Rightarrow> string list \<Rightarrow> ('w, unit) io" where
  "rest_SetLabels http c n add remove w =
     (case remove_labels http c n remove w of
        (Inl e, w1) \<Rightarrow> (Inl e, w1)
      | (Inr u, w1) \<Rightarrow>
          if length add > 0
          then do_request http c ''POST'' (issue_path c n @ ''/labels'')
                 (Some (JObj [(''labels'', JArr (map JStr add))])) None () w1
          else (Inr (), w1))"

definition rest_CloseIssue :: "'w http_lib \<Rightarrow> rest_client \<Rightarrow> int \<Rightarrow> ('w, unit) io" where
  "rest_CloseIssue http c n =
     do_request http c ''PATCH'' (issue_path c n) (Some (JObj [(''state'', JStr ''closed'')])) None ()"

section \<open>Contents\<close>

record contents_response =
  RespContent :: string
  RespSHA :: string

definition contents_fields :: "contents_response field list" where
  "contents_fields =
     [(''content'', \<lambda>j s. map_option (\<lambda>x. s\<lparr>RespContent := x\<rparr>) (decode_string j (RespContent s))),
      (''sha'', \<lambda>j s. map_option (\<lambda>x. s\<lparr>RespSHA := x\<rparr>) (decode_string j (RespSHA s)))]"

definition decode_contents :: "json \<Rightarrow> contents_response option" where
  "decode_contents j = decode_struct False contents_fields j \<lparr>RespContent = [], RespSHA = []\<rparr>"

definition contents_path :: "string \<Rightarrow> string \<Rightarrow> string" where
  "contents_path repo path = ''/repos/'' @ repo @ ''/contents/'' @ trim_prefix path ''/''"

definition getContents :: "'w http_lib \<Rightarrow> rest_client \<Rightarrow> string \<Rightarrow> string \<Rightarrow> ('w, string \<times> string) io" where
  "getContents http c repo path w =
     (case do_request http c ''GET'' (contents_path repo path) None (Some decode_contents)
             \<lparr>RespContent = [], RespSHA = []\<rparr> w of
        (Inl e, w1) \<Rightarrow> (Inl e, w1)
      | (Inr resp, w1) \<Rightarrow>
          (case b64_decode (filter (\<lambda>ch. ch \<noteq> CHR 0x0A) (RespContent resp)) of
             None \<Rightarrow> (Inl (Wrap ''rest: decode contents: '' (Errorf ''illegal base64 data'') []), w1)
           | Some decoded \<Rightarrow> (Inr (decoded, RespSHA resp), w1)))"

definition rest_GetFile :: "'w http_lib \<Rightarrow> rest_client \<Rightarrow> string \<Rightarrow> string \<Rightarrow> ('w, string \<times> string) io" where
  "rest_GetFile http c repo path = getContents http c repo path"

definition rest_RepoAccessible :: "'w http_lib \<Rightarrow> rest_client \<Rightarrow> string \<Rightarrow> ('w, bool) io" where
  "rest_RepoAccessible http c repo w =
     (case do_request http c ''GET'' (''/repos/'' @ repo) None None () w of
        (Inl e, w1) \<Rightarrow> if errors_is e ErrNotFound then (Inr False, w1) else (Inl e, w1)
      | (Inr u, w1) \<Rightarrow> (Inr True, w1))"

definition ledger_path :: "string \<Rightarrow> string" where
  "ledger_path appID = ''ledger/'' @ appID @ ''.json''"

definition rest_GetLedger :: "'w http_lib \<Rightarrow> rest_client \<Rightarrow> string \<Rightarrow> ('w, string \<times> string) io" where
  "rest_GetLedger http c appID = getContents http c (CfgRepo (cfg c)) (ledger_path appID)"

text \<open>The keys of a Go map are written in their order.\<close>

definition put_body :: "string \<Rightarrow> string \<Rightarrow> string \<Rightarrow> json" where
  "put_body ct prevSHA msg =
     JObj ([(''content'', JStr (b64_encode ct)), (''message'', JStr msg)]
           @ (if prevSHA \<noteq> [] then [(''sha'', JStr prevSHA)] else []))"

definition putContents ::
  "'w http_lib \<Rightarrow> rest_client \<Rightarrow> string \<Rightarrow> string \<Rightarrow> string \<Rightarrow> string \<Rightarrow> string \<Rightarrow> ('w, unit) io" where
  "putContents http c repo path ct prevSHA msg =
     do_request http c ''PUT'' (contents_path repo path) (Some (put_body ct prevSHA msg)) None ()"

definition rest_PutLedger :: "'w http_lib \<Rightarrow> rest_client \<Rightarrow> string \<Rightarrow> string \<Rightarrow> string \<Rightarrow> string \<Rightarrow> ('w, unit) io" where
  "rest_PutLedger http c appID ct prevSHA msg = putContents http c (CfgRepo (cfg c)) (ledger_path appID) ct prevSHA msg"

definition rest_PutFile ::
  "'w http_lib \<Rightarrow> rest_client \<Rightarrow> string \<Rightarrow> string \<Rightarrow> string \<Rightarrow> string \<Rightarrow> string \<Rightarrow> ('w, unit) io" where
  "rest_PutFile http c repo path ct prevSHA msg = putContents http c repo path ct prevSHA msg"

definition rest_github :: "'w http_lib \<Rightarrow> rest_client \<Rightarrow> 'w github" where
  "rest_github http c =
     \<lparr>ListOpenCertRequests = rest_ListOpenCertRequests http c,
      ListOpenRevocationRequests = rest_ListOpenRevocationRequests http c,
      OwnComments = rest_OwnComments http c, PostComment = rest_PostComment http c,
      SetLabels = rest_SetLabels http c, CloseIssue = rest_CloseIssue http c,
      GetFile = rest_GetFile http c, RepoAccessible = rest_RepoAccessible http c,
      GetLedger = rest_GetLedger http c, PutLedger = rest_PutLedger http c, PutFile = rest_PutFile http c\<rparr>"

section \<open>Lemmas\<close>

lemma rest_github_simps [simp]:
  "ListOpenCertRequests (rest_github http c) = rest_ListOpenCertRequests http c"
  "ListOpenRevocationRequests (rest_github http c) = rest_ListOpenRevocationRequests http c"
  "OwnComments (rest_github http c) = rest_OwnComments http c"
  "PostComment (rest_github http c) = rest_PostComment http c"
  "SetLabels (rest_github http c) = rest_SetLabels http c"
  "CloseIssue (rest_github http c) = rest_CloseIssue http c"
  "GetFile (rest_github http c) = rest_GetFile http c"
  "RepoAccessible (rest_github http c) = rest_RepoAccessible http c"
  "GetLedger (rest_github http c) = rest_GetLedger http c"
  "PutLedger (rest_github http c) = rest_PutLedger http c"
  "PutFile (rest_github http c) = rest_PutFile http c"
  by (simp_all add: rest_github_def)

lemma keep_comments_filter:
  "keep_comments own rs =
     map (\<lambda>r. \<lparr>Body = RawCommentBody r, CreatedAt = RawCreatedAt r\<rparr>) (filter (\<lambda>r. RawAuthor r = own) rs)"
  by (induction rs) auto

lemma keep_issues_filter: "keep_issues rs = map issue_of_raw (filter (\<lambda>r. \<not> RawPullRequest r) rs)"
  by (induction rs) auto

lemma parse_whole_Nil: "parse_whole [] = None"
  by (simp add: parse_whole_def parse_value.simps skip_ws_def)

definition success :: "http_response \<Rightarrow> bool" where
  "success resp \<longleftrightarrow> 200 \<le> StatusCode resp \<and> StatusCode resp < 300"

lemma status_error_None: "status_error meth path resp = None \<longleftrightarrow> success resp"
  by (auto simp: status_error_def success_def Let_def)

lemma status_error_Some:
  "status_error meth path resp = Some e \<Longrightarrow>
     (errors_is e ErrConflict \<longleftrightarrow> StatusCode resp = 409) \<and> (errors_is e ErrNotFound \<longleftrightarrow> StatusCode resp = 404)"
  by (auto simp: status_error_def Let_def ErrConflict_def ErrNotFound_def split: if_splits)

lemma decode_into_Inl: "decode_into dec out data = Inl e \<Longrightarrow> \<not> errors_is e ErrConflict \<and> \<not> errors_is e ErrNotFound"
  by (auto simp: decode_into_def ErrConflict_def ErrNotFound_def split: option.splits if_splits)

lemma do_request_Inr:
  "do_request http c meth path body dec out w = (Inr x, w') \<longleftrightarrow>
     BadUrl http (base c @ path) = None \<and>
     (\<exists>resp. RoundTrip http (request c meth path body) w = (Inr resp, w') \<and> success resp \<and>
        decode_into dec out (RespBody resp) = Inr x)"
  unfolding status_error_None [of meth path, symmetric]
  by (auto simp: do_request_def split: option.splits prod.splits sum.splits)

lemma contents_lookups [simp]:
  "find_field contents_fields ''content'' = Some (\<lambda>j s. map_option (\<lambda>x. s\<lparr>RespContent := x\<rparr>) (decode_string j (RespContent s)))"
  "find_field contents_fields ''sha'' = Some (\<lambda>j s. map_option (\<lambda>x. s\<lparr>RespSHA := x\<rparr>) (decode_string j (RespSHA s)))"
  "find_field contents_fields ''message'' = None"
  by (simp_all add: contents_fields_def find_field_def upper_byte_def is_lower_def)

lemma b64_byte_ascii: "b64_byte c \<Longrightarrow> is_ascii c"
  using b64_byte_value [of c] by (auto simp: byte_classes)

lemma b64_utf8: "utf8_valid (b64_encode ct)"
proof (rule utf8_valid_ascii)
  show "list_all is_ascii (b64_encode ct)"
    using b64_encode_bytes [of ct] by (simp add: list_all_iff b64_byte_ascii)
qed

lemma utf8_put_names [simp]: "utf8_valid ''content''" "utf8_valid ''message''" "utf8_valid ''sha''"
  by (simp_all add: is_ascii_def)

lemma clean_put_body: "clean_json (put_body ct prev msg) = put_body ct (to_valid prev) (to_valid msg)"
  by (simp add: put_body_def to_valid_id [OF b64_utf8] is_ascii_def)

lemma decode_put_body:
  "decode_contents (put_body ct prev msg) = Some \<lparr>RespContent = b64_encode ct, RespSHA = prev\<rparr>"
  by (simp add: decode_contents_def decode_struct_def put_body_def)

text \<open>What a reader of the Contents format finds in the body of a write.\<close>

lemma parse_put_body:
  "parse_whole (compact_json (put_body ct prev msg)) = Some (put_body ct (to_valid prev) (to_valid msg))"
  using parse_compact_clean [of "put_body ct prev msg"] by (simp add: clean_put_body) (simp add: put_body_def)

section \<open>Properties\<close>

text \<open>C22: The comments the client gives are exactly those of the decoded response whose author has the
  configured bot login, in their order: a comment of anybody else, whatever it contains, is never
  seen by the pipeline.\<close>
theorem own_comments_are_the_bots:
  "case rest_OwnComments http c n w of
     (Inl e, w') \<Rightarrow> True
   | (Inr cs, w') \<Rightarrow>
       \<exists>resp raws. RoundTrip http (request c ''GET'' (issue_path c n @ ''/comments?per_page=100'') None) w = (Inr resp, w') \<and>
         success resp \<and>
         (if RespBody resp = [] then raws = [] else Option.bind (parse_whole (RespBody resp)) decode_comments = Some raws) \<and>
         cs = map (\<lambda>r. \<lparr>Body = RawCommentBody r, CreatedAt = RawCreatedAt r\<rparr>)
                (filter (\<lambda>r. RawAuthor r = BotLogin (cfg c)) raws)"
proof (cases "rest_OwnComments http c n w")
  case (Pair res w')
  show ?thesis
  proof (cases res)
    case (Inr cs)
    then obtain raws where d: "do_request http c ''GET'' (issue_path c n @ ''/comments?per_page=100'') None (Some decode_comments) [] w = (Inr raws, w')"
      "cs = keep_comments (BotLogin (cfg c)) raws"
      using Pair by (auto simp: rest_OwnComments_def split: prod.splits sum.splits)
    then obtain resp where r: "RoundTrip http (request c ''GET'' (issue_path c n @ ''/comments?per_page=100'') None) w = (Inr resp, w')"
      "success resp" "decode_into (Some decode_comments) [] (RespBody resp) = Inr raws"
      unfolding do_request_Inr by blast
    have "if RespBody resp = [] then raws = [] else Option.bind (parse_whole (RespBody resp)) decode_comments = Some raws"
      using r(3) by (auto simp: decode_into_def split: option.splits if_splits)
    then show ?thesis
      unfolding Pair Inr prod.case sum.case using r d(2)
      by (intro exI [of _ resp] exI [of _ raws]) (simp add: keep_comments_filter)
  qed (simp add: Pair)
qed

text \<open>C23: An answer of the API is a conflict for the retry loops exactly if its status is 409, and "not
  found" exactly if it is 404, whatever the operation; it is a success only if the status is 2xx.\<close>
theorem status_drives_retry:
  "case BadUrl http (base c @ path) of
     Some e \<Rightarrow> True
   | None \<Rightarrow>
       (case RoundTrip http (request c meth path body) w of
          (Inl e, w1) \<Rightarrow> isl (fst (do_request http c meth path body dec out w))
        | (Inr resp, w1) \<Rightarrow>
            snd (do_request http c meth path body dec out w) = w1 \<and>
            (case fst (do_request http c meth path body dec out w) of
               Inl e \<Rightarrow> (errors_is e ErrConflict \<longleftrightarrow> StatusCode resp = 409) \<and> (errors_is e ErrNotFound \<longleftrightarrow> StatusCode resp = 404)
             | Inr x \<Rightarrow> 200 \<le> StatusCode resp \<and> StatusCode resp < 300))"
proof (cases "BadUrl http (base c @ path)")
  case None
  obtain rr w1 where rt: "RoundTrip http (request c meth path body) w = (rr, w1)" by (metis surj_pair)
  show ?thesis
  proof (cases rr)
    case (Inr resp)
    show ?thesis
    proof (cases "status_error meth path resp")
      case (Some e)
      then have "do_request http c meth path body dec out w = (Inl e, w1)"
        using None rt Inr by (simp add: do_request_def)
      then show ?thesis using None rt Inr status_error_Some [OF Some] by simp
    next
      case None2: None
      then have d: "do_request http c meth path body dec out w = (decode_into dec out (RespBody resp), w1)"
        using None rt Inr by (simp add: do_request_def)
      have ok: "200 \<le> StatusCode resp" "StatusCode resp < 300"
        using None2 by (simp_all add: status_error_None success_def)
      show ?thesis
        using None rt Inr d ok decode_into_Inl [of dec out "RespBody resp"]
        by (cases "decode_into dec out (RespBody resp)") simp_all
    qed
  qed (use None rt in \<open>simp add: do_request_def\<close>)
qed simp

text \<open>A file the API holds is read whatever way it breaks the lines of the base64 text: if the text
  without its newlines encodes the data, the client gets exactly the data, with the SHA of the blob.\<close>
theorem contents_read_back:
  assumes "BadUrl http (base c @ contents_path repo path) = None"
    and "RoundTrip http (request c ''GET'' (contents_path repo path) None) w = (Inr resp, w')"
    and "200 \<le> StatusCode resp" and "StatusCode resp < 300"
    and "Option.bind (parse_whole (RespBody resp)) decode_contents = Some \<lparr>RespContent = enc, RespSHA = h\<rparr>"
    and "filter (\<lambda>ch. ch \<noteq> CHR 0x0A) enc = b64_encode data"
  shows "getContents http c repo path w = (Inr (data, h), w')"
proof -
  have "RespBody resp \<noteq> []"
    using assms(5) by (auto simp: parse_whole_Nil)
  then have "decode_into (Some decode_contents) \<lparr>RespContent = [], RespSHA = []\<rparr> (RespBody resp)
      = Inr \<lparr>RespContent = enc, RespSHA = h\<rparr>"
    using assms(5) by (simp add: decode_into_def)
  then have "do_request http c ''GET'' (contents_path repo path) None (Some decode_contents) \<lparr>RespContent = [], RespSHA = []\<rparr> w
      = (Inr \<lparr>RespContent = enc, RespSHA = h\<rparr>, w')"
    unfolding do_request_Inr success_def using assms(1-4) by blast
  then show ?thesis by (simp add: getContents_def assms(6) b64_decode_encode)
qed

text \<open>C24: What a write sends, a reader of the Contents format gets back, whatever the message and the
  bytes are: the body of the request is JSON whose \<open>content\<close> decodes to exactly the bytes written
  and whose \<open>sha\<close> is the expected version (a byte that is not valid UTF-8, which no SHA of the API
  has, replaced), and is missing exactly when a file is to be created.\<close>
theorem put_sends_the_bytes:
  "\<exists>text ms. ReqBody (request c ''PUT'' path (Some (put_body ct prev msg))) = Some text \<and>
    parse_whole text = Some (JObj ms) \<and>
    decode_contents (JObj ms) = Some \<lparr>RespContent = b64_encode ct, RespSHA = to_valid prev\<rparr> \<and>
    b64_decode (b64_encode ct) = Some ct \<and> (''sha'' \<in> fst ` set ms \<longleftrightarrow> prev \<noteq> [])"
  using parse_put_body [of ct prev msg] decode_put_body [of ct "to_valid prev" "to_valid msg"]
  by (auto simp: request_def b64_decode_encode put_body_def)

end
