(* ===== verification/SignerAdapters.thy ===== *)
theory SignerAdapters imports Signer GoHttp GoDecode begin

text \<open>
  The three implementations of the signer: \<open>internal/signer/local\<close> (a fresh self-signed
  intermediate), \<open>internal/signer/pem\<close> (a key from a PEM text) and \<open>internal/signer/vault\<close> (the
  digest is signed by Vault Transit over HTTP).
\<close>

section \<open>Local\<close>

record local_signer =
  LocalCert :: x509_cert
  LocalKey :: ec_private_key

definition intermediateValidity :: int where
  "intermediateValidity = 5 * 365 * 24 * Hour"

definition intermediate_template :: "int \<Rightarrow> time \<Rightarrow> x509_cert" where
  "intermediate_template serial notBefore =
     \<lparr>Raw = [], XSerial = serial,
      Subject = \<lparr>Country = [''DE''], Organization = [''ownCloud GmbH''], OrganizationalUnit = [],
                 CommonName = ''ownCloud Code Signing Intermediate CA G2 (LOCAL TEST)''\<rparr>,
      XPublicKey = None, XNotBefore = notBefore, XNotAfter = time_add notBefore intermediateValidity,
      KeyUsage = {KeyUsageCertSign, KeyUsageCRLSign}, ExtKeyUsage = [ExtKeyUsageCodeSigning],
      BasicConstraintsValid = True, IsCA = True, MaxPathLen = 0, MaxPathLenZero = True,
      SignatureAlgorithm = ECDSAWithSHA384, CRLDistributionPoints = []\<rparr>"

definition local_New :: "'w crypto_lib \<Rightarrow> 'w reader \<Rightarrow> time \<Rightarrow> ('w, local_signer) io" where
  "local_New lib r notBefore w =
     (case GenerateKey lib r w of
        (Inl e, w1) \<Rightarrow> (Inl (Wrap ''local: generate intermediate key: '' e []), w1)
      | (Inr key, w1) \<Rightarrow>
          (case rand_int_128 r w1 of
             (Inl e, w2) \<Rightarrow> (Inl (Wrap ''local: intermediate serial: '' e []), w2)
           | (Inr serial, w2) \<Rightarrow>
               let tmpl = intermediate_template (int serial) notBefore
               in case CreateCertificate lib (Some r) tmpl tmpl (Some (public_of key)) (EcdsaSigner lib key) w2 of
                    (Inl e, w3) \<Rightarrow> (Inl (Wrap ''local: self-sign intermediate: '' e []), w3)
                  | (Inr der, w3) \<Rightarrow>
                      (case ParseCertificate lib der of
                         Inl e \<Rightarrow> (Inl (Wrap ''local: parse intermediate: '' e []), w3)
                       | Inr cert \<Rightarrow> (Inr \<lparr>LocalCert = cert, LocalKey = key\<rparr>, w3))))"

definition local_Sign :: "'w crypto_lib \<Rightarrow> local_signer \<Rightarrow> x509_cert \<Rightarrow> public_key option \<Rightarrow> ('w, string) io" where
  "local_Sign lib s template subjectPub w =
     (case CreateCertificate lib (Some (RandReader lib)) template (LocalCert s) subjectPub (EcdsaSigner lib (LocalKey s)) w of
        (Inl e, w1) \<Rightarrow> (Inl (Wrap ''local: sign leaf: '' e []), w1)
      | (Inr der, w1) \<Rightarrow> (Inr der, w1))"

definition local_SignCRL :: "'w crypto_lib \<Rightarrow> local_signer \<Rightarrow> revocation_list \<Rightarrow> ('w, string) io" where
  "local_SignCRL lib s template w =
     (case CreateRevocationList lib (Some (RandReader lib)) template (LocalCert s) (EcdsaSigner lib (LocalKey s)) w of
        (Inl e, w1) \<Rightarrow> (Inl (Wrap ''local: sign crl: '' e []), w1)
      | (Inr der, w1) \<Rightarrow> (Inr der, w1))"

definition local_signer_of :: "'w crypto_lib \<Rightarrow> local_signer \<Rightarrow> 'w signer" where
  "local_signer_of lib s =
     \<lparr>IssuerCertificate = Some (LocalCert s), Sign = local_Sign lib s, SignCRL = local_SignCRL lib s\<rparr>"

section \<open>PEM\<close>

record pem_config =
  KeyPEM :: string
  PemIssuer :: "x509_cert option"

record pem_signer =
  PemKey :: ec_private_key
  PemCert :: x509_cert

definition parseECKey :: "'w crypto_lib \<Rightarrow> string \<Rightarrow> ec_private_key result" where
  "parseECKey lib keyPEM =
     (case pem_decode keyPEM of
        None \<Rightarrow> Inl (Errorf ''pem: KeyPEM is not valid PEM'')
      | Some (block, rest) \<Rightarrow>
          if BlockType block = ''EC PRIVATE KEY'' then ParseECPrivateKey lib (BlockBytes block)
          else if BlockType block = ''PRIVATE KEY'' then
            (case ParsePKCS8PrivateKey lib (BlockBytes block) of
               Inl e \<Rightarrow> Inl (Wrap ''pem: parse PKCS#8: '' e [])
             | Inr (ECPrivateKey ec) \<Rightarrow> Inr ec
             | Inr (OtherPrivateKey ty) \<Rightarrow> Inl (Errorf ''pem: PKCS#8 key is not ECDSA''))
          else Inl (Errorf (''pem: unexpected PEM block '' @ go_quote (BlockType block)
                            @ '', want EC PRIVATE KEY or PRIVATE KEY'')))"

definition pem_New :: "'w crypto_lib \<Rightarrow> pem_config \<Rightarrow> pem_signer result" where
  "pem_New lib cfg =
     (if KeyPEM cfg = [] then Inl (Errorf ''pem: KeyPEM is required'')
      else case PemIssuer cfg of
        None \<Rightarrow> Inl (Errorf ''pem: Issuer certificate is required'')
      | Some issuer \<Rightarrow>
          (case parseECKey lib (KeyPEM cfg) of
             Inl e \<Rightarrow> Inl e
           | Inr key \<Rightarrow>
               if KeyCurve key \<noteq> P384
               then Inl (Errorf (''pem: intermediate key must be EC P-384 (design '' @ [CHR 0xC2, CHR 0xA7] @ ''3)''))
               else (case XPublicKey issuer of
                       Some (ECPublicKey c pt) \<Rightarrow>
                         if public_of key \<noteq> ECPublicKey c pt
                         then Inl (Errorf ''pem: private key does not match issuer certificate public key'')
                         else Inr \<lparr>PemKey = key, PemCert = issuer\<rparr>
                     | _ \<Rightarrow> Inl (Errorf ''pem: issuer certificate public key is not ECDSA''))))"

definition pem_Sign :: "'w crypto_lib \<Rightarrow> pem_signer \<Rightarrow> x509_cert \<Rightarrow> public_key option \<Rightarrow> ('w, string) io" where
  "pem_Sign lib s template subjectPub w =
     (case CreateCertificate lib (Some (RandReader lib)) template (PemCert s) subjectPub (EcdsaSigner lib (PemKey s)) w of
        (Inl e, w1) \<Rightarrow> (Inl (Wrap ''pem: create certificate: '' e []), w1)
      | (Inr der, w1) \<Rightarrow> (Inr der, w1))"

definition pem_SignCRL :: "'w crypto_lib \<Rightarrow> pem_signer \<Rightarrow> revocation_list \<Rightarrow> ('w, string) io" where
  "pem_SignCRL lib s template w =
     (case CreateRevocationList lib (Some (RandReader lib)) template (PemCert s) (EcdsaSigner lib (PemKey s)) w of
        (Inl e, w1) \<Rightarrow> (Inl (Wrap ''pem: create crl: '' e []), w1)
      | (Inr der, w1) \<Rightarrow> (Inr der, w1))"

definition pem_signer_of :: "'w crypto_lib \<Rightarrow> pem_signer \<Rightarrow> 'w signer" where
  "pem_signer_of lib s =
     \<lparr>IssuerCertificate = Some (PemCert s), Sign = pem_Sign lib s, SignCRL = pem_SignCRL lib s\<rparr>"

section \<open>Vault\<close>

record vault_config =
  Address :: string
  VaultToken :: string
  KeyName :: string

record vault_signer =
  VaultCfg :: vault_config
  VaultIssuer :: x509_cert

definition vault_New :: "vault_config \<Rightarrow> x509_cert option \<Rightarrow> vault_signer result" where
  "vault_New cfg issuer =
     (if Address cfg = [] \<or> VaultToken cfg = [] \<or> KeyName cfg = []
      then Inl (Errorf ''vault: Address, Token and KeyName are required'')
      else case issuer of
        None \<Rightarrow> Inl (Errorf ''vault: nil issuer certificate'')
      | Some c \<Rightarrow> Inr \<lparr>VaultCfg = cfg, VaultIssuer = c\<rparr>)"

text \<open>\<open>strings.LastIndex(sig, ":")\<close>: what follows the last colon, all of it if there is none.\<close>

definition after_last_colon :: "string \<Rightarrow> string" where
  "after_last_colon s = rev (takeWhile (\<lambda>c. c \<noteq> CHR '':'') (rev s))"

text \<open>The anonymous response struct, with the one field of its one member.\<close>

record transit_response = Signature :: string

definition transit_data :: "transit_response field list" where
  "transit_data =
     [(''signature'', \<lambda>j s. map_option (\<lambda>x. s\<lparr>Signature := x\<rparr>) (decode_string j (Signature s)))]"

definition transit_fields :: "transit_response field list" where
  "transit_fields = [(''data'', decode_struct False transit_data)]"

definition decodeTransitSignature :: "string \<Rightarrow> string result" where
  "decodeTransitSignature body =
     (case Option.bind (parse_whole body) (\<lambda>j. decode_struct False transit_fields j \<lparr>Signature = []\<rparr>) of
        None \<Rightarrow> Inl (Wrap ''vault: decode response: '' (Errorf ''json'') [])
      | Some parsed \<Rightarrow>
          let sig = Signature parsed
          in if sig = [] then Inl (Errorf ''vault: response had no signature'')
             else (case b64_decode (after_last_colon sig) of
                     None \<Rightarrow> Inl (Wrap ''vault: decode signature base64: '' (Errorf ''illegal base64 data'') [])
                   | Some raw \<Rightarrow> Inr raw))"

definition sign_request_body :: "string \<Rightarrow> json" where
  "sign_request_body digest =
     JObj [(''hash_algorithm'', JStr ''sha2-384''), (''input'', JStr (b64_encode digest)),
           (''marshaling_algorithm'', JStr ''asn1''), (''prehashed'', JBool True)]"

definition sign_url :: "vault_config \<Rightarrow> string" where
  "sign_url cfg = trim_right_byte (Address cfg) CHR ''/'' @ ''/v1/transit/sign/'' @ KeyName cfg"

definition signDigest :: "'w http_lib \<Rightarrow> vault_signer \<Rightarrow> string \<Rightarrow> ('w, string) io" where
  "signDigest http s digest w =
     (let url = sign_url (VaultCfg s)
      in case BadUrl http url of
           Some e \<Rightarrow> (Inl (Wrap ''vault: build request: '' e []), w)
         | None \<Rightarrow>
             (case RoundTrip http
                     \<lparr>ReqMethod = ''POST'', ReqUrl = url,
                      ReqHeader = [(''X-Vault-Token'', VaultToken (VaultCfg s)), (''Content-Type'', ''application/json'')],
                      ReqBody = Some (compact_json (sign_request_body digest))\<rparr> w of
                (Inl e, w1) \<Rightarrow> (Inl (Wrap ''vault: sign request: '' e []), w1)
              | (Inr resp, w1) \<Rightarrow>
                  if StatusCode resp \<noteq> 200
                  then (Inl (Errorf (''vault: sign returned '' @ StatusText resp @ '': '' @ trim_space (RespBody resp))), w1)
                  else (decodeTransitSignature (RespBody resp), w1)))"

definition hash_text :: "hash_func \<Rightarrow> string" where
  "hash_text h = (case h of SHA384 \<Rightarrow> ''SHA-384'' | OtherHash n \<Rightarrow> n)"

definition cryptoSigner_Sign :: "'w http_lib \<Rightarrow> vault_signer \<Rightarrow> string \<Rightarrow> hash_func \<Rightarrow> ('w, string) io" where
  "cryptoSigner_Sign http s digest h w =
     (if h \<noteq> SHA384 then (Inl (Errorf (''vault: unexpected hash '' @ hash_text h @ '', want SHA-384'')), w)
      else signDigest http s digest w)"

definition cryptoSigner :: "'w http_lib \<Rightarrow> vault_signer \<Rightarrow> 'w crypto_signer" where
  "cryptoSigner http s = \<lparr>SignerPublic = XPublicKey (VaultIssuer s), SignDigest = cryptoSigner_Sign http s\<rparr>"

definition zeroReader :: "'w reader" where
  "zeroReader w = (Inr (char_of (0 :: nat)), w)"

definition vault_Sign :: "'w crypto_lib \<Rightarrow> 'w http_lib \<Rightarrow> vault_signer \<Rightarrow> x509_cert \<Rightarrow> public_key option \<Rightarrow> ('w, string) io" where
  "vault_Sign lib http s template subjectPub w =
     (case CreateCertificate lib (Some zeroReader) template (VaultIssuer s) subjectPub (cryptoSigner http s) w of
        (Inl e, w1) \<Rightarrow> (Inl (Wrap ''vault: create certificate: '' e []), w1)
      | (Inr der, w1) \<Rightarrow> (Inr der, w1))"

definition vault_SignCRL :: "'w crypto_lib \<Rightarrow> 'w http_lib \<Rightarrow> vault_signer \<Rightarrow> revocation_list \<Rightarrow> ('w, string) io" where
  "vault_SignCRL lib http s template w =
     (case CreateRevocationList lib (Some zeroReader) template (VaultIssuer s) (cryptoSigner http s) w of
        (Inl e, w1) \<Rightarrow> (Inl (Wrap ''vault: create crl: '' e []), w1)
      | (Inr der, w1) \<Rightarrow> (Inr der, w1))"

definition vault_signer_of :: "'w crypto_lib \<Rightarrow> 'w http_lib \<Rightarrow> vault_signer \<Rightarrow> 'w signer" where
  "vault_signer_of lib http s =
     \<lparr>IssuerCertificate = Some (VaultIssuer s), Sign = vault_Sign lib http s, SignCRL = vault_SignCRL lib http s\<rparr>"

end
