(* ===== verification/CmdIssuer.thy ===== *)
theory CmdIssuer imports Enroll RestClient SignerAdapters begin

text \<open>
  \<open>cmd/issuer\<close>: the signer chosen by the environment, and the poll over all open requests. A log
  line is not part of the model; the exit status of \<open>main\<close> is.
\<close>

section \<open>The signer\<close>

definition loadCert :: "'w crypto_lib \<Rightarrow> 'w os_lib \<Rightarrow> string \<Rightarrow> ('w, x509_cert) io" where
  "loadCert lib os path w =
     (if path = [] then (Inl (Errorf ''INTERMEDIATE_CERT is not set''), w)
      else case ReadFile os path w of
        (Inl e, w1) \<Rightarrow> (Inl (Wrap ''read intermediate cert: '' e []), w1)
      | (Inr data, w1) \<Rightarrow>
          (case pem_decode data of
             None \<Rightarrow> (Inl (Errorf (''intermediate cert '' @ go_quote path @ '' is not a PEM CERTIFICATE'')), w1)
           | Some (block, rest) \<Rightarrow>
               if BlockType block \<noteq> ''CERTIFICATE''
               then (Inl (Errorf (''intermediate cert '' @ go_quote path @ '' is not a PEM CERTIFICATE'')), w1)
               else (case ParseCertificate lib (BlockBytes block) of
                       Inl e \<Rightarrow> (Inl (Wrap ''parse intermediate cert: '' e []), w1)
                     | Inr cert \<Rightarrow> (Inr cert, w1))))"

definition vault_config_of :: "'w os_lib \<Rightarrow> vault_config" where
  "vault_config_of os =
     \<lparr>Address = Getenv os ''VAULT_ADDR'', VaultToken = Getenv os ''VAULT_TOKEN'', KeyName = Getenv os ''VAULT_TRANSIT_KEY''\<rparr>"

definition newSigner :: "'w crypto_lib \<Rightarrow> 'w http_lib \<Rightarrow> 'w os_lib \<Rightarrow> ('w, 'w signer) io" where
  "newSigner lib http os w =
     (if Getenv os ''VAULT_ADDR'' \<noteq> [] then
        (case loadCert lib os (Getenv os ''INTERMEDIATE_CERT'') w of
           (Inl e, w1) \<Rightarrow> (Inl e, w1)
         | (Inr cert, w1) \<Rightarrow> (res_map (vault_signer_of lib http) (vault_New (vault_config_of os) (Some cert)), w1))
      else if Getenv os ''INTERMEDIATE_KEY_PEM'' \<noteq> [] then
        (case loadCert lib os (Getenv os ''INTERMEDIATE_CERT'') w of
           (Inl e, w1) \<Rightarrow> (Inl e, w1)
         | (Inr cert, w1) \<Rightarrow>
             (res_map (pem_signer_of lib)
                (pem_New lib \<lparr>KeyPEM = Getenv os ''INTERMEDIATE_KEY_PEM'', PemIssuer = Some cert\<rparr>), w1))
      else (Inl (Errorf ''issuer: no signer configured (set VAULT_ADDR or INTERMEDIATE_KEY_PEM)''), w))"

section \<open>The poll\<close>

definition rest_config_of :: "'w os_lib \<Rightarrow> config" where
  "rest_config_of os =
     \<lparr>Token = Getenv os ''GITHUB_TOKEN'', BotLogin = Getenv os ''ISSUER_BOT_LOGIN'',
      CfgRepo = Getenv os ''GITHUB_REPOSITORY'', APIBase = []\<rparr>"

text \<open>The loop over the issues; a pipeline that does not return makes the loop not return.\<close>

fun poll_issues :: "(issue \<Rightarrow> 'w \<Rightarrow> (unit result \<times> 'w) option) \<Rightarrow> issue list \<Rightarrow> nat \<Rightarrow> 'w \<Rightarrow> (nat \<times> 'w) option" where
  "poll_issues process [] failures w = Some (failures, w)"
| "poll_issues process (i # is) failures w =
     (case process i w of
        None \<Rightarrow> None
      | Some (Inl e, w1) \<Rightarrow> poll_issues process is (Suc failures) w1
      | Some (Inr u, w1) \<Rightarrow> poll_issues process is failures w1)"

definition poll_result :: "nat \<Rightarrow> issue list \<Rightarrow> unit result" where
  "poll_result failures is =
     (if failures > 0
      then Inl (Errorf (show_nat failures @ '' of '' @ show_nat (length is) @ '' issue(s) failed this poll''))
      else Inr ())"

definition run ::
  "'w crypto_lib \<Rightarrow> xml_parser \<Rightarrow> 'w http_lib \<Rightarrow> 'w os_lib \<Rightarrow> ('w \<Rightarrow> time \<times> 'w) \<Rightarrow> 'w \<Rightarrow> (unit result \<times> 'w) option" where
  "run lib xml http os clock w =
     (case RestClient.New (rest_config_of os) of
        Inl e \<Rightarrow> Some (Inl e, w)
      | Inr c \<Rightarrow>
          (case newSigner lib http os w of
             (Inl e, w1) \<Rightarrow> Some (Inl e, w1)
           | (Inr sg, w1) \<Rightarrow>
               let d = \<lparr>GH = rest_github http c, Signer = sg, Clock = clock, Rand = RandReader lib\<rparr>
               in case ListOpenCertRequests (GH d) w1 of
                    (Inl e, w2) \<Rightarrow> Some (Inl (Wrap ''list open requests: '' e []), w2)
                  | (Inr is, w2) \<Rightarrow>
                      map_option (apfst (\<lambda>failures. poll_result failures is)) (poll_issues (Process lib xml d) is 0 w2)))"

text \<open>\<open>log.Fatalf\<close> ends the process with status 1.\<close>

definition main ::
  "'w crypto_lib \<Rightarrow> xml_parser \<Rightarrow> 'w http_lib \<Rightarrow> 'w os_lib \<Rightarrow> ('w \<Rightarrow> time \<times> 'w) \<Rightarrow> 'w \<Rightarrow> (int \<times> 'w) option" where
  "main lib xml http os clock w =
     map_option (apfst (\<lambda>r. if isl r then 1 else 0)) (run lib xml http os clock w)"

end
