(* ===== verification/CmdRevoker.thy ===== *)
theory CmdRevoker imports Revoke RestClient begin

text \<open>
  \<open>cmd/revoker\<close> and \<open>cmd/privrevoke\<close>: the poll over all open revocation requests, and one
  revocation with the inputs of an operator.
\<close>

section \<open>Revoker\<close>

definition revoker_config_of :: "'w os_lib \<Rightarrow> config" where
  "revoker_config_of os =
     \<lparr>Token = Getenv os ''GITHUB_TOKEN'', BotLogin = Getenv os ''ISSUER_BOT_LOGIN'',
      CfgRepo = Getenv os ''GITHUB_REPOSITORY'', APIBase = []\<rparr>"

fun revoke_issues :: "(issue \<Rightarrow> ('w, unit) io) \<Rightarrow> issue list \<Rightarrow> nat \<Rightarrow> 'w \<Rightarrow> nat \<times> 'w" where
  "revoke_issues process [] failures w = (failures, w)"
| "revoke_issues process (i # is) failures w =
     (case process i w of
        (Inl e, w1) \<Rightarrow> revoke_issues process is (Suc failures) w1
      | (Inr u, w1) \<Rightarrow> revoke_issues process is failures w1)"

definition revoker_run :: "'w crypto_lib \<Rightarrow> 'w http_lib \<Rightarrow> 'w os_lib \<Rightarrow> ('w \<Rightarrow> time \<times> 'w) \<Rightarrow> ('w, unit) io" where
  "revoker_run lib http os clock w =
     (case RestClient.New (revoker_config_of os) of
        Inl e \<Rightarrow> (Inl e, w)
      | Inr c \<Rightarrow>
          let d = \<lparr>RevGH = rest_github http c, RevVerifier = openssl_verifier lib os, RevClock = clock\<rparr>
          in case ListOpenRevocationRequests (RevGH d) w of
               (Inl e, w1) \<Rightarrow> (Inl (Wrap ''list open revocation requests: '' e []), w1)
             | (Inr is, w1) \<Rightarrow>
                 (case revoke_issues (Revoke.Process lib d) is 0 w1 of
                    (failures, w2) \<Rightarrow>
                      (if failures > 0
                       then Inl (Errorf (show_nat failures @ '' of '' @ show_nat (length is) @ '' issue(s) failed this poll''))
                       else Inr (), w2)))"

definition revoker_main :: "'w crypto_lib \<Rightarrow> 'w http_lib \<Rightarrow> 'w os_lib \<Rightarrow> ('w \<Rightarrow> time \<times> 'w) \<Rightarrow> 'w \<Rightarrow> int \<times> 'w" where
  "revoker_main lib http os clock w = apfst (\<lambda>r. if isl r then 1 else 0) (revoker_run lib http os clock w)"

section \<open>Privrevoke\<close>

definition request_of :: "'w os_lib \<Rightarrow> privileged_request result" where
  "request_of os =
     (let req = \<lparr>PrivAppID = Getenv os ''APP_ID'', PrivSerial = Getenv os ''SERIAL'', PrivReason = Getenv os ''REASON'',
                 PrivRevokedFrom = None, PrivActor = Getenv os ''ACTOR''\<rparr>;
          rf = Getenv os ''REVOKED_FROM''
      in if rf \<noteq> [] then
           (case parse_rfc3339 rf of
              None \<Rightarrow> Inl (Wrap (''privrevoke: REVOKED_FROM '' @ go_quote rf @ '' is not RFC3339: '') (Errorf ''time'') [])
            | Some t \<Rightarrow> Inr (req\<lparr>PrivRevokedFrom := Some t\<rparr>))
         else Inr req)"

definition privrevoke_run :: "'w http_lib \<Rightarrow> 'w os_lib \<Rightarrow> ('w \<Rightarrow> time \<times> 'w) \<Rightarrow> ('w, unit) io" where
  "privrevoke_run http os clock w =
     (case RestClient.New (revoker_config_of os) of
        Inl e \<Rightarrow> (Inl e, w)
      | Inr c \<Rightarrow>
          (case request_of os of
             Inl e \<Rightarrow> (Inl e, w)
           | Inr req \<Rightarrow> PrivilegedProcess \<lparr>PrivGH = rest_github http c, PrivClock = clock\<rparr> req w))"

definition privrevoke_main :: "'w http_lib \<Rightarrow> 'w os_lib \<Rightarrow> ('w \<Rightarrow> time \<times> 'w) \<Rightarrow> 'w \<Rightarrow> int \<times> 'w" where
  "privrevoke_main http os clock w = apfst (\<lambda>r. if isl r then 1 else 0) (privrevoke_run http os clock w)"

end
