(* ===== verification/Crl.thy ===== *)
theory Crl imports Signer Ledger Cms "HOL-Library.Multiset" "HOL-Library.List_Lexorder" "HOL-Library.Char_ord"
  "HOL-Library.Product_Lexorder" begin

text \<open>
  \<open>internal/crl\<close> and \<open>internal/crl/store\<close>: the certificate revocation list built from all ledgers,
  and the ledgers read from a directory. \<open>sort.Slice\<close> does not fix the order of equal elements:
  it is the parameter \<open>srt\<close> of \<open>Build\<close>, which gets the comparison of the code, and the locale \<open>slice_sort\<close>
  holds what the documentation of the package promises for every comparison that is a strict weak
  order.
\<close>

section \<open>Serials\<close>

definition hex_digit_value :: "char \<Rightarrow> nat option" where
  "hex_digit_value c =
     (if is_digit c then Some (byte c - 48)
      else if 97 \<le> byte c \<and> byte c \<le> 102 then Some (byte c - 87)
      else if 65 \<le> byte c \<and> byte c \<le> 70 then Some (byte c - 55)
      else None)"

fun scan_hex :: "string \<Rightarrow> nat \<Rightarrow> nat option" where
  "scan_hex [] n = Some n"
| "scan_hex (c # s) n = (case hex_digit_value c of None \<Rightarrow> None | Some d \<Rightarrow> scan_hex s (16 * n + d))"

text \<open>\<open>big.Int.SetString(s, 16)\<close>: a sign, then at least one digit, of either case.\<close>

definition set_string_16 :: "string \<Rightarrow> int option" where
  "set_string_16 s =
     (let (neg, ds) = (case s of
          c # t \<Rightarrow> if c = CHR ''-'' then (True, t) else if c = CHR ''+'' then (False, t) else (False, s)
        | [] \<Rightarrow> (False, []))
      in if ds = [] then None
         else map_option (\<lambda>n. if neg then - int n else int n) (scan_hex ds 0))"

definition parseSerial :: "string \<Rightarrow> int result" where
  "parseSerial s =
     (if length s < 3 \<or> take 2 s \<noteq> ''0x''
      then Inl (Errorf (''serial '' @ go_quote s @ '' is not 0x-prefixed hex''))
      else case set_string_16 (drop 2 s) of
        None \<Rightarrow> Inl (Errorf (''serial '' @ go_quote s @ '' is not valid hex''))
      | Some n \<Rightarrow> Inr n)"

section \<open>The list\<close>

definition crlValidity :: int where
  "crlValidity = 7 * 24 * Hour"

text \<open>The two loops, \<open>acc\<close> being \<open>entries\<close>.\<close>

fun add_certs :: "string \<Rightarrow> certificate list \<Rightarrow> revocation_entry list \<Rightarrow> revocation_entry list result" where
  "add_certs appID [] acc = Inr acc"
| "add_certs appID (c # cs) acc =
     (if Status c \<noteq> StatusRevoked then add_certs appID cs acc
      else case parseSerial (Serial c) of
        Inl e \<Rightarrow> Inl (Wrap (''crl: ledger '' @ appID @ '' cert '' @ go_quote (Serial c) @ '': '') e [])
      | Inr serial \<Rightarrow>
          (case RevokedFrom c of
             None \<Rightarrow> Inl (Errorf (''crl: ledger '' @ appID @ '' cert '' @ go_quote (Serial c)
                                  @ '' is revoked but has no revokedFrom''))
           | Some t \<Rightarrow> add_certs appID cs (acc @ [\<lparr>EntrySerial = serial, RevocationTime = t\<rparr>])))"

fun add_ledgers :: "ledger list \<Rightarrow> revocation_entry list \<Rightarrow> revocation_entry list result" where
  "add_ledgers [] acc = Inr acc"
| "add_ledgers (l # ls) acc =
     (case add_certs (AppID l) (certs l) acc of Inl e \<Rightarrow> Inl e | Inr acc' \<Rightarrow> add_ledgers ls acc')"

text \<open>\<open>big.Int.Cmp\<close>, and the comparison that is passed to \<open>sort.Slice\<close>.\<close>

definition Cmp :: "int \<Rightarrow> int \<Rightarrow> int" where
  "Cmp x y = (if x < y then - 1 else if x = y then 0 else 1)"

definition less_serial :: "revocation_entry \<Rightarrow> revocation_entry \<Rightarrow> bool" where
  "less_serial e e' \<longleftrightarrow> Cmp (EntrySerial e) (EntrySerial e') < 0"

type_synonym slice_sorter = "(revocation_entry \<Rightarrow> revocation_entry \<Rightarrow> bool) \<Rightarrow> revocation_entry list \<Rightarrow> revocation_entry list"

definition Build :: "slice_sorter \<Rightarrow> ledger list \<Rightarrow> time \<Rightarrow> revocation_list result" where
  "Build srt ledgers now =
     (case add_ledgers ledgers [] of
        Inl e \<Rightarrow> Inl e
      | Inr entries \<Rightarrow>
          Inr \<lparr>CRLNumber = time_unix now, ThisUpdate = now, NextUpdate = time_add now crlValidity,
               RevokedEntries = srt less_serial entries\<rparr>)"

section \<open>The ledger directory\<close>

text \<open>The file system: whether a path is a directory, and the paths matching a pattern in one.\<close>

record 'w dir_lib =
  StatIsDir :: "string \<Rightarrow> ('w, bool) io"
  GlobIn :: "string \<Rightarrow> string \<Rightarrow> ('w, string list) io"

fun load_paths :: "'w os_lib \<Rightarrow> string list \<Rightarrow> ledger list \<Rightarrow> ('w, ledger list) io" where
  "load_paths os [] ledgers w = (Inr ledgers, w)"
| "load_paths os (p # ps) ledgers w =
     (case ReadFile os p w of
        (r, w1) \<Rightarrow>
          (case Load (\<lambda>path. r) p of
             Inl e \<Rightarrow> (Inl (Wrap (''store: load '' @ p @ '': '') e []), w1)
           | Inr l \<Rightarrow> load_paths os ps (ledgers @ [l]) w1))"

definition LoadAll :: "'w dir_lib \<Rightarrow> 'w os_lib \<Rightarrow> string \<Rightarrow> ('w, ledger list) io" where
  "LoadAll fs os dir w =
     (case StatIsDir fs dir w of
        (Inl e, w1) \<Rightarrow> (Inl (Wrap (''store: ledger dir '' @ dir @ '': '') e []), w1)
      | (Inr is_dir, w1) \<Rightarrow>
          if \<not> is_dir then (Inl (Errorf (''store: '' @ dir @ '' is not a directory'')), w1)
          else (case GlobIn fs dir ''*.json'' w1 of
                  (Inl e, w2) \<Rightarrow> (Inl (Wrap (''store: glob '' @ dir @ '': '') e []), w2)
                | (Inr paths, w2) \<Rightarrow> load_paths os (sort paths) [] w2))"

section \<open>Serials round trip\<close>

lemma hex_digit_value_hex_char: "d < 16 \<Longrightarrow> hex_digit_value (hex_char d) = Some d"
  by (auto simp: hex_digit_value_def is_digit_def byte_hex_char)

lemma scan_hex_append: "scan_hex (a @ b) n = (case scan_hex a n of None \<Rightarrow> None | Some m \<Rightarrow> scan_hex b m)"
  by (induction a arbitrary: n) (auto split: option.splits)

lemma scan_show_base: "scan_hex (show_base 16 n) 0 = Some n"
proof (induction n rule: less_induct)
  case (less n)
  show ?case
  proof (cases "n < 16")
    case True
    then show ?thesis by (subst show_base.simps) (simp add: hex_digit_value_hex_char)
  next
    case False
    then have "show_base 16 n = show_base 16 (n div 16) @ [hex_char (n mod 16)]"
      by (subst show_base.simps) simp
    moreover have "16 * (n div 16) + n mod 16 = n" by simp
    ultimately show ?thesis
      using less [of "n div 16"] False by (simp add: scan_hex_append hex_digit_value_hex_char)
  qed
qed

lemma show_base_hd: "list_all is_lower_hex (show_base 16 n) \<Longrightarrow> show_base 16 n = c # t \<Longrightarrow> c \<noteq> CHR ''-'' \<and> c \<noteq> CHR ''+''"
  by (auto simp: is_lower_hex_def is_digit_def)

lemma set_string_hex_text: "set_string_16 (hex_text i) = Some i"
proof -
  obtain c t where ct: "show_base 16 (nat i) = c # t" by (cases "show_base 16 (nat i)") auto
  have "c \<noteq> CHR ''-'' \<and> c \<noteq> CHR ''+''" using show_base_hd [OF show_base_lower_hex ct] by simp
  with ct show ?thesis
    using scan_show_base [of "nat i"] scan_show_base [of "nat (- i)"]
    by (cases "i < 0") (simp_all add: set_string_16_def hex_text_def)
qed

lemma parse_FormatSerial: "parseSerial (FormatSerial i) = Inr i"
proof -
  have "hex_text i \<noteq> []" by (simp add: hex_text_def)
  then have "\<not> length (FormatSerial i) < 3" by (cases "hex_text i") (auto simp: FormatSerial_def)
  then show ?thesis by (simp add: parseSerial_def FormatSerial_def set_string_hex_text)
qed

section \<open>What the loops collect\<close>

text \<open>The entry of one revoked certificate.\<close>

definition cert_entry :: "certificate \<Rightarrow> revocation_entry option" where
  "cert_entry c =
     (case (parseSerial (Serial c), RevokedFrom c) of
        (Inr n, Some t) \<Rightarrow> Some \<lparr>EntrySerial = n, RevocationTime = t\<rparr>
      | _ \<Rightarrow> None)"

definition entry_of :: "certificate \<Rightarrow> revocation_entry" where
  "entry_of c = the (cert_entry c)"

definition revoked_certs :: "ledger list \<Rightarrow> certificate list" where
  "revoked_certs ls = filter (\<lambda>c. Status c = StatusRevoked) (concat (map certs ls))"

lemma revoked_certs_mset: "mset ls = mset ls' \<Longrightarrow> mset (revoked_certs ls) = mset (revoked_certs ls')"
proof -
  have "mset (revoked_certs ls) = sum_mset (image_mset (\<lambda>l. filter_mset (\<lambda>c. Status c = StatusRevoked) (mset (certs l))) (mset ls))" for ls
    by (induction ls) (simp_all add: revoked_certs_def)
  then show "mset ls = mset ls' \<Longrightarrow> mset (revoked_certs ls) = mset (revoked_certs ls')" by simp
qed

definition listable :: "certificate \<Rightarrow> bool" where
  "listable c \<longleftrightarrow> cert_entry c \<noteq> None"

lemma add_certs_Inr:
  "add_certs a cs acc = Inr es \<longleftrightarrow>
     (let rs = filter (\<lambda>c. Status c = StatusRevoked) cs in list_all listable rs \<and> es = acc @ map entry_of rs)"
proof (induction cs arbitrary: acc)
  case (Cons c cs)
  show ?case
  proof (cases "Status c = StatusRevoked \<and> cert_entry c \<noteq> None")
    case True
    then obtain n t where "parseSerial (Serial c) = Inr n" "RevokedFrom c = Some t"
      by (auto simp: cert_entry_def split: sum.splits option.splits)
    with True show ?thesis by (auto simp: Cons.IH Let_def listable_def entry_of_def cert_entry_def)
  next
    case False
    then show ?thesis
      by (auto simp: Cons.IH Let_def listable_def cert_entry_def split: sum.splits option.splits)
  qed
qed auto

lemma add_ledgers_Inr:
  "add_ledgers ls acc = Inr es \<longleftrightarrow>
     list_all listable (revoked_certs ls) \<and> es = acc @ map entry_of (revoked_certs ls)"
proof (induction ls arbitrary: acc)
  case (Cons l ls)
  let ?r = "filter (\<lambda>c. Status c = StatusRevoked) (certs l)"
  have split: "revoked_certs (l # ls) = ?r @ revoked_certs ls" by (simp add: revoked_certs_def)
  show ?case
  proof (cases "list_all listable ?r")
    case True
    then have "add_certs (AppID l) (certs l) acc = Inr (acc @ map entry_of ?r)"
      by (simp add: add_certs_Inr Let_def)
    then show ?thesis by (simp add: split Cons.IH True)
  next
    case False
    then obtain e where "add_certs (AppID l) (certs l) acc = Inl e"
      using add_certs_Inr [of "AppID l" "certs l" acc] by (cases "add_certs (AppID l) (certs l) acc") (auto simp: Let_def)
    then show ?thesis using False by (simp add: split)
  qed
qed (auto simp: revoked_certs_def)

lemma Build_Inr:
  "Build srt ls now = Inr crl \<longleftrightarrow>
     list_all listable (revoked_certs ls) \<and>
     crl = \<lparr>CRLNumber = time_unix now, ThisUpdate = now, NextUpdate = time_add now crlValidity,
            RevokedEntries = srt less_serial (map entry_of (revoked_certs ls))\<rparr>"
proof (cases "add_ledgers ls []")
  case (Inl e)
  then show ?thesis using add_ledgers_Inr [of ls "[]"] by (auto simp: Build_def)
next
  case (Inr es)
  then have "list_all listable (revoked_certs ls)" "es = map entry_of (revoked_certs ls)"
    using add_ledgers_Inr [of ls "[]" es] by auto
  then show ?thesis using Inr by (auto simp: Build_def)
qed

section \<open>The sort\<close>

text \<open>What the documentation asks of a comparison: an irreflexive order, whose "neither is less" is transitive.\<close>

definition strict_weak :: "('a \<Rightarrow> 'a \<Rightarrow> bool) \<Rightarrow> bool" where
  "strict_weak lt \<longleftrightarrow> (\<forall>x. \<not> lt x x) \<and> (\<forall>x y z. lt x y \<longrightarrow> lt y z \<longrightarrow> lt x z) \<and>
     (\<forall>x y z. \<not> lt x y \<longrightarrow> \<not> lt y z \<longrightarrow> \<not> lt x z)"

lemma strict_weakD:
  assumes "strict_weak lt"
  shows "\<not> lt x x" and "lt x y \<Longrightarrow> \<not> lt y x" and "\<not> lt x y \<Longrightarrow> \<not> lt y z \<Longrightarrow> \<not> lt x z"
  using assms unfolding strict_weak_def by blast+

text \<open>The comparison of the code is one.\<close>

lemma less_serial_iff: "less_serial e e' \<longleftrightarrow> EntrySerial e < EntrySerial e'"
  by (simp add: less_serial_def Cmp_def)

lemma less_serial_strict_weak: "strict_weak less_serial"
  by (simp add: strict_weak_def less_serial_iff)

locale slice_sort =
  fixes srt :: slice_sorter
  assumes permutes: "strict_weak lt \<Longrightarrow> mset (srt lt es) = mset es"
    and sorts: "strict_weak lt \<Longrightarrow> sorted_wrt (\<lambda>x y. \<not> lt y x) (srt lt es)"
begin

lemma serials_permuted: "mset (srt less_serial es) = mset es"
  by (rule permutes [OF less_serial_strict_weak])

lemma serials_sorted: "sorted (map EntrySerial (srt less_serial es))"
  using sorts [OF less_serial_strict_weak, of es] by (simp add: sorted_map less_serial_iff not_less)

lemma entries_exact: "Build srt ls now = Inr crl \<Longrightarrow> mset (RevokedEntries crl) = image_mset entry_of (mset (revoked_certs ls))"
  by (simp add: Build_Inr serials_permuted)

lemma entries_sorted: "Build srt ls now = Inr crl \<Longrightarrow> sorted (map EntrySerial (RevokedEntries crl))"
  by (simp add: Build_Inr serials_sorted)

text \<open>The order of the entries that are given does not matter to the serials that come out.\<close>

lemma serials_unique:
  assumes "mset es = mset es'"
  shows "map EntrySerial (srt less_serial es) = sort (map EntrySerial es')"
proof -
  have "mset (map EntrySerial (srt less_serial es)) = mset (map EntrySerial es')"
    using assms by (simp add: serials_permuted)
  then show ?thesis using properties_for_sort [OF _ serials_sorted [of es]] by simp
qed

text \<open>With different serials it does not matter at all.\<close>

lemma order_unique:
  assumes es: "mset es = mset es'" and dist: "distinct (map EntrySerial es')"
  shows "srt less_serial es = sort_key EntrySerial es'"
proof (rule map_inj_on [of EntrySerial])
  have s: "set (srt less_serial es) = set es'" using serials_permuted [of es] es by (metis set_mset_mset)
  show "map EntrySerial (srt less_serial es) = map EntrySerial (sort_key EntrySerial es')"
    unfolding serials_unique [OF es] by (rule properties_for_sort) simp_all
  show "inj_on EntrySerial (set (srt less_serial es) \<union> set (sort_key EntrySerial es'))"
    using dist by (simp add: s distinct_map)
qed

end

text \<open>Entries have an order of their own: by serial, then by time.\<close>

instantiation revocation_entry_ext :: (linorder) linorder
begin

definition less_eq_revocation_entry_ext :: "'a revocation_entry_scheme \<Rightarrow> 'a revocation_entry_scheme \<Rightarrow> bool" where
  "less_eq_revocation_entry_ext e e' \<longleftrightarrow>
     (EntrySerial e, RevocationTime e, revocation_entry.more e) \<le> (EntrySerial e', RevocationTime e', revocation_entry.more e')"

definition less_revocation_entry_ext :: "'a revocation_entry_scheme \<Rightarrow> 'a revocation_entry_scheme \<Rightarrow> bool" where
  "less_revocation_entry_ext e e' \<longleftrightarrow> e \<le> e' \<and> \<not> e' \<le> e"

instance
proof
  fix x y z :: "'a revocation_entry_scheme"
  show "x < y \<longleftrightarrow> x \<le> y \<and> \<not> y \<le> x" by (rule less_revocation_entry_ext_def)
  show "x \<le> x" by (simp add: less_eq_revocation_entry_ext_def)
  show "x \<le> y \<Longrightarrow> y \<le> z \<Longrightarrow> x \<le> z" unfolding less_eq_revocation_entry_ext_def by (rule order_trans)
  show "x \<le> y \<Longrightarrow> y \<le> x \<Longrightarrow> x = y"
    unfolding less_eq_revocation_entry_ext_def by (drule (1) antisym) (simp add: revocation_entry.equality)
  show "x \<le> y \<or> y \<le> x" unfolding less_eq_revocation_entry_ext_def by (rule linear)
qed

end

text \<open>What \<open>sort.Slice\<close> does on a short slice: each element in turn moves down past the larger ones.
  The sorted part is held from its end.\<close>

fun insert_down :: "('a \<Rightarrow> 'a \<Rightarrow> bool) \<Rightarrow> 'a \<Rightarrow> 'a list \<Rightarrow> 'a list" where
  "insert_down lt e [] = [e]"
| "insert_down lt e (x # xs) = (if lt e x then x # insert_down lt e xs else e # x # xs)"

definition insertionSort :: "('a \<Rightarrow> 'a \<Rightarrow> bool) \<Rightarrow> 'a list \<Rightarrow> 'a list" where
  "insertionSort lt es = rev (fold (insert_down lt) es [])"

lemma insert_down_mset [simp]: "mset (insert_down lt e xs) = add_mset e (mset xs)"
  by (induction xs) auto

lemma insert_down_set [simp]: "set (insert_down lt e xs) = insert e (set xs)"
  using insert_down_mset [of lt e xs] by (metis set_mset_add_mset_insert set_mset_mset)

lemma insert_down_sorted:
  assumes "strict_weak lt"
  shows "sorted_wrt (\<lambda>x y. \<not> lt x y) xs \<Longrightarrow> sorted_wrt (\<lambda>x y. \<not> lt x y) (insert_down lt e xs)"
  by (induction xs) (auto dest: strict_weakD(2,3) [OF assms])

lemma fold_insert_down:
  assumes "strict_weak lt"
  shows "mset (fold (insert_down lt) es acc) = mset es + mset acc"
    and "sorted_wrt (\<lambda>x y. \<not> lt x y) acc \<Longrightarrow> sorted_wrt (\<lambda>x y. \<not> lt x y) (fold (insert_down lt) es acc)"
  by (induction es arbitrary: acc) (auto simp: insert_down_sorted [OF assms])

lemma insertionSort_props:
  assumes "strict_weak lt"
  shows "mset (insertionSort lt es) = mset es" "sorted_wrt (\<lambda>x y. \<not> lt y x) (insertionSort lt es)"
  using fold_insert_down(1) [OF assms, of es "[]"] fold_insert_down(2) [OF assms, of "[]" es]
  by (simp_all add: insertionSort_def sorted_wrt_rev)

interpretation insertion: slice_sort insertionSort
  by unfold_locales (simp_all add: insertionSort_props)

text \<open>Another sort that \<open>sort.Slice\<close> may be, which orders equal elements in another way.\<close>

definition tie_sort :: "('a::linorder \<Rightarrow> 'a \<Rightarrow> bool) \<Rightarrow> 'a list \<Rightarrow> 'a list" where
  "tie_sort lt es = insertionSort lt (sort es)"

interpretation ties: slice_sort tie_sort
  by unfold_locales (simp_all add: tie_sort_def insertionSort_props)

section \<open>What the loader reads\<close>

text \<open>The files at these paths were read one after the other, and hold these ledgers.\<close>

inductive reads :: "'w os_lib \<Rightarrow> string list \<Rightarrow> 'w \<Rightarrow> ledger list \<Rightarrow> 'w \<Rightarrow> bool" for os where
  none: "reads os [] w [] w"
| one: "ReadFile os p w = (Inr data, w1) \<Longrightarrow> Ledger.Parse data = Inr l \<Longrightarrow> reads os ps w1 ls w' \<Longrightarrow>
    reads os (p # ps) w (l # ls) w'"

inductive_simps reads_simps [simp]: "reads os [] w ls w'" "reads os (p # ps) w ls w'"

lemma reads_ok: "reads os ps w ls w' \<Longrightarrow> list_all ledger_ok ls"
  by (induction rule: reads.induct) (auto dest: Parse_ok)

lemma reads_length: "reads os ps w ls w' \<Longrightarrow> length ls = length ps"
  by (induction rule: reads.induct) auto

lemma load_paths_Inr: "load_paths os ps acc w = (Inr ls, w') \<longleftrightarrow> (\<exists>ls'. ls = acc @ ls' \<and> reads os ps w ls' w')"
proof (induction ps arbitrary: acc w)
  case (Cons p ps)
  obtain r w1 where r: "ReadFile os p w = (r, w1)" by (metis surj_pair)
  show ?case
  proof (cases "\<exists>data l. r = Inr data \<and> Ledger.Parse data = Inr l")
    case True
    then obtain data l where l: "r = Inr data" "Ledger.Parse data = Inr l" by blast
    then have "load_paths os (p # ps) acc w = load_paths os ps (acc @ [l]) w1" by (simp add: r Load_def)
    then show ?thesis using l by (auto simp: r Cons.IH)
  next
    case False
    then have "\<exists>e. Load (\<lambda>path. r) p = Inl e"
      by (cases r; cases "Ledger.Parse (projr r)") (auto simp: Load_def)
    then show ?thesis using False by (auto simp: r)
  qed
qed auto

lemma LoadAll_Inr:
  "LoadAll fs os dir w = (Inr ls, w') \<longleftrightarrow>
     (\<exists>w1 w2 paths. StatIsDir fs dir w = (Inr True, w1) \<and> GlobIn fs dir ''*.json'' w1 = (Inr paths, w2) \<and>
        reads os (sort paths) w2 ls w')"
  by (auto simp: LoadAll_def load_paths_Inr split: prod.splits sum.splits if_splits)

section \<open>Properties\<close>

text \<open>C4: The revocation list holds exactly one entry per revoked certificate of the ledgers, with its
  serial and its \<open>revokedFrom\<close>, in the order of the serials; it is dated now, numbered by the Unix
  time and valid for seven days. There is no list at all exactly when a revoked certificate has an
  unreadable serial or no date: no revocation is left out silently.\<close>
theorem crl_lists_exactly_revoked:
  assumes "slice_sort srt"
  shows "case Build srt ls now of
      Inl e \<Rightarrow> \<exists>c\<in>set (revoked_certs ls). isl (parseSerial (Serial c)) \<or> RevokedFrom c = None
    | Inr crl \<Rightarrow>
        list_all (\<lambda>c. \<not> isl (parseSerial (Serial c)) \<and> RevokedFrom c \<noteq> None) (revoked_certs ls) \<and>
        mset (RevokedEntries crl) = image_mset entry_of (mset (revoked_certs ls)) \<and>
        sorted (map EntrySerial (RevokedEntries crl)) \<and>
        CRLNumber crl = time_unix now \<and> ThisUpdate crl = now \<and> NextUpdate crl = now + 7 * 24 * Hour"
proof -
  have l: "listable c \<longleftrightarrow> \<not> isl (parseSerial (Serial c)) \<and> RevokedFrom c \<noteq> None" for c
    by (auto simp: listable_def cert_entry_def split: sum.splits option.splits)
  show ?thesis
  proof (cases "Build srt ls now")
    case (Inl e)
    then have "\<not> list_all listable (revoked_certs ls)" using Build_Inr [of srt ls now] by auto
    then show ?thesis using Inl l by (auto simp: list_all_iff)
  next
    case (Inr crl)
    note b = Inr [unfolded Build_Inr]
    have "list_all (\<lambda>c. \<not> isl (parseSerial (Serial c)) \<and> RevokedFrom c \<noteq> None) (revoked_certs ls)"
      using b l by (simp add: list_all_iff)
    then show ?thesis
      using Inr b slice_sort.entries_exact [OF assms Inr] slice_sort.entries_sorted [OF assms Inr]
      by (simp add: time_add_def crlValidity_def)
  qed
qed

text \<open>C19: The list depends on the ledgers alone: in whatever order the ledgers are read, and however
  \<open>sort.Slice\<close> orders equal elements, there is a list for the one if and only if there is one for the
  other, with the same number and dates, the same entries and the same sequence of serials; and when
  no serial is there twice, the two lists are equal and their serials increase strictly.\<close>
theorem crl_deterministic:
  assumes "slice_sort srt" and "slice_sort srt'" and "mset ls = mset ls'"
  shows "case (Build srt ls now, Build srt' ls' now) of
      (Inr crl, Inr crl') \<Rightarrow>
        CRLNumber crl = CRLNumber crl' \<and> ThisUpdate crl = ThisUpdate crl' \<and> NextUpdate crl = NextUpdate crl' \<and>
        mset (RevokedEntries crl) = mset (RevokedEntries crl') \<and>
        map EntrySerial (RevokedEntries crl) = map EntrySerial (RevokedEntries crl') \<and>
        (distinct (map EntrySerial (RevokedEntries crl)) \<longrightarrow>
           crl = crl' \<and> sorted_wrt (<) (map EntrySerial (RevokedEntries crl)))
    | (Inl e, Inl e') \<Rightarrow> True
    | _ \<Rightarrow> False"
proof -
  let ?es = "map entry_of (revoked_certs ls)" and ?es' = "map entry_of (revoked_certs ls')"
  note sorts = assms(1,2)
  have rs: "mset (revoked_certs ls) = mset (revoked_certs ls')" by (rule revoked_certs_mset [OF assms(3)])
  then have es: "mset ?es = mset ?es'" by simp
  have all: "list_all listable (revoked_certs ls) = list_all listable (revoked_certs ls')"
    using rs by (metis list_all_iff set_mset_mset)
  show ?thesis
  proof (cases "list_all listable (revoked_certs ls)")
    case True
    obtain crl crl' where b: "Build srt ls now = Inr crl" "Build srt' ls' now = Inr crl'"
      using True all Build_Inr by blast
    note c = b [unfolded Build_Inr]
    have serials: "map EntrySerial (RevokedEntries crl) = map EntrySerial (RevokedEntries crl')"
      using c slice_sort.serials_unique [OF sorts(1) es] slice_sort.serials_unique [OF sorts(2) refl, of ?es'] by simp
    have perm: "mset (RevokedEntries crl) = mset (RevokedEntries crl')"
      using c es slice_sort.serials_permuted [OF sorts(1)] slice_sort.serials_permuted [OF sorts(2)] by simp
    have "crl = crl'" if "distinct (map EntrySerial (RevokedEntries crl))"
    proof -
      have "mset (map EntrySerial (RevokedEntries crl)) = mset (map EntrySerial ?es')"
        using c es slice_sort.serials_permuted [OF sorts(1)] by (simp add: multiset.map_comp)
      then have d: "distinct (map EntrySerial ?es')" using that by (metis mset_eq_imp_distinct_iff)
      show ?thesis
        using c slice_sort.order_unique [OF sorts(1) es d] slice_sort.order_unique [OF sorts(2) refl d] by simp
    qed
    then show ?thesis
      using b c serials perm slice_sort.entries_sorted [OF sorts(1) b(1)] by (simp add: strict_sorted_iff)
  next
    case False
    then have "\<not> isl (Build srt ls now) \<Longrightarrow> False" "\<not> isl (Build srt' ls' now) \<Longrightarrow> False"
      using all Build_Inr by (auto simp: isl_def) (metis sum.exhaust)+
    then show ?thesis by (cases "Build srt ls now"; cases "Build srt' ls' now") auto
  qed
qed

text \<open>C20: Every serial number reads back from the form it has in the ledger, and two serial numbers
  have different forms.\<close>
theorem serial_reads_back:
  "parseSerial (FormatSerial i) = Inr i \<and> (FormatSerial i = FormatSerial j \<longleftrightarrow> i = j)"
  using parse_FormatSerial by (metis sum.inject(2))

text \<open>C21: A load of the ledger directory that succeeds has read and accepted every \<open>*.json\<close> file of it,
  in the order of the paths.\<close>
theorem store_omits_nothing:
  "case LoadAll fs os dir w of
     (Inl e, w') \<Rightarrow> True
   | (Inr ls, w') \<Rightarrow>
       list_all ledger_ok ls \<and>
       (\<exists>w1 w2 paths. StatIsDir fs dir w = (Inr True, w1) \<and> GlobIn fs dir ''*.json'' w1 = (Inr paths, w2) \<and>
          reads os (sort paths) w2 ls w')"
proof (cases "LoadAll fs os dir w")
  case (Pair r w')
  show ?thesis
  proof (cases r)
    case (Inr ls)
    then show ?thesis using Pair [unfolded Inr LoadAll_Inr] by (auto simp: Pair dest: reads_ok)
  qed (simp add: Pair)
qed

end
