(* ===== verification/CmdCrlgen.thy ===== *)
theory CmdCrlgen imports Crl RestClient SignerAdapters begin

text \<open>
  \<open>cmd/crlgen\<close> and \<open>cmd/seedcrl\<close>: the revocation list of the leaf certificates, built from the
  checked-out ledgers and published, and the empty list of the ceremony.
\<close>

section \<open>Crlgen\<close>

definition ledgerDir :: string where "ledgerDir = ''ledger''"
definition crlPath :: string where "crlPath = ''crl/developers.crl''"

definition loadCert :: "'w crypto_lib \<Rightarrow> 'w os_lib \<Rightarrow> string \<Rightarrow> ('w, x509_cert) io" where
  "loadCert lib os path w =
     (if path = [] then (Inl (Errorf ''INTERMEDIATE_CERT is not set''), w)
      else case ReadFile os path w of
        (Inl e, w1) \<Rightarrow> (Inl (Wrap ''read intermediate cert: '' e []), w1)
      | (Inr data, w1) \<Rightarrow>
          (case pem_decode data of
             None \<Rightarrow> (Inl (Errorf (''intermediate cert '' @ go_quote path @ '' is not a PEM CERTIFICATE'')), w1)
           | Some (block, rest) \<Rightarrow>
               if BlockType block \<noteq> ''CERTIFICATE''
               then (Inl (Errorf (''intermediate cert '' @ go_quote path @ '' is not a PEM CERTIFICATE'')), w1)
               else (case ParseCertificate lib (BlockBytes block) of
                       Inl e \<Rightarrow> (Inl (Wrap ''parse intermediate cert: '' e []), w1)
                     | Inr cert \<Rightarrow> (Inr cert, w1))))"

definition newSigner :: "'w crypto_lib \<Rightarrow> 'w http_lib \<Rightarrow> 'w os_lib \<Rightarrow> time \<Rightarrow> ('w, 'w signer) io" where
  "newSigner lib http os now w =
     (if Getenv os ''VAULT_ADDR'' \<noteq> [] then
        (case loadCert lib os (Getenv os ''INTERMEDIATE_CERT'') w of
           (Inl e, w1) \<Rightarrow> (Inl e, w1)
         | (Inr cert, w1) \<Rightarrow>
             (res_map (vault_signer_of lib http)
                (vault_New \<lparr>Address = Getenv os ''VAULT_ADDR'', VaultToken = Getenv os ''VAULT_TOKEN'',
                            KeyName = Getenv os ''VAULT_TRANSIT_KEY''\<rparr> (Some cert)), w1))
      else if Getenv os ''INTERMEDIATE_KEY_PEM'' \<noteq> [] then
        (case loadCert lib os (Getenv os ''INTERMEDIATE_CERT'') w of
           (Inl e, w1) \<Rightarrow> (Inl e, w1)
         | (Inr cert, w1) \<Rightarrow>
             (res_map (pem_signer_of lib)
                (pem_New lib \<lparr>KeyPEM = Getenv os ''INTERMEDIATE_KEY_PEM'', PemIssuer = Some cert\<rparr>), w1))
      else if Getenv os ''CRLGEN_ALLOW_LOCAL'' = ''1'' then
        (case local_New lib (RandReader lib) now w of
           (Inl e, w1) \<Rightarrow> (Inl e, w1)
         | (Inr s, w1) \<Rightarrow> (Inr (local_signer_of lib s), w1))
      else (Inl (Errorf (''crlgen: VAULT_ADDR is not set; refusing to sign with a throwaway key ''
                         @ ''(set CRLGEN_ALLOW_LOCAL=1 for a local dry-run)'')), w))"

definition publish_message :: string where
  "publish_message = ''chore: regenerate crl/developers.crl''"

definition publishCRL :: "'w github \<Rightarrow> string \<Rightarrow> string \<Rightarrow> ('w, unit) io" where
  "publishCRL gh repo der w =
     (let put = (\<lambda>sha w1. case PutFile gh repo crlPath der sha publish_message w1 of
            (Inl e, w2) \<Rightarrow> (Inl (Wrap (''crlgen: publish '' @ crlPath @ '': '') e []), w2)
          | (Inr u, w2) \<Rightarrow> (Inr (), w2))
      in case GetFile gh repo crlPath w of
           (Inl e, w1) \<Rightarrow>
             if errors_is e ErrNotFound then put [] w1
             else (Inl (Wrap ''crlgen: read published CRL: '' e []), w1)
         | (Inr (ct, sha), w1) \<Rightarrow> put sha w1)"

definition write_locally :: "'w os_lib \<Rightarrow> string \<Rightarrow> ('w, unit) io" where
  "write_locally os der w =
     (case MkdirAll os ''crl'' w of
        (Inl e, w1) \<Rightarrow> (Inl (Wrap ''create crl dir: '' e []), w1)
      | (Inr u, w1) \<Rightarrow>
          (case WriteFile os crlPath der w1 of
             (Inl e, w2) \<Rightarrow> (Inl (Wrap (''write '' @ crlPath @ '': '') e []), w2)
           | (Inr u2, w2) \<Rightarrow> (Inr (), w2)))"

text \<open>Where the list goes.\<close>

definition publish :: "'w http_lib \<Rightarrow> 'w os_lib \<Rightarrow> string \<Rightarrow> ('w, unit) io" where
  "publish http os der w =
     (let token = Getenv os ''GITHUB_TOKEN''; repo = Getenv os ''GITHUB_REPOSITORY''
      in if token = [] \<or> repo = [] then write_locally os der w
         else (case RestClient.New \<lparr>Token = token, BotLogin = Getenv os ''ISSUER_BOT_LOGIN'', CfgRepo = repo, APIBase = []\<rparr> of
                 Inl e \<Rightarrow> (Inl (Wrap ''crlgen: init github client: '' e []), w)
               | Inr c \<Rightarrow> publishCRL (rest_github http c) repo der w))"

definition run ::
  "slice_sorter \<Rightarrow> 'w crypto_lib \<Rightarrow> 'w http_lib \<Rightarrow> 'w dir_lib \<Rightarrow> 'w os_lib
     \<Rightarrow> ('w \<Rightarrow> time \<times> 'w) \<Rightarrow> ('w, unit) io" where
  "run srt lib http fs os clock w =
     (case clock w of
        (now, w1) \<Rightarrow>
          (case newSigner lib http os now w1 of
             (Inl e, w2) \<Rightarrow> (Inl e, w2)
           | (Inr sg, w2) \<Rightarrow>
               (case LoadAll fs os ledgerDir w2 of
                  (Inl e, w3) \<Rightarrow> (Inl e, w3)
                | (Inr ledgers, w3) \<Rightarrow>
                    (case Build srt ledgers now of
                       Inl e \<Rightarrow> (Inl e, w3)
                     | Inr tmpl \<Rightarrow>
                         (case SignCRL sg tmpl w3 of
                            (Inl e, w4) \<Rightarrow> (Inl (Wrap ''sign crl: '' e []), w4)
                          | (Inr der, w4) \<Rightarrow> publish http os der w4)))))"

definition main ::
  "slice_sorter \<Rightarrow> 'w crypto_lib \<Rightarrow> 'w http_lib \<Rightarrow> 'w dir_lib \<Rightarrow> 'w os_lib
     \<Rightarrow> ('w \<Rightarrow> time \<times> 'w) \<Rightarrow> 'w \<Rightarrow> int \<times> 'w" where
  "main srt lib http fs os clock w = apfst (\<lambda>r. if isl r then 1 else 0) (run srt lib http fs os clock w)"

section \<open>Seedcrl\<close>

definition seedcrl_validity :: int where
  "seedcrl_validity = 7 * 24 * Hour"

definition seedcrl_loadKey :: "'w crypto_lib \<Rightarrow> 'w os_lib \<Rightarrow> string \<Rightarrow> ('w, ec_private_key) io" where
  "seedcrl_loadKey lib os path w =
     (case ReadFile os path w of
        (Inl e, w1) \<Rightarrow> (Inl (Wrap ''read key: '' e []), w1)
      | (Inr data, w1) \<Rightarrow>
          (case pem_decode data of
             None \<Rightarrow> (Inl (Errorf (''key '' @ go_quote path @ '' is not PEM'')), w1)
           | Some (block, rest) \<Rightarrow>
               ((case (if BlockType block = ''EC PRIVATE KEY'' then res_map ECPrivateKey (ParseECPrivateKey lib (BlockBytes block))
                      else if BlockType block = ''PRIVATE KEY'' then ParsePKCS8PrivateKey lib (BlockBytes block)
                      else Inl (Errorf (''key '' @ go_quote path @ '': unexpected PEM block '' @ go_quote (BlockType block)))) of
                  Inl e \<Rightarrow> Inl e
                | Inr (OtherPrivateKey ty) \<Rightarrow> Inl (Errorf (''key '' @ go_quote path @ '' is not an EC private key''))
                | Inr (ECPrivateKey ec) \<Rightarrow>
                    if KeyCurve ec \<noteq> P384
                    then Inl (Errorf (''key '' @ go_quote path @ '' must be EC P-384 (design '' @ [CHR 0xC2, CHR 0xA7] @ ''3)''))
                    else Inr ec), w1)))"

definition seedcrl_loadCert :: "'w crypto_lib \<Rightarrow> 'w os_lib \<Rightarrow> string \<Rightarrow> ('w, x509_cert) io" where
  "seedcrl_loadCert lib os path w =
     (case ReadFile os path w of
        (Inl e, w1) \<Rightarrow> (Inl (Wrap ''read cert: '' e []), w1)
      | (Inr data, w1) \<Rightarrow>
          (case pem_decode data of
             None \<Rightarrow> (Inl (Errorf (''cert '' @ go_quote path @ '' is not a PEM CERTIFICATE'')), w1)
           | Some (block, rest) \<Rightarrow>
               if BlockType block \<noteq> ''CERTIFICATE''
               then (Inl (Errorf (''cert '' @ go_quote path @ '' is not a PEM CERTIFICATE'')), w1)
               else (ParseCertificate lib (BlockBytes block), w1)))"

text \<open>An ECDSA key is a \<open>crypto.Signer\<close>: the type assertion on it cannot fail.\<close>

definition seedcrl_run :: "'w crypto_lib \<Rightarrow> 'w os_lib \<Rightarrow> string \<Rightarrow> string \<Rightarrow> string \<Rightarrow> time \<Rightarrow> ('w, unit) io" where
  "seedcrl_run lib os keyPath certPath outPath now w =
     (case seedcrl_loadKey lib os keyPath w of
        (Inl e, w1) \<Rightarrow> (Inl e, w1)
      | (Inr key, w1) \<Rightarrow>
          (case seedcrl_loadCert lib os certPath w1 of
             (Inl e, w2) \<Rightarrow> (Inl e, w2)
           | (Inr cert, w2) \<Rightarrow>
               (case CreateRevocationList lib None
                       \<lparr>CRLNumber = 1, ThisUpdate = now, NextUpdate = time_add now seedcrl_validity, RevokedEntries = []\<rparr>
                       cert (EcdsaSigner lib key) w2 of
                  (Inl e, w3) \<Rightarrow> (Inl (Wrap ''create crl: '' e []), w3)
                | (Inr der, w3) \<Rightarrow>
                    (case WriteFile os outPath der w3 of
                       (Inl e, w4) \<Rightarrow> (Inl (Wrap (''write '' @ outPath @ '': '') e []), w4)
                     | (Inr u, w4) \<Rightarrow> (Inr (), w4)))))"

text \<open>The values of the three flags; without one of them \<open>log.Fatal\<close> ends the process.\<close>

definition seedcrl_main ::
  "'w crypto_lib \<Rightarrow> 'w os_lib \<Rightarrow> ('w \<Rightarrow> time \<times> 'w) \<Rightarrow> string \<Rightarrow> string \<Rightarrow> string \<Rightarrow> 'w \<Rightarrow> int \<times> 'w" where
  "seedcrl_main lib os clock keyPath certPath outPath w =
     (if keyPath = [] \<or> certPath = [] \<or> outPath = [] then (1, w)
      else case clock w of
        (now, w1) \<Rightarrow> apfst (\<lambda>r. if isl r then 1 else 0) (seedcrl_run lib os keyPath certPath outPath now w1))"

end
