(* ===== verification/WitnessesServices.thy ===== *)
theory WitnessesServices imports Witnesses CmdIssuer CmdRevoker CmdCrlgen begin

text \<open>
  Concrete inputs for the properties of the revocation list and of the REST client.
\<close>

section \<open>The revocation list\<close>

definition ex_revoked :: "int \<Rightarrow> certificate" where
  "ex_revoked n = flip_cert ex_revocation (ex_entry\<lparr>Serial := FormatSerial n\<rparr>)"

definition ex_revoked_ledger :: ledger where
  "ex_revoked_ledger = ex_ledger\<lparr>Certificates := Some [ex_revoked 31, ex_entry, ex_revoked 7]\<rparr>"

lemma ex_revoked_certs: "revoked_certs [ex_revoked_ledger] = [ex_revoked 31, ex_revoked 7]"
  by (simp add: revoked_certs_def ex_revoked_ledger_def certs_def ex_revoked_def flip_cert_def ex_entry_def)

lemma ex_entry_of: "entry_of (ex_revoked n) = \<lparr>EntrySerial = n, RevocationTime = 0\<rparr>"
  by (simp add: entry_of_def cert_entry_def ex_revoked_def flip_cert_def parse_FormatSerial ex_revocation_def)

theorem crl_lists_exactly_revoked_witness:
  "\<exists>crl. Build insertionSort [ex_revoked_ledger] 0 = Inr crl \<and>
     mset (RevokedEntries crl) = {#\<lparr>EntrySerial = 31, RevocationTime = 0\<rparr>, \<lparr>EntrySerial = 7, RevocationTime = 0\<rparr>#}"
proof -
  have ok: "c \<in> set (revoked_certs [ex_revoked_ledger]) \<Longrightarrow> \<not> isl (parseSerial (Serial c)) \<and> RevokedFrom c \<noteq> None" for c
    by (auto simp: ex_revoked_certs ex_revoked_def flip_cert_def parse_FormatSerial)
  show ?thesis
    using crl_lists_exactly_revoked [OF insertion.slice_sort_axioms, of "[ex_revoked_ledger]" 0] ok
    by (cases "Build insertionSort [ex_revoked_ledger] 0") (auto simp: ex_revoked_certs ex_entry_of)
qed

definition ex_other_ledger :: ledger where
  "ex_other_ledger = ex_ledger\<lparr>Certificates := Some [ex_revoked 12]\<rparr>"

lemma ex_both_certs:
  "revoked_certs [ex_revoked_ledger, ex_other_ledger] = [ex_revoked 31, ex_revoked 7, ex_revoked 12]"
  by (simp add: revoked_certs_def ex_revoked_ledger_def ex_other_ledger_def certs_def ex_revoked_def flip_cert_def ex_entry_def)

theorem crl_deterministic_witness:
  "\<exists>crl. Build insertionSort [ex_revoked_ledger, ex_other_ledger] 0 = Inr crl \<and>
     Build tie_sort [ex_other_ledger, ex_revoked_ledger] 0 = Inr crl \<and>
     sorted_wrt (<) (map EntrySerial (RevokedEntries crl))"
proof -
  let ?ls = "[ex_revoked_ledger, ex_other_ledger]"
  have "list_all listable (revoked_certs ?ls)"
    by (simp add: ex_both_certs listable_def cert_entry_def ex_revoked_def flip_cert_def parse_FormatSerial)
  then obtain crl where crl: "Build insertionSort ?ls 0 = Inr crl" by (simp add: Build_Inr)
  then have "mset (map EntrySerial (RevokedEntries crl)) = mset [31, 7, 12]"
    using insertion.entries_exact [OF crl] by (simp add: ex_both_certs ex_entry_of)
  then have d: "distinct (map EntrySerial (RevokedEntries crl))"
    using mset_eq_imp_distinct_iff [of "map EntrySerial (RevokedEntries crl)" "[31, 7, 12]"] by simp
  have "mset ?ls = mset [ex_other_ledger, ex_revoked_ledger]" by simp
  note same = crl_deterministic [OF insertion.slice_sort_axioms ties.slice_sort_axioms this, of 0, unfolded crl prod.case sum.case]
  then obtain crl' where "Build tie_sort [ex_other_ledger, ex_revoked_ledger] 0 = Inr crl'"
    by (cases "Build tie_sort [ex_other_ledger, ex_revoked_ledger] 0") simp_all
  note same [unfolded this sum.case] and this
  then show ?thesis using crl d by blast
qed

section \<open>The REST client\<close>

definition ex_rest :: rest_client where
  "ex_rest = \<lparr>cfg = \<lparr>Token = ''t'', BotLogin = ''bot'', CfgRepo = ''o/r'', APIBase = []\<rparr>, base = defaultAPIBase\<rparr>"

text \<open>A server that answers every request with a file of two bytes.\<close>

definition ex_http :: "unit http_lib" where
  "ex_http =
     \<lparr>BadUrl = (\<lambda>u. None),
      RoundTrip = (\<lambda>r w. (Inr \<lparr>StatusCode = 200, StatusText = ''200 OK'',
        RespBody = compact_json (put_body ''hi'' ''sha1'' ''m'')\<rparr>, w))\<rparr>"

theorem contents_read_back_witness:
  "getContents ex_http ex_rest ''o/r'' ''ledger/acme.json'' () = (Inr (''hi'', ''sha1''), ())"
proof (rule contents_read_back [where enc = "b64_encode ''hi''"])
  show "RoundTrip ex_http (request ex_rest ''GET'' (contents_path ''o/r'' ''ledger/acme.json'') None) () =
      (Inr \<lparr>StatusCode = 200, StatusText = ''200 OK'', RespBody = compact_json (put_body ''hi'' ''sha1'' ''m'')\<rparr>, ())"
    by (simp add: ex_http_def)
  show "Option.bind (parse_whole (RespBody \<lparr>StatusCode = 200, StatusText = ''200 OK'',
      RespBody = compact_json (put_body ''hi'' ''sha1'' ''m'')\<rparr>)) decode_contents =
      Some \<lparr>RespContent = b64_encode ''hi'', RespSHA = ''sha1''\<rparr>"
    using parse_put_body [of "''hi''" "''sha1''" "''m''"] by (simp add: decode_put_body is_ascii_def)
  show "filter (\<lambda>ch. ch \<noteq> CHR 0x0A) (b64_encode ''hi'') = b64_encode ''hi''"
    using b64_encode_bytes [of "''hi''"] by (auto simp: list_all_iff b64_byte_neq intro!: filter_True)
qed (simp_all add: ex_http_def)

end
