(* ===== verification/PemRoundTrip.thy ===== *)
theory PemRoundTrip imports Cms begin

text \<open>
  What \<open>pem.EncodeToMemory\<close> writes, \<open>pem.Decode\<close> reads back, and leaves what follows the block.
\<close>

section \<open>Broken lines\<close>

text \<open>A text in which no line end comes last or before a dash.\<close>

fun safe_breaks :: "string \<Rightarrow> bool" where
  "safe_breaks [] = True"
| "safe_breaks [c] = (c \<noteq> CHR 0x0A)"
| "safe_breaks (c # d # s) = ((c = CHR 0x0A \<longrightarrow> d \<noteq> CHR ''-'') \<and> safe_breaks (d # s))"

lemma pemEnd_Cons: "pemEnd = CHR 0x0A # CHR ''-'' # tl (tl pemEnd)"
  by (simp add: pemEnd_def)

lemma cut_safe_breaks: "safe_breaks s \<Longrightarrow> cut pemEnd (s @ pemEnd @ a) = Some (s, a)"
proof (induction s rule: safe_breaks.induct)
  case 1
  then show ?case by (simp add: cut_prefix)
next
  case (2 c)
  then have "\<not> prefix pemEnd (c # pemEnd @ a)" by (subst pemEnd_Cons) simp
  then show ?case by (simp add: cut_prefix)
next
  case (3 c d s)
  then have "\<not> prefix pemEnd (c # d # s @ pemEnd @ a)" by (subst pemEnd_Cons) auto
  with 3 show ?case by simp
qed

lemma safe_plain: "CHR 0x0A \<notin> set s \<Longrightarrow> safe_breaks s"
  by (induction s rule: safe_breaks.induct) auto

lemma safe_append:
  "CHR 0x0A \<notin> set a \<Longrightarrow> safe_breaks b \<Longrightarrow> b \<noteq> [] \<Longrightarrow> hd b \<noteq> CHR ''-'' \<Longrightarrow> safe_breaks (a @ CHR 0x0A # b)"
proof (induction a rule: safe_breaks.induct)
  case 1
  then show ?case by (cases b) auto
next
  case (2 c)
  then show ?case by (cases b) auto
qed auto

lemma break_lines_safe:
  assumes "s \<noteq> []" "CHR 0x0A \<notin> set s" "CHR ''-'' \<notin> set s"
  shows "\<exists>b. break_lines s = b @ [CHR 0x0A] \<and> b \<noteq> [] \<and> hd b = hd s \<and> safe_breaks b \<and>
    filter (\<lambda>c. c \<noteq> CHR 0x0A) b = s \<and> set b \<subseteq> insert (CHR 0x0A) (set s)"
  using assms
proof (induction s rule: break_lines.induct)
  case (1 s)
  show ?case
  proof (cases "drop 64 s = []")
    case True
    then have "take 64 s = s" by simp
    moreover have "break_lines (drop 64 s) = []" using True by (simp add: break_lines.simps)
    ultimately have "break_lines s = s @ [CHR 0x0A]" using 1(2) by (subst break_lines.simps) simp
    moreover have "filter (\<lambda>c. c \<noteq> CHR 0x0A) s = s" using 1(3) by (auto intro!: filter_True)
    ultimately show ?thesis using 1 by (intro exI [of _ s]) (auto simp: safe_plain)
  next
    case False
    have sub: "set (drop 64 s) \<subseteq> set s" "set (take 64 s) \<subseteq> set s" by (auto dest: in_set_dropD in_set_takeD)
    then have nl: "CHR 0x0A \<notin> set (drop 64 s)" "CHR ''-'' \<notin> set (drop 64 s)" "CHR 0x0A \<notin> set (take 64 s)"
      using 1(3,4) by auto
    obtain b where b: "break_lines (drop 64 s) = b @ [CHR 0x0A]" "b \<noteq> []" "hd b = hd (drop 64 s)" "safe_breaks b"
      "filter (\<lambda>c. c \<noteq> CHR 0x0A) b = drop 64 s" "set b \<subseteq> insert (CHR 0x0A) (set (drop 64 s))"
      using 1(1) [OF 1(2) False nl(1,2)] by blast
    have "hd b \<noteq> CHR ''-''" using b(3) nl(2) False by (metis hd_in_set)
    then have safe: "safe_breaks (take 64 s @ CHR 0x0A # b)" using safe_append [OF nl(3) b(4,2)] by simp
    have "filter (\<lambda>c. c \<noteq> CHR 0x0A) (take 64 s) = take 64 s" using nl(3) by (auto intro!: filter_True)
    then have "filter (\<lambda>c. c \<noteq> CHR 0x0A) (take 64 s @ CHR 0x0A # b) = s" using b(5) by simp
    moreover have "break_lines s = (take 64 s @ CHR 0x0A # b) @ [CHR 0x0A]"
      using 1(2) b(1) by (subst break_lines.simps) simp
    moreover have "hd (take 64 s @ CHR 0x0A # b) = hd s" using 1(2) by (cases s) auto
    ultimately show ?thesis
      using safe b(6) sub by (intro exI [of _ "take 64 s @ CHR 0x0A # b"]) auto
  qed
qed

section \<open>Lines\<close>

lemma trim_line_end_keep: "l \<noteq> [] \<Longrightarrow> last l = CHR ''-'' \<Longrightarrow> trim_line_end l = l"
  by (cases l rule: rev_cases) (auto simp: trim_line_end_def)

lemma getLine_dash:
  "CHR 0x0A \<notin> set l \<Longrightarrow> l \<noteq> [] \<Longrightarrow> last l = CHR ''-'' \<Longrightarrow> getLine (l @ CHR 0x0A # r) = (l, r)"
  using cut_hd_fresh [of "[CHR 0x0A]" l r] by (simp add: getLine_def trim_line_end_keep)

lemma getLine_empty: "getLine (CHR 0x0A # r) = ([], r)"
  by (simp add: getLine_def trim_line_end_def cut_prefix)

lemma set_trim_line_end: "set (trim_line_end l) \<subseteq> set l"
  by (auto simp: trim_line_end_def dest: set_dropWhileD)

lemma getLine_set: "CHR 0x0A \<notin> set l \<Longrightarrow> set (fst (getLine (l @ CHR 0x0A # r))) \<subseteq> set l"
  using cut_hd_fresh [of "[CHR 0x0A]" l r] set_trim_line_end [of l] by (simp add: getLine_def)

lemma no_headers:
  assumes "CHR 0x0A \<notin> set l" "CHR '':'' \<notin> set l"
  shows "get_headers (l @ CHR 0x0A # r) [] = Some ([], l @ CHR 0x0A # r)"
proof -
  obtain k nxt where g: "getLine (l @ CHR 0x0A # r) = (k, nxt)" by (metis surj_pair)
  have "CHR '':'' \<notin> set k" using getLine_set [OF assms(1), of r] assms(2) g by auto
  then have "cut '':'' k = None" by (auto simp: cut_None_iff dest: set_mono_sublist)
  then show ?thesis using g by (subst get_headers.simps) simp
qed

section \<open>Blocks\<close>

definition plain_type :: "string \<Rightarrow> bool" where
  "plain_type ty \<longleftrightarrow> CHR 0x0A \<notin> set ty \<and> CHR '':'' \<notin> set ty"

lemma pem_body_block:
  assumes "plain_type ty"
  shows "pem_body ty [] (break_lines (b64_encode bs) @ tl pemEnd @ ty @ pemEndOfLine @ CHR 0x0A # r)
    = Some (\<lparr>BlockType = ty, Headers = [], BlockBytes = bs\<rparr>, r)"
proof -
  let ?t = "ty @ pemEndOfLine @ CHR 0x0A # r" and ?s = "b64_encode bs"
  have b64: "b64_byte c" if "c \<in> set ?s" for c using b64_encode_bytes [of bs] that by (simp add: list_all_iff)
  have line: "getLine ?t = (ty @ pemEndOfLine, r)"
    using getLine_dash [of "ty @ pemEndOfLine" r] assms by (simp add: plain_type_def pemEndOfLine_def)
  have tail: "drop (length ty + length pemEndOfLine) ?t = CHR 0x0A # r"
    "take (length ty + length pemEndOfLine) ?t = ty @ pemEndOfLine" by simp_all
  have cut: "(if ([] :: (string \<times> string) list) = [] \<and> prefix (tl pemEnd) (break_lines ?s @ tl pemEnd @ ?t)
      then Some ([], drop (length pemEnd - 1) (break_lines ?s @ tl pemEnd @ ?t))
      else cut pemEnd (break_lines ?s @ tl pemEnd @ ?t)) = Some (b, ?t) \<and> b64_decode (remove_blanks b) = Some bs"
    if "b = (if ?s = [] then [] else butlast (break_lines ?s))" for b
  proof (cases "?s = []")
    case True
    then have "bs = []" using b64_decode_encode [of bs] by (simp add: b64_decode_def)
    then show ?thesis using that by (simp add: break_lines.simps pemEnd_def remove_blanks_def b64_decode_def)
  next
    case False
    have nin: "CHR 0x0A \<notin> set ?s" "CHR ''-'' \<notin> set ?s" using b64 b64_byte_neq by blast+
    obtain b' where b': "break_lines ?s = b' @ [CHR 0x0A]" "b' \<noteq> []" "hd b' = hd ?s" "safe_breaks b'"
      "filter (\<lambda>c. c \<noteq> CHR 0x0A) b' = ?s" "set b' \<subseteq> insert (CHR 0x0A) (set ?s)"
      using break_lines_safe [OF False nin] by blast
    have e: "break_lines ?s @ tl pemEnd @ ?t = b' @ pemEnd @ ?t" using b'(1) by (simp add: pemEnd_def)
    have "hd b' \<noteq> CHR ''-''" using b'(3) nin(2) False by (metis hd_in_set)
    then have "\<not> prefix (tl pemEnd) (b' @ pemEnd @ ?t)" using b'(2) by (cases b') (auto simp: pemEnd_def)
    moreover have "remove_blanks b' = b'"
      unfolding remove_blanks_def using b'(6) b64 b64_byte_neq by (intro filter_True) fastforce
    moreover have "b64_decode b' = b64_decode ?s"
    proof -
      have "filter (\<lambda>c. c \<noteq> CHR 0x0A \<and> c \<noteq> CHR 0x0D) b' = filter (\<lambda>c. c \<noteq> CHR 0x0A \<and> c \<noteq> CHR 0x0D) ?s"
        unfolding b'(5) [symmetric] filter_filter by (rule filter_cong) auto
      then show ?thesis by (simp add: b64_decode_def)
    qed
    ultimately show ?thesis
      unfolding e using cut_safe_breaks [OF b'(4), of ?t] that False b'(1) b64_decode_encode [of bs] by simp
  qed
  have "has_suffix (ty @ pemEndOfLine) pemEndOfLine" by (simp add: has_suffix_def)
  then show ?thesis
    unfolding pem_body_def cut [OF refl, THEN conjunct1] option.case prod.case Let_def
    using cut [OF refl, THEN conjunct2] by (simp add: tail line getLine_empty)
qed

lemma pem_round_trip:
  assumes "plain_type ty"
  shows "pem_decode (pem_encode ty bs @ r) = Some (\<lparr>BlockType = ty, Headers = [], BlockBytes = bs\<rparr>, r)"
proof -
  let ?body = "break_lines (b64_encode bs) @ tl pemEnd @ ty @ pemEndOfLine @ CHR 0x0A # r"
  have data: "pem_encode ty bs @ r = tl pemStart @ (ty @ pemEndOfLine) @ CHR 0x0A # ?body"
    by (simp add: pem_encode_def)
  have ab: "after_begin (pem_encode ty bs @ r) = Some ((ty @ pemEndOfLine) @ CHR 0x0A # ?body)"
    unfolding data by (simp add: after_begin_def pemStart_def)
  have line: "getLine ((ty @ pemEndOfLine) @ CHR 0x0A # ?body) = (ty @ pemEndOfLine, ?body)"
    by (rule getLine_dash) (use assms in \<open>simp_all add: plain_type_def pemEndOfLine_def\<close>)
  have hdr: "get_headers ?body [] = Some ([], ?body)"
  proof (cases "b64_encode bs = []")
    case True
    then show ?thesis
      using no_headers [of "tl pemEnd @ ty @ pemEndOfLine" r] assms
      by (simp add: break_lines.simps plain_type_def pemEndOfLine_def pemEnd_def)
  next
    case False
    let ?l = "take 64 (b64_encode bs)"
    have "b64_byte c" if "c \<in> set ?l" for c
      using b64_encode_bytes [of bs] in_set_takeD [OF that] by (simp add: list_all_iff)
    then have "CHR 0x0A \<notin> set ?l" "CHR '':'' \<notin> set ?l" using b64_byte_neq by blast+
    from no_headers [OF this] show ?thesis using False by (subst (1 2) break_lines.simps) simp
  qed
  have "has_suffix (ty @ pemEndOfLine) pemEndOfLine" by (simp add: has_suffix_def)
  then show ?thesis
    by (subst pem_decode.simps) (simp add: ab [simplified] line [simplified] hdr pem_body_block [OF assms])
qed

end
