(* ===== verification/InputChecks.thy ===== *)
theory InputChecks imports Enroll PemRoundTrip begin

text \<open>
  What the issuer accepts: ids, issue forms, requests, challenges, and the PEM texts that go out and
  come in.
\<close>

section \<open>Lemmas\<close>

lemma last_challenge_snoc: "last_challenge (cs @ [c]) x = last_challenge [c] (last_challenge cs x)"
  by (induction cs arbitrary: x) auto

text \<open>All challenges of the comments, in order.\<close>

definition challenges :: "comment list \<Rightarrow> (string \<times> time) list" where
  "challenges cs = List.map_filter (\<lambda>c. map_option (\<lambda>n. (n, CreatedAt c)) (ParseNonce (Body c))) cs"

lemma challenges_snoc:
  "challenges (cs @ [c]) = challenges cs @ (case ParseNonce (Body c) of None \<Rightarrow> [] | Some n \<Rightarrow> [(n, CreatedAt c)])"
  by (simp add: challenges_def map_filter_def split: option.split)

lemma last_challenge_reference:
  "last_challenge cs None = (if challenges cs = [] then None else Some (last (challenges cs)))"
proof (induction cs rule: rev_induct)
  case Nil
  then show ?case by (simp add: challenges_def map_filter_def)
next
  case (snoc c cs)
  then show ?case by (simp add: last_challenge_snoc challenges_snoc split: option.split)
qed

lemma cert_type: "plain_type ''CERTIFICATE''"
  by (simp add: plain_type_def)

lemmas certificate_pem = pem_round_trip [OF cert_type, folded EncodePEM_def]

lemma pem_certs_grow: "pem_certs lib data acc = Inr cs \<Longrightarrow> length acc \<le> length cs"
proof (induction lib data acc rule: pem_certs.induct)
  case (1 lib data acc)
  show ?case
  proof (cases "pem_decode data")
    case None
    then show ?thesis using "1.prems" by (subst (asm) pem_certs.simps) auto
  next
    case (Some br)
    then obtain b r where d: "pem_decode data = Some (b, r)" by (cases br) auto
    show ?thesis
    proof (cases "BlockType b = ''CERTIFICATE''")
      case True
      then obtain c where c: "ParseCertificate lib (BlockBytes b) = Inr c" "pem_certs lib r (c # acc) = Inr cs"
        using "1.prems" d by (subst (asm) pem_certs.simps) (auto split: sum.splits)
      from "1.IH"(1) [OF d refl True c(1,2)] show ?thesis by simp
    next
      case False
      then have "pem_certs lib r acc = Inr cs" using "1.prems" d by (subst (asm) pem_certs.simps) auto
      from "1.IH"(2) [OF d refl False this] show ?thesis .
    qed
  qed
qed

lemma pem_certs_cert:
  "pem_certs lib (EncodePEM der @ r) acc =
     (case ParseCertificate lib der of Inl e \<Rightarrow> Inl e | Inr c \<Rightarrow> pem_certs lib r (c # acc))"
  by (subst pem_certs.simps) (simp add: certificate_pem)

lemma pem_certs_Nil: "pem_certs lib [] acc = Inr (rev acc)"
proof -
  have "after_begin [] = None" by (simp add: after_begin_def pemStart_def)
  then have "pem_decode [] = None" by (subst pem_decode.simps) simp
  then show ?thesis by (subst pem_certs.simps) simp
qed

section \<open>Properties\<close>

text \<open>C25: The compiled pattern accepts exactly the grammar of an appId: three to 64 bytes, a lower case
  letter first, then lower case letters, digits, underscores, dots and dashes. The strict check
  returns the id unchanged; the folding check accepts exactly what is strict after the ASCII
  letters are folded, and folding twice changes nothing.\<close>
theorem appid_grammar:
  "(ValidateStrict cn = Inr a \<longleftrightarrow>
      a = cn \<and> 3 \<le> length cn \<and> length cn \<le> 64 \<and> is_lower (hd cn) \<and>
      list_all (\<lambda>c. is_lower c \<or> is_digit c \<or> c = CHR ''_'' \<or> c = CHR ''.'' \<or> c = CHR ''-'') (tl cn)) \<and>
   (Canonicalize cn = Inr a \<longleftrightarrow> a = Fold cn \<and> ValidateStrict (Fold cn) = Inr (Fold cn)) \<and>
   Fold (Fold cn) = Fold cn"
  by (auto simp: Valid_iff appid_char_def [abs_def])

text \<open>C26: A generated challenge is 64 lower case hexadecimal digits; it is recovered from the comment
  that is posted for it, and a file with it matches, with or without line ends after it.\<close>
theorem challenge_round_trip:
  "case Generate dflt r w of
     (Inl e, w1) \<Rightarrow> True
   | (Inr n, w1) \<Rightarrow>
       length n = 64 \<and> list_all is_lower_hex n \<and> ParseNonce (CommentBody n) = Some n \<and>
       Match n n \<and> Match n (n @ [CHR 0x0A]) \<and> Match n (n @ [CHR 0x0D, CHR 0x0A])"
proof (cases "Generate dflt r w")
  case (Pair res w1)
  show ?thesis
  proof (cases res)
    case (Inr n)
    have n: "is_nonce n" by (rule Generate_is_nonce [OF Pair [unfolded Inr]])
    show ?thesis
      using Match_padded [OF n, of "[]" "[]"] Match_padded [OF n, of "[]" "[CHR 0x0A]"]
        Match_padded [OF n, of "[]" "[CHR 0x0D, CHR 0x0A]"] ParseNonce_CommentBody [OF n] n [unfolded is_nonce_def]
      by (simp add: Pair Inr is_ascii_space_def)
  qed (simp add: Pair)
qed

text \<open>C27: A challenge is open for exactly 72 hours, the last instant included, also where the
  difference of the two times does not fit into 64 bits.\<close>
theorem challenge_window:
  "\<not> Expired posted now \<longleftrightarrow> now - posted \<le> 72 * 60 * 60 * 1000000000"
  by (simp add: Expired_iff Validity_def nanosecond_per_second_def linorder_not_less)

text \<open>C28: The challenge in force is that of the last of the bot's comments that holds a marker, with
  the time of that comment; the loop agrees with this reference.\<close>
theorem latest_challenge_counts:
  "last_challenge cs None =
     (let all = List.map_filter (\<lambda>c. map_option (\<lambda>n. (n, CreatedAt c)) (ParseNonce (Body c))) cs
      in if all = [] then None else Some (last all))"
  using last_challenge_reference [of cs] unfolding challenges_def Let_def .

text \<open>C29: An accepted form names a repository \<open>owner/name\<close> of two parts without slashes and white
  space, and carries a request block of the issue unchanged, from its BEGIN line to the first END
  line after it; a form is refused only for want of a block or of such a name.\<close>
theorem form_fields:
  "case parseForm body of
     Inl e \<Rightarrow> if is_slug (trim_space (stripFences (sectionBody body repoHeading))) then re_find csrBlockRE body = [] else True
   | Inr f \<Rightarrow>
       FormRepo f = trim_space (stripFences (sectionBody body repoHeading)) \<and>
       (\<exists>own name. FormRepo f = own @ ''/'' @ name \<and> own \<noteq> [] \<and> name \<noteq> [] \<and> ownerOf (FormRepo f) = own \<and>
          list_all slug_char own \<and> list_all slug_char name) \<and>
       (\<exists>a m r. body = a @ CSR f @ r \<and> CSR f = csrBegin @ m @ csrEnd \<and> cut csrEnd (m @ csrEnd @ r) = Some (m, r))"
proof (cases "parseForm body")
  case (Inl e)
  have "re_find csrBlockRE body = [] \<or> \<not> is_slug (trim_space (stripFences (sectionBody body repoHeading)))"
  proof (rule ccontr)
    assume a: "\<not> ?thesis"
    let ?f = "\<lparr>CSR = re_find csrBlockRE body, FormRepo = trim_space (stripFences (sectionBody body repoHeading))\<rparr>"
    have "parseForm body = Inr ?f" unfolding parseForm_Inr using a by simp
    with Inl show False by simp
  qed
  then show ?thesis by (auto simp: Inl)
next
  case (Inr f)
  obtain name where n: "FormRepo f = ownerOf (FormRepo f) @ ''/'' @ name" "ownerOf (FormRepo f) \<noteq> []" "name \<noteq> []"
    "list_all slug_char (ownerOf (FormRepo f))" "list_all slug_char name"
    using ownerOf_slug [OF parseForm_sound(1) [OF Inr]] by blast
  have "FormRepo f = trim_space (stripFences (sectionBody body repoHeading))" using Inr by (simp add: parseForm_Inr)
  then show ?thesis
    unfolding Inr sum.case using parseForm_sound(2) [OF Inr] n by blast
qed

text \<open>A request is accepted exactly if the first PEM block is a certificate request that parses, whose
  key is a P-384 key or an RSA key of at least 3072 bits, and whose own signature verifies.\<close>
theorem csr_acceptance:
  "Csr.Parse lib data = Inr req \<longleftrightarrow>
     (\<exists>block rest. pem_decode data = Some (block, rest) \<and> BlockType block = ''CERTIFICATE REQUEST'' \<and>
        ParseCertificateRequest lib (BlockBytes block) = Inr req \<and>
        (case ReqPublicKey req of
           Some (ECPublicKey curve pt) \<Rightarrow> curve = Some ''P-384''
         | Some (RSAPublicKey n) \<Rightarrow> 2 ^ 3071 \<le> n
         | _ \<Rightarrow> False) \<and>
        CheckSignature lib req = None)"
  unfolding csr_Parse_Inr allowed_key_def pemType_def ..

text \<open>The chain that is posted decodes, with Go's PEM decoder, to the leaf, then to the issuer
  certificate, with nothing left over.\<close>
theorem chain_decodes:
  "pem_decode (EncodePEM der @ EncodePEM issuer) =
     Some (\<lparr>BlockType = ''CERTIFICATE'', Headers = [], BlockBytes = der\<rparr>, EncodePEM issuer) \<and>
   pem_decode (EncodePEM issuer) = Some (\<lparr>BlockType = ''CERTIFICATE'', Headers = [], BlockBytes = issuer\<rparr>, [])"
  using certificate_pem [of der "EncodePEM issuer"] certificate_pem [of issuer "[]"] by simp

text \<open>The signer file of openssl gives its certificate if it holds one, and an error if it holds two
  or more, whatever follows them.\<close>
theorem one_signer_only:
  "onlyCertificate lib (EncodePEM a) = ParseCertificate lib a \<and>
   isl (onlyCertificate lib (EncodePEM a @ EncodePEM b @ rest))"
proof
  show "onlyCertificate lib (EncodePEM a) = ParseCertificate lib a"
    using pem_certs_cert [of lib a "[]" "[]"]
    by (cases "ParseCertificate lib a") (simp_all add: onlyCertificate_def pem_certs_Nil)
  have "onlyCertificate lib (EncodePEM a @ EncodePEM b @ rest) \<noteq> Inr c" for c
  proof
    assume "onlyCertificate lib (EncodePEM a @ EncodePEM b @ rest) = Inr c"
    then have p: "pem_certs lib (EncodePEM a @ EncodePEM b @ rest) [] = Inr [c]" by (simp add: onlyCertificate_Inr)
    then obtain ca cb where "pem_certs lib rest [cb, ca] = Inr [c]"
      by (auto simp: pem_certs_cert split: sum.splits)
    from pem_certs_grow [OF this] show False by simp
  qed
  then show "isl (onlyCertificate lib (EncodePEM a @ EncodePEM b @ rest))"
    by (cases "onlyCertificate lib (EncodePEM a @ EncodePEM b @ rest)") auto
qed

end
