(* ===== verification/HonestIssue.thy ===== *)
theory HonestIssue imports EnrollSafety FakeClient InputChecks begin

text \<open>
  An honest request succeeds: the issuer on the in-memory GitHub with collaborators that answer.
\<close>

section \<open>Steady collaborators\<close>

text \<open>A clock that stands still, a random source and a signer that answer.\<close>

definition steady :: "'w Enroll.deps \<Rightarrow> time \<Rightarrow> nat \<Rightarrow> x509_cert \<Rightarrow> string \<Rightarrow> bool" where
  "steady d now serial issuer der \<longleftrightarrow>
     0 < serial \<and> IssuerCertificate (Signer d) = Some issuer \<and>
     (\<forall>w. Clock d w = (now, w) \<and> rand_int_128 (Rand d) w = (Inr serial, w)) \<and>
     (\<forall>t p w. Sign (Signer d) t p w = (Inr der, w))"

lemma steady_simps:
  assumes "steady d now serial issuer der"
  shows "Clock d w = (now, w)" "IssuerCertificate (Signer d) = Some issuer" "Sign (Signer d) t p w = (Inr der, w)"
    "randomSerial (Rand d) w = Some (Inr serial, w)"
  using assms by (simp_all add: steady_def randomSerial.simps)

lemma Leaf_steady:
  "steady d now serial issuer der \<Longrightarrow> Valid (InAppID inp) \<Longrightarrow> InPublicKey inp \<noteq> None \<Longrightarrow> InIssuer inp = Some issuer \<Longrightarrow>
     Leaf (Rand d) inp w = Some (Inr (leaf_template inp issuer serial), w)"
  unfolding Leaf_Inr using steady_simps(4) by fastforce

text \<open>The ledger of an appId in the in-memory client.\<close>

definition holds_ledger :: "client \<Rightarrow> string \<Rightarrow> ledger option \<Rightarrow> bool" where
  "holds_ledger c a ex \<longleftrightarrow>
     (case Ledgers c a of None \<Rightarrow> ex = None | Some b \<Rightarrow> \<exists>l. ex = Some l \<and> Ledger.Parse (blob_content b) = Inr l)"

definition ledger_sha :: "client \<Rightarrow> string \<Rightarrow> string" where
  "ledger_sha c a = (case Ledgers c a of None \<Rightarrow> [] | Some b \<Rightarrow> blob_sha b)"

lemma load_fake:
  "GH d = fake_github \<Longrightarrow> holds_ledger c a ex \<Longrightarrow> Enroll.loadLedger d a c = (Inr (ex, ledger_sha c a), c)"
  by (auto simp: Enroll.loadLedger_def fake_GetLedger_def holds_ledger_def ledger_sha_def split: option.splits)

text \<open>What a write of the current version leaves.\<close>

definition put_ledger :: "client \<Rightarrow> string \<Rightarrow> string \<Rightarrow> client" where
  "put_ledger c a data =
     (case mintSHA c of (s, c1) \<Rightarrow> c1\<lparr>Ledgers := (Ledgers c1)(a \<mapsto> \<lparr>blob_content = data, blob_sha = s\<rparr>)\<rparr>)"

lemma put_fake:
  "\<not> FailNextPutWithConflict c \<Longrightarrow> fake_PutLedger a data (ledger_sha c a) msg c = (Inr (), put_ledger c a data)"
  by (simp add: fake_PutLedger_def checkPrevSHA_def ledger_sha_def put_ledger_def mintSHA_def Let_def split: option.split)

lemma put_ledger_fields [simp]:
  "PostedComments (put_ledger c a data) = PostedComments c" "LabelsAdded (put_ledger c a data) = LabelsAdded c"
  "LabelsRemoved (put_ledger c a data) = LabelsRemoved c" "Closed (put_ledger c a data) = Closed c"
  "\<exists>s. Ledgers (put_ledger c a data) a = Some \<lparr>blob_content = data, blob_sha = s\<rparr>"
  by (simp_all add: put_ledger_def mintSHA_def Let_def)

section \<open>An honest request\<close>

lemma commit_fake:
  assumes "steady d now serial issuer der" "GH d = fake_github" "\<not> FailNextPutWithConflict c"
    "Marshal (next_ledger a repo now e ex) = Inr data"
  shows "commitLedger d a repo e ex (ledger_sha c a) c = (Inr (), put_ledger c a data)"
proof -
  have five: "maxLedgerRetries = Suc 4" by (simp add: maxLedgerRetries_def)
  have loop: "commit_loop d a repo e now (Suc n) None ex (ledger_sha c a) c = (Inr (), put_ledger c a data)" for n
    using assms(2-4) by (simp add: put_fake)
  show ?thesis
    unfolding commitLedger_def steady_simps(1) [OF assms(1)] prod.case five by (rule loop)
qed

definition delivered :: "client \<Rightarrow> issue \<Rightarrow> string \<Rightarrow> client" where
  "delivered c iss body =
     snd (fake_CloseIssue (Number iss)
       (snd (fake_SetLabels (Number iss) [LabelIssued] [LabelAwaitingChallenge] (snd (fake_PostComment (Number iss) body c)))))"

lemma issue_fake:
  assumes st: "steady d now serial issuer der" and gh: "GH d = fake_github" and f: "\<not> FailNextPutWithConflict c"
    and a: "Valid a" and key: "pub \<noteq> None" and leaf: "ParseCertificate lib der = Inr leaf"
    and data: "Marshal (next_ledger a (FormRepo fm) now (ledger_entry lib iss leaf der) ex) = Inr data"
  shows "issueCert lib d iss fm a pub ex (ledger_sha c a) c =
    Some (Inr (), delivered (put_ledger c a data) iss (delivery_body a (EncodePEM der @ EncodePEM (Raw issuer))))"
proof -
  have "Leaf (Rand d) \<lparr>InAppID = a, InOwner = ownerOf (FormRepo fm), InOrigin = OriginGitHub, InPublicKey = pub,
      InNotBefore = now, InIssuer = Some issuer\<rparr> c = Some (Inr (leaf_template \<lparr>InAppID = a, InOwner = ownerOf (FormRepo fm),
      InOrigin = OriginGitHub, InPublicKey = pub, InNotBefore = now, InIssuer = Some issuer\<rparr> issuer serial), c)"
    by (rule Leaf_steady [OF st]) (use a key in auto)
  then show ?thesis
    using commit_fake [OF st gh f data] leaf gh
    by (simp add: issueCert_def steady_simps [OF st] Let_def deliver_def delivered_def fake_PostComment_def
        fake_SetLabels_def fake_CloseIssue_def)
qed

text \<open>Everything the requester has to do, and a poll in time.\<close>

definition request_ready ::
  "'w crypto_lib \<Rightarrow> xml_parser \<Rightarrow> issue \<Rightarrow> time \<Rightarrow> client \<Rightarrow> form \<Rightarrow> certificate_request \<Rightarrow> ledger option \<Rightarrow> bool" where
  "request_ready lib xml iss now c f req ex \<longleftrightarrow>
     LabelIssued \<notin> set (Labels iss) \<and> parseForm (IssueBody iss) = Inr f \<and> Csr.Parse lib (CSR f) = Inr req \<and>
     Valid (CommonName (ReqSubject req)) \<and> \<not> inaccessibleRepos c (FormRepo f) \<and>
     (\<exists>b rawID. Files c (fileKey (FormRepo f) infoPath) = Some b \<and> ExtractID xml (blob_content b) = Inr rawID \<and>
        Fold rawID = CommonName (ReqSubject req)) \<and>
     (\<exists>nonce posted b. last_challenge (OwnCommentsByIssue c (Number iss)) None = Some (nonce, posted) \<and>
        now - posted \<le> Validity \<and> Files c (fileKey (FormRepo f) FilePath) = Some b \<and> Match nonce (blob_content b)) \<and>
     holds_ledger c (CommonName (ReqSubject req)) ex \<and>
     Decide ex (FormRepo f) \<in> {DecisionNewClaim, DecisionAllowed}"

lemma hasLabel_set: "Enroll.hasLabel ls l \<longleftrightarrow> l \<in> set ls"
  by (induction ls) auto

lemma ready_reaches_issue:
  assumes r: "request_ready lib xml iss now c f req ex" and st: "steady d now serial issuer der" and gh: "GH d = fake_github"
  shows "Process lib xml d iss c =
    issueCert lib d iss f (CommonName (ReqSubject req)) (ReqPublicKey req) ex (ledger_sha c (CommonName (ReqSubject req))) c"
proof -
  let ?a = "CommonName (ReqSubject req)"
  from r obtain b rawID nonce posted b2 where i: "Files c (fileKey (FormRepo f) infoPath) = Some b"
    "ExtractID xml (blob_content b) = Inr rawID" "Fold rawID = ?a"
    and ch: "last_challenge (OwnCommentsByIssue c (Number iss)) None = Some (nonce, posted)" "now - posted \<le> Validity"
    "Files c (fileKey (FormRepo f) FilePath) = Some b2" "Match nonce (blob_content b2)"
    unfolding request_ready_def by blast
  have h: "\<not> Enroll.hasLabel (Labels iss) LabelIssued" "parseForm (IssueBody iss) = Inr f" "Csr.Parse lib (CSR f) = Inr req"
    "Valid ?a" "\<not> inaccessibleRepos c (FormRepo f)" "holds_ledger c ?a ex"
    "Decide ex (FormRepo f) \<in> {DecisionNewClaim, DecisionAllowed}"
    using r by (auto simp: request_ready_def hasLabel_set)
  have "decide_and_issue lib d iss f req ?a c = issueCert lib d iss f ?a (ReqPublicKey req) ex (ledger_sha c ?a) c"
    using h(7) by (auto simp: decide_and_issue_def load_fake [OF gh h(6)])
  moreover have "challenge_phase lib d iss f req ?a c = decide_and_issue lib d iss f req ?a c"
    using ch h(5) gh
    by (simp add: challenge_phase_def priorChallenge_def fake_OwnComments_def fake_GetFile_def steady_simps [OF st] Expired_iff)
  moreover have "Process lib xml d iss c = challenge_phase lib d iss f req ?a c"
    using h i gh by (simp add: Process_def fake_GetFile_def ValidateStrict_def Canonicalize_def Let_def)
  ultimately show ?thesis by simp
qed

section \<open>Properties\<close>

text \<open>C39: An honest request succeeds: with all the requester's steps done, an answering signer and no
  other writer, one poll issues the certificate, records it in the ledger, delivers leaf and
  issuer certificate in the one comment it posts, sets the label and closes the issue.\<close>
theorem honest_request_is_issued:
  assumes "request_ready lib xml iss now c f req ex" and "steady d now serial issuer der" and "GH d = fake_github"
    and "ParseCertificate lib der = Inr leaf" and "\<not> FailNextPutWithConflict c"
  shows "\<exists>c' data s. Process lib xml d iss c = Some (Inr (), c') \<and>
    Marshal (next_ledger (CommonName (ReqSubject req)) (FormRepo f) now (ledger_entry lib iss leaf der) ex) = Inr data \<and>
    Ledgers c' (CommonName (ReqSubject req)) = Some \<lparr>blob_content = data, blob_sha = s\<rparr> \<and>
    PostedComments c' (Number iss) = PostedComments c (Number iss) @
      [delivery_body (CommonName (ReqSubject req)) (EncodePEM der @ EncodePEM (Raw issuer))] \<and>
    LabelsAdded c' (Number iss) = LabelsAdded c (Number iss) @ [LabelIssued] \<and> Closed c' (Number iss)"
proof -
  let ?a = "CommonName (ReqSubject req)" and ?body = "delivery_body (CommonName (ReqSubject req)) (EncodePEM der @ EncodePEM (Raw issuer))"
  obtain data where data: "Marshal (next_ledger ?a (FormRepo f) now (ledger_entry lib iss leaf der) ex) = Inr data"
    by (simp add: Marshal_def)
  have v: "Valid ?a" and p: "Csr.Parse lib (CSR f) = Inr req" using assms(1) by (simp_all add: request_ready_def)
  have key: "ReqPublicKey req \<noteq> None" using p by (auto simp: csr_Parse_Inr allowed_key_def split: option.splits)
  have run: "Process lib xml d iss c = Some (Inr (), delivered (put_ledger c ?a data) iss ?body)"
    unfolding ready_reaches_issue [OF assms(1-3)]
    by (rule issue_fake [OF assms(2,3,5) v key assms(4) data])
  obtain s where "Ledgers (put_ledger c ?a data) ?a = Some \<lparr>blob_content = data, blob_sha = s\<rparr>"
    using put_ledger_fields(5) by blast
  then show ?thesis
    using run data by (intro exI) (auto simp: delivered_def fake_PostComment_def fake_SetLabels_def fake_CloseIssue_def)
qed

end
