(* ===== verification/Lifecycle.thy ===== *)
theory Lifecycle imports EnrollSafety HonestIssue RevokeSafety Crl begin

text \<open>
  The life of an appId and of a certificate across the components: the claim of the id, the issue,
  the revocation and the entry in the revocation list; an honest revocation succeeds.
\<close>

section \<open>Ledgers along the way\<close>

lemma Decide_accepts:
  "Decide ex repo \<in> {DecisionNewClaim, DecisionAllowed} \<longleftrightarrow>
     (case ex of None \<Rightarrow> True | Some l \<Rightarrow> \<not> Reserved l \<and> Repo (Ledger.Owner l) = repo)"
  by (auto simp: Decide_def split: option.split)

lemma next_ledger_certs:
  "certs (next_ledger a repo now e ex) = (case ex of None \<Rightarrow> [] | Some l \<Rightarrow> certs l) @ [e]"
  by (cases ex) (simp_all add: next_ledger_def append_cert_def new_ledger_def certs_def)

lemma find_index_append:
  "list_all (\<lambda>x. \<not> p x) xs \<Longrightarrow> p y \<Longrightarrow> find_index p (xs @ [y]) = Some (length xs)"
  by (induction xs) auto

section \<open>Properties\<close>

text \<open>An appId belongs to the first repository that claims it: a new ledger is open to its repository
  and closed to every other, and neither an issue nor a revocation changes who may get the next
  certificate; a reserved id is open to nobody.\<close>
theorem ownership_is_permanent:
  "Decide (Some (next_ledger a repo now e None)) repo' = (if repo' = repo then DecisionAllowed else DecisionRejectedMismatch) \<and>
   Decide (Some (next_ledger a repo now e (Some l))) repo' = Decide (Some l) repo' \<and>
   Decide (Some (flip_at idx rv l)) repo' = Decide (Some l) repo' \<and>
   (Decide ex repo' \<in> {DecisionNewClaim, DecisionAllowed} \<longleftrightarrow>
      (case ex of None \<Rightarrow> True | Some l \<Rightarrow> \<not> Reserved l \<and> Repo (Ledger.Owner l) = repo'))"
  unfolding Decide_accepts
  by (auto simp: Decide_def next_ledger_def append_cert_def new_ledger_def flip_at_def)

text \<open>C38: A certificate that was issued can be revoked with its own fingerprint and then is listed: after
  the issue of a leaf, the finder of the self-service path finds its entry, and every list built
  from ledgers with the flipped one has the leaf's serial, revoked from the leaf's issue date.\<close>
theorem issued_revoked_listed:
  assumes "slice_sort srt"
    and "l = next_ledger a repo now (ledger_entry lib iss leaf der) ex"
    and "list_all (\<lambda>c. CertFingerprint c \<noteq> Fingerprint lib der) (case ex of None \<Rightarrow> [] | Some l0 \<Rightarrow> certs l0)"
  shows "\<exists>idx. findByFingerprint (Some l) (Fingerprint lib der) = Some idx \<and>
    certs l ! idx = ledger_entry lib iss leaf der \<and>
    (\<forall>ls t crl. flip_at idx (self_revocation (XNotBefore leaf)) l \<in> set ls \<and> Build srt ls t = Inr crl \<longrightarrow>
       \<lparr>EntrySerial = XSerial leaf, RevocationTime = XNotBefore leaf\<rparr> \<in> set (RevokedEntries crl))"
proof -
  let ?e = "ledger_entry lib iss leaf der" and ?old = "case ex of None \<Rightarrow> [] | Some l0 \<Rightarrow> certs l0"
  let ?idx = "length ?old" and ?rv = "self_revocation (XNotBefore leaf)"
  have c: "certs l = ?old @ [?e]" by (simp add: assms(2) next_ledger_certs)
  have "find_index (\<lambda>c. CertFingerprint c = Fingerprint lib der) (?old @ [?e]) = Some ?idx"
    by (rule find_index_append) (use assms(3) in \<open>simp_all add: ledger_entry_def\<close>)
  then have find: "findByFingerprint (Some l) (Fingerprint lib der) = Some ?idx" by (simp add: findByFingerprint_def c)
  have at: "certs l ! ?idx = ?e" by (simp add: c)
  let ?f = "flip_cert ?rv ?e"
  have mem: "?f \<in> set (certs (flip_at ?idx ?rv l))"
    unfolding certs_flip at by (rule set_update_memI) (simp add: c)
  have entry: "entry_of ?f = \<lparr>EntrySerial = XSerial leaf, RevocationTime = XNotBefore leaf\<rparr>"
    by (simp add: entry_of_def cert_entry_def flip_cert_def ledger_entry_def parse_FormatSerial self_revocation_def)
  have "entry_of ?f \<in> set (RevokedEntries crl)" if "flip_at ?idx ?rv l \<in> set ls" "Build srt ls t = Inr crl" for ls t crl
  proof -
    have "?f \<in> set (revoked_certs ls)" using that(1) mem by (force simp: revoked_certs_def flip_cert_def)
    then show ?thesis
      using slice_sort.entries_exact [OF assms(1) that(2)] by (metis image_eqI set_image_mset set_mset_mset)
  qed
  then show ?thesis using find at entry by (intro exI [of _ ?idx]) auto
qed

text \<open>C40: An honest revocation succeeds: with a request the verifier accepts, its signer's certificate in
  the ledger and not revoked, and no other writer, one poll writes the ledger with exactly this
  certificate revoked from its issue date, reports it, sets the label and closes the issue.\<close>
theorem honest_revocation_succeeds:
  assumes "LabelRevoked \<notin> set (Labels iss)" and "Revoke.parseForm (IssueBody iss) = Inr f"
    and "Verify (RevVerifier d) (CMS f) c = (Inr vres, c)" and "RevGH d = fake_github"
    and "a = Fold (CommonName (Subject (SignerCert vres)))" and "Valid a" and "holds_ledger c a (Some l)"
    and "findByFingerprint (Some l) (Fingerprint lib (Raw (SignerCert vres))) = Some idx"
    and "Status (certs l ! idx) \<noteq> StatusRevoked" and "\<not> FailNextPutWithConflict c"
  shows "\<exists>c' data s. Revoke.Process lib d iss c = (Inr (), c') \<and>
    Marshal (flip_at idx (self_revocation (NotBefore (certs l ! idx))) l) = Inr data \<and>
    Ledgers c' a = Some \<lparr>blob_content = data, blob_sha = s\<rparr> \<and>
    PostedComments c' (Number iss) = PostedComments c (Number iss) @
      [revoked_body (Serial (certs l ! idx)) a (NotBefore (certs l ! idx))] \<and>
    LabelsAdded c' (Number iss) = LabelsAdded c (Number iss) @ [LabelRevoked] \<and> Closed c' (Number iss)"
proof -
  let ?rv = "self_revocation (NotBefore (certs l ! idx))"
  let ?fnd = "\<lambda>lg. findByFingerprint lg (Fingerprint lib (Raw (SignerCert vres)))"
  let ?body = "revoked_body (Serial (certs l ! idx)) a (NotBefore (certs l ! idx))"
  obtain data where data: "Marshal (flip_at idx ?rv l) = Inr data" by (simp add: Marshal_def)
  obtain s where s: "Ledgers (put_ledger c a data) a = Some \<lparr>blob_content = data, blob_sha = s\<rparr>"
    using put_ledger_fields(5) by blast
  have lab: "\<not> Revoke.hasLabel ls l" if "l \<notin> set ls" for ls l using that by (induction ls) auto
  have five: "Revoke.maxLedgerRetries = Suc 4" by (simp add: Revoke.maxLedgerRetries_def)
  have loop: "apply_loop fake_github a ?fnd ?rv (Suc n) None (Some l) (ledger_sha c a) c =
      (Inr (Serial (certs l ! idx)), put_ledger c a data)" for n
    using assms(8,10) data by (simp add: put_fake)
  have flipped: "applyRevocation fake_github a ?fnd ?rv (Some l) (ledger_sha c a) c =
      (Inr (Serial (certs l ! idx)), put_ledger c a data)"
    unfolding applyRevocation_def five by (rule loop)
  have load: "Revoke.loadLedger fake_github a c = (Inr (Some l, ledger_sha c a), c)"
    using assms(7) by (auto simp: Revoke.loadLedger_def fake_GetLedger_def holds_ledger_def ledger_sha_def split: option.splits)
  have "match_and_revoke lib d iss vres a c = deliver d iss ?body (put_ledger c a data)"
    using load flipped assms(4,8,9) by (simp add: match_and_revoke_def Let_def self_revocation_def)
  moreover have "Revoke.Process lib d iss c = match_and_revoke lib d iss vres a c"
    using lab [OF assms(1)] assms(2,3,5,6) by (simp add: Revoke.Process_def Canonicalize_def Let_def)
  ultimately have "Revoke.Process lib d iss c = deliver d iss ?body (put_ledger c a data)" by simp
  then show ?thesis
    using data s assms(4)
    by (simp add: deliver_def fake_PostComment_def fake_SetLabels_def fake_CloseIssue_def)
qed

end
