(* ===== verification/CommandRuns.thy ===== *)
theory CommandRuns imports CmdIssuer CmdRevoker CmdCrlgen begin

text \<open>
  Whole runs of the commands: a failing issue does not stop the others, and what a run of crlgen
  publishes.
\<close>

section \<open>Lemmas\<close>

text \<open>The results of a pipeline on each issue in turn.\<close>

fun run_each :: "(issue \<Rightarrow> 'w \<Rightarrow> (unit result \<times> 'w) option) \<Rightarrow> issue list \<Rightarrow> 'w \<Rightarrow> (unit result list \<times> 'w) option" where
  "run_each process [] w = Some ([], w)"
| "run_each process (i # is) w =
     (case process i w of
        None \<Rightarrow> None
      | Some (r, w1) \<Rightarrow> map_option (apfst ((#) r)) (run_each process is w1))"

lemma poll_run_each:
  "poll_issues process is k w = map_option (apfst (\<lambda>rs. k + length (filter isl rs))) (run_each process is w)"
proof (induction process "is" k w rule: poll_issues.induct)
  case (2 process i "is" k w)
  show ?case
  proof (cases "process i w")
    case (Some rw)
    then obtain r w1 where r: "process i w = Some (r, w1)" by (cases rw) auto
    then show ?thesis
      using 2 by (cases r; cases "run_each process is w1") (auto simp: r)
  qed simp
qed simp

lemma revoke_run_each:
  "Some (revoke_issues process is k w) =
     map_option (apfst (\<lambda>rs. k + length (filter isl rs))) (run_each (\<lambda>i w. Some (process i w)) is w)"
proof (induction process "is" k w rule: revoke_issues.induct)
  case (2 process i "is" k w)
  obtain r w1 where r: "process i w = (r, w1)" by (metis surj_pair)
  show ?case
    using 2 r by (cases r; cases "run_each (\<lambda>i w. Some (process i w)) is w1") (auto simp: r)
qed simp

lemma crlgen_run_Inr:
  "CmdCrlgen.run srt lib http fs os clock w = (Inr u, w') \<longleftrightarrow>
     (\<exists>now w1 sg w2 ls w3 crl der w4. clock w = (now, w1) \<and> CmdCrlgen.newSigner lib http os now w1 = (Inr sg, w2) \<and>
        LoadAll fs os ledgerDir w2 = (Inr ls, w3) \<and> Build srt ls now = Inr crl \<and> SignCRL sg crl w3 = (Inr der, w4) \<and>
        publish http os der w4 = (Inr u, w'))"
  by (auto simp: CmdCrlgen.run_def split: prod.splits sum.splits)

section \<open>Properties\<close>

text \<open>C34: A poll runs the pipeline on every issue in turn, each in the world the one before left, also
  after failures, and fails exactly if one of them failed, with their number; for both bots.\<close>
theorem poll_isolates_failures:
  "poll_issues process is 0 w = map_option (apfst (\<lambda>rs. length (filter isl rs))) (run_each process is w) \<and>
   Some (revoke_issues process' is 0 w) =
     map_option (apfst (\<lambda>rs. length (filter isl rs))) (run_each (\<lambda>i w. Some (process' i w)) is w) \<and>
   (poll_result k is = Inr () \<longleftrightarrow> k = 0)"
  by (simp add: poll_run_each revoke_run_each poll_result_def)

text \<open>C35: The revocation list is published in place of the version just read, or as a new file only when
  the read found none; it is the one write of the run, and an error means it was not accepted.\<close>
theorem list_replaces_what_was_read:
  "case publishCRL (observed gh) repo der (w, []) of
     (Inr u, (w', tr)) \<Rightarrow>
       (\<exists>r sha. tr = [EvPutFile repo crlPath der sha publish_message (Inr ()), EvGetFile repo crlPath r] \<and>
          (case r of Inr (ct, s) \<Rightarrow> sha = s | Inl e \<Rightarrow> errors_is e ErrNotFound \<and> sha = []))
   | (Inl e, (w', tr)) \<Rightarrow>
       list_all (\<lambda>ev. case ev of EvPutFile rp f c p m r \<Rightarrow> isl r | EvGetFile rp f r \<Rightarrow> True | _ \<Rightarrow> False) tr"
  by (auto simp: publishCRL_def Let_def split: prod.split sum.split if_splits)

text \<open>C36: A successful run of crlgen has read and accepted every ledger file of the directory, and what
  it signed and then published lists every revoked certificate of every one of them, and nothing
  else, at the time of the run.\<close>
theorem published_list_is_complete:
  assumes "slice_sort srt" and "CmdCrlgen.run srt lib http fs os clock w = (Inr u, w')"
  shows "\<exists>now w1 paths wg wg' ls sg crl der w2 w3 w4.
    clock w = (now, w1) \<and> CmdCrlgen.newSigner lib http os now w1 = (Inr sg, w2) \<and>
    StatIsDir fs ledgerDir w2 = (Inr True, wg) \<and> GlobIn fs ledgerDir ''*.json'' wg = (Inr paths, wg') \<and>
    reads os (sort paths) wg' ls w3 \<and>
    set (RevokedEntries crl) = entry_of ` {c. \<exists>l\<in>set ls. c \<in> set (certs l) \<and> Status c = StatusRevoked} \<and>
    ThisUpdate crl = now \<and> SignCRL sg crl w3 = (Inr der, w4) \<and> publish http os der w4 = (Inr u, w')"
proof -
  from assms(2) obtain now w1 sg w2 ls w3 crl der w4 where r: "clock w = (now, w1)"
    "CmdCrlgen.newSigner lib http os now w1 = (Inr sg, w2)"
    "LoadAll fs os ledgerDir w2 = (Inr ls, w3)" "Build srt ls now = Inr crl" "SignCRL sg crl w3 = (Inr der, w4)"
    "publish http os der w4 = (Inr u, w')" unfolding crlgen_run_Inr by blast
  from r(3) obtain wg wg' paths where g: "StatIsDir fs ledgerDir w2 = (Inr True, wg)"
      "GlobIn fs ledgerDir ''*.json'' wg = (Inr paths, wg')" "reads os (sort paths) wg' ls w3"
    unfolding LoadAll_Inr by blast
  have "set_mset (mset (RevokedEntries crl)) = set_mset (image_mset entry_of (mset (revoked_certs ls)))"
    using slice_sort.entries_exact [OF assms(1) r(4)] by simp
  then have "set (RevokedEntries crl) = entry_of ` {c. \<exists>l\<in>set ls. c \<in> set (certs l) \<and> Status c = StatusRevoked}"
    by (auto simp: revoked_certs_def)
  moreover have "ThisUpdate crl = now" using r(4) by (simp add: Build_Inr)
  ultimately show ?thesis using r g by blast
qed

end
