(* ===== verification/IssuingChecks.thy ===== *)
theory IssuingChecks imports CmdIssuer CmdCrlgen begin

text \<open>
  What is signed and with which key: the serial and the profile of a leaf, the keys the signers take,
  what goes to and comes from Vault, and the signer the environment selects.
\<close>

section \<open>Lemmas\<close>

lemma transit_lookups [simp]:
  "find_field transit_fields ''data'' = Some (decode_struct False transit_data)"
  "find_field transit_data ''signature'' = Some (\<lambda>j s. map_option (\<lambda>x. s\<lparr>Signature := x\<rparr>) (decode_string j (Signature s)))"
  by (simp_all add: transit_fields_def transit_data_def find_field_def)

lemma after_last_colon_b64: "after_last_colon (p @ CHR '':'' # b64_encode s) = b64_encode s"
proof -
  have "c \<noteq> CHR '':''" if "c \<in> set (b64_encode s)" for c
    using b64_encode_bytes [of s] that b64_byte_neq(4) by (simp add: list_all_iff)
  then have "takeWhile (\<lambda>c. c \<noteq> CHR '':'') (rev (b64_encode s) @ CHR '':'' # rev p) = rev (b64_encode s)"
    by (subst takeWhile_append2) auto
  then show ?thesis by (simp add: after_last_colon_def)
qed

lemma show_nat_ascii: "list_all is_ascii (show_nat k)"
  using show_nat_digits [of k] by (rule digits_ascii)

definition transit_signature :: "nat \<Rightarrow> string \<Rightarrow> string" where
  "transit_signature k sig = ''vault:v'' @ show_nat k @ '':'' @ b64_encode sig"

lemma transit_signature_utf8: "utf8_valid (transit_signature k sig)"
proof (rule utf8_valid_ascii)
  have "list_all is_ascii (b64_encode sig)"
    using b64_encode_bytes [of sig] by (simp add: list_all_iff b64_byte_ascii)
  then show "list_all is_ascii (transit_signature k sig)"
    using show_nat_ascii [of k] by (simp add: transit_signature_def is_ascii_def)
qed

lemma utf8_vault_names [simp]:
  "utf8_valid ''data''" "utf8_valid ''signature''" "utf8_valid ''hash_algorithm''" "utf8_valid ''input''"
  "utf8_valid ''marshaling_algorithm''" "utf8_valid ''prehashed''" "utf8_valid ''sha2-384''" "utf8_valid ''asn1''"
  by (simp_all add: is_ascii_def)

lemma sign_request_ok: "json_ok (sign_request_body digest)"
  by (simp add: sign_request_body_def b64_utf8)

section \<open>Properties\<close>

text \<open>C30: The draw of a serial returns exactly if the source does not deliver zeros for ever, and a serial
  that is drawn is positive and below 2^128, whatever the random source delivers.\<close>
theorem serial_draw:
  "((\<exists>y. randomSerial r w = Some y) \<longleftrightarrow> (\<exists>k. zero_draws r k w = None)) \<and>
   (case randomSerial r w of
      Some (Inr n, w') \<Rightarrow> 0 < n \<and> n < 2 ^ 128
    | _ \<Rightarrow> True)"
  using randomSerial_returns [of r w] randomSerial_range [of r w] by (auto split: option.split prod.split sum.split)

text \<open>C31: A leaf that is made is an end entity certificate for code signing of a valid appId, valid from
  the given time for two years, but never beyond the issuer certificate, with the serial of this
  draw, the owner and the origin of the request and the published revocation list.\<close>
theorem leaf_profile:
  "case Leaf r inp w of
     Some (Inr t, w') \<Rightarrow>
       (\<exists>issuer serial. InIssuer inp = Some issuer \<and> randomSerial r w = Some (Inr serial, w') \<and> XSerial t = int serial \<and>
          XNotAfter t = min (InNotBefore inp + 2 * 365 * 24 * Hour) (XNotAfter issuer)) \<and>
       Valid (InAppID inp) \<and> CommonName (Subject t) = InAppID inp \<and> Organization (Subject t) = [InOwner inp] \<and>
       OrganizationalUnit (Subject t) = [InOrigin inp] \<and> XNotBefore t = InNotBefore inp \<and>
       KeyUsage t = {KeyUsageDigitalSignature} \<and> ExtKeyUsage t = [ExtKeyUsageCodeSigning] \<and>
       BasicConstraintsValid t \<and> \<not> IsCA t \<and> SignatureAlgorithm t = ECDSAWithSHA384 \<and>
       CRLDistributionPoints t = [CRLDistributionPoint]
   | _ \<Rightarrow> True"
proof (cases "\<exists>t w'. Leaf r inp w = Some (Inr t, w')")
  case True
  then obtain t w' where l: "Leaf r inp w = Some (Inr t, w')" by blast
  then obtain issuer serial where t: "Valid (InAppID inp)" "InIssuer inp = Some issuer"
    "randomSerial r w = Some (Inr serial, w')" "t = leaf_template inp issuer serial"
    using Leaf_Inr [of r inp w t w'] by blast
  have n: "XNotAfter t = min (InNotBefore inp + 2 * 365 * 24 * Hour) (XNotAfter issuer)"
    using leaf_template_validity [of inp issuer serial] by (simp add: t(4) leafValidity_def)
  show ?thesis
    unfolding l option.case prod.case sum.case using t(1-3) n by (simp add: t(4)) (simp add: leaf_template_def Let_def)
qed (auto split: option.split prod.split sum.split)

text \<open>The PEM signer is made exactly from a key on P-384 that parses and is the key of the issuer
  certificate.\<close>
theorem pem_signer_matches_issuer:
  "pem_New lib pc = Inr s \<longleftrightarrow>
     KeyPEM pc \<noteq> [] \<and> PemIssuer pc = Some (PemCert s) \<and> parseECKey lib (KeyPEM pc) = Inr (PemKey s) \<and>
     KeyCurve (PemKey s) = Some ''P-384'' \<and> XPublicKey (PemCert s) = Some (public_of (PemKey s))"
  by (cases s)
     (auto simp: pem_New_def P384_def public_of_def split: option.splits sum.splits public_key.splits if_splits)

text \<open>C32: Vault is sent the digest and answers with a signature in the form \<open>vault:v<n>:<base64>\<close>: what is
  sent reads back as the digest, and from such an answer exactly the signature is taken.\<close>
theorem vault_exchange:
  "(\<exists>ms. parse_whole (compact_json (sign_request_body digest)) = Some (JObj ms) \<and>
      map_of ms ''input'' = Some (JStr (b64_encode digest)) \<and> map_of ms ''prehashed'' = Some (JBool True) \<and>
      map_of ms ''hash_algorithm'' = Some (JStr ''sha2-384'') \<and> b64_decode (b64_encode digest) = Some digest) \<and>
   decodeTransitSignature (compact_json (JObj [(''data'', JObj [(''signature'',
      JStr (''vault:v'' @ show_nat k @ '':'' @ b64_encode sig))])])) = Inr sig"
proof
  show "\<exists>ms. parse_whole (compact_json (sign_request_body digest)) = Some (JObj ms) \<and>
      map_of ms ''input'' = Some (JStr (b64_encode digest)) \<and> map_of ms ''prehashed'' = Some (JBool True) \<and>
      map_of ms ''hash_algorithm'' = Some (JStr ''sha2-384'') \<and> b64_decode (b64_encode digest) = Some digest"
    using parse_compact [OF sign_request_ok, of digest] by (simp add: sign_request_body_def b64_decode_encode)
  let ?j = "JObj [(''data'', JObj [(''signature'', JStr (transit_signature k sig))])]"
  have "parse_whole (compact_json ?j) = Some ?j"
    by (rule parse_compact) (simp add: transit_signature_utf8)
  moreover have "decode_struct False transit_fields ?j \<lparr>Signature = []\<rparr> = Some \<lparr>Signature = transit_signature k sig\<rparr>"
    by (simp add: decode_struct_def)
  moreover have "transit_signature k sig \<noteq> []" "after_last_colon (transit_signature k sig) = b64_encode sig"
    using after_last_colon_b64 [of "''vault:v'' @ show_nat k" sig] by (simp_all add: transit_signature_def)
  ultimately have "decodeTransitSignature (compact_json ?j) = Inr sig"
    by (simp add: decodeTransitSignature_def Let_def b64_decode_encode del: compact_json.simps)
  then show "decodeTransitSignature (compact_json (JObj [(''data'', JObj [(''signature'',
      JStr (''vault:v'' @ show_nat k @ '':'' @ b64_encode sig))])])) = Inr sig"
    by (simp only: transit_signature_def)
qed

text \<open>C33: The issuer never signs with a key of its own making: the signer it gets is Vault's, with the
  three settings present, or that of a configured P-384 key that belongs to the certificate read
  from \<open>INTERMEDIATE_CERT\<close>; without either setting there is no signer. For the revocation list a
  throwaway key is made only on explicit request, and only without the two settings; with one of them
  both programs get the same signer.\<close>
theorem no_throwaway_key:
  "(case CmdIssuer.newSigner lib http os w of
      (Inl e, w') \<Rightarrow> True
    | (Inr s, w') \<Rightarrow>
        \<exists>cert. CmdIssuer.loadCert lib os (Getenv os ''INTERMEDIATE_CERT'') w = (Inr cert, w') \<and>
          (Getenv os ''VAULT_ADDR'' \<noteq> [] \<and> Getenv os ''VAULT_TOKEN'' \<noteq> [] \<and> Getenv os ''VAULT_TRANSIT_KEY'' \<noteq> [] \<and>
             s = vault_signer_of lib http \<lparr>VaultCfg = vault_config_of os, VaultIssuer = cert\<rparr> \<or>
           Getenv os ''VAULT_ADDR'' = [] \<and>
             (\<exists>key. parseECKey lib (Getenv os ''INTERMEDIATE_KEY_PEM'') = Inr key \<and> KeyCurve key = Some ''P-384'' \<and>
                XPublicKey cert = Some (public_of key) \<and> s = pem_signer_of lib \<lparr>PemKey = key, PemCert = cert\<rparr>))) \<and>
   (if Getenv os ''VAULT_ADDR'' = [] \<and> Getenv os ''INTERMEDIATE_KEY_PEM'' = []
    then isl (fst (CmdIssuer.newSigner lib http os w)) \<and>
      (if Getenv os ''CRLGEN_ALLOW_LOCAL'' = ''1''
       then fst (CmdCrlgen.newSigner lib http os now w) = res_map (local_signer_of lib) (fst (local_New lib (RandReader lib) now w))
       else isl (fst (CmdCrlgen.newSigner lib http os now w)))
    else CmdCrlgen.newSigner lib http os now w = CmdIssuer.newSigner lib http os w)"
proof -
  let ?v = "Getenv os ''VAULT_ADDR''" and ?k = "Getenv os ''INTERMEDIATE_KEY_PEM''"
  obtain r w1 where l: "CmdIssuer.loadCert lib os (Getenv os ''INTERMEDIATE_CERT'') w = (r, w1)" by (metis surj_pair)
  have pem: "pem_New lib \<lparr>KeyPEM = ?k, PemIssuer = Some cert\<rparr> = Inr s \<Longrightarrow>
      PemCert s = cert \<and> parseECKey lib ?k = Inr (PemKey s) \<and> KeyCurve (PemKey s) = Some ''P-384'' \<and>
      XPublicKey cert = Some (public_of (PemKey s))" for cert s
    by (auto simp: pem_New_def P384_def public_of_def split: option.splits sum.splits public_key.splits if_splits)
  have load: "CmdCrlgen.loadCert lib os p w = CmdIssuer.loadCert lib os p w" for p
    by (simp add: CmdCrlgen.loadCert_def CmdIssuer.loadCert_def)
  have same: "CmdCrlgen.newSigner lib http os now w = CmdIssuer.newSigner lib http os w" if "?v \<noteq> [] \<or> ?k \<noteq> []"
    unfolding CmdCrlgen.newSigner_def CmdIssuer.newSigner_def load vault_config_of_def using that by auto
  show ?thesis
  proof (cases "?v \<noteq> []")
    case True
    then show ?thesis
      using l same by (cases r) (auto simp: CmdIssuer.newSigner_def vault_New_def vault_config_of_def)
  next
    case v: False
    show ?thesis
    proof (cases "?k = []")
      case True
      then show ?thesis
        using v by (auto simp: CmdIssuer.newSigner_def CmdCrlgen.newSigner_def split: prod.split sum.split)
    next
      case k: False
      show ?thesis
      proof (cases "\<exists>cert s. r = Inr cert \<and> pem_New lib \<lparr>KeyPEM = ?k, PemIssuer = Some cert\<rparr> = Inr s")
        case True
        then obtain cert s where s: "r = Inr cert" "pem_New lib \<lparr>KeyPEM = ?k, PemIssuer = Some cert\<rparr> = Inr s" by blast
        obtain key c where sc: "s = \<lparr>PemKey = key, PemCert = c\<rparr>" by (cases s)
        have "CmdIssuer.newSigner lib http os w = (Inr (pem_signer_of lib s), w1)"
          using v k l s by (simp add: CmdIssuer.newSigner_def)
        then show ?thesis using v k l s(1) pem [OF s(2)] same by (auto simp: sc)
      next
        case False
        then have "\<exists>e. CmdIssuer.newSigner lib http os w = (Inl e, w1)"
          using v k l by (cases r; cases "pem_New lib \<lparr>KeyPEM = ?k, PemIssuer = Some (projr r)\<rparr>")
            (auto simp: CmdIssuer.newSigner_def)
        then show ?thesis using k same by auto
      qed
    qed
  qed
qed

end
