(* ===== verification/WitnessesRuns.thy ===== *)
theory WitnessesRuns imports StoredLedger WitnessesServices Lifecycle CommandRuns IssuingChecks begin

text \<open>
  Concrete runs for the properties of whole pipelines and commands.
\<close>

section \<open>A crypto library\<close>

definition ex_name :: "string \<Rightarrow> pkix_name" where
  "ex_name cn = empty_name\<lparr>CommonName := cn\<rparr>"

definition ex_leaf :: x509_cert where
  "ex_leaf =
     \<lparr>Raw = ''der'', XSerial = 31, Subject = ex_name ''acme'', XPublicKey = None, XNotBefore = 0,
      XNotAfter = 86400 * nanosecond_per_second, KeyUsage = {KeyUsageDigitalSignature}, ExtKeyUsage = [ExtKeyUsageCodeSigning],
      BasicConstraintsValid = True, IsCA = False, MaxPathLen = 0, MaxPathLenZero = False,
      SignatureAlgorithm = ECDSAWithSHA384, CRLDistributionPoints = []\<rparr>"

definition ex_request :: certificate_request where
  "ex_request = \<lparr>ReqSubject = ex_name ''acme'', ReqPublicKey = Some (ECPublicKey P384 ''pt''), ReqRaw = []\<rparr>"

definition ex_key :: ec_private_key where
  "ex_key = \<lparr>KeyCurve = P384, KeyPublic = ''pt'', KeySecret = ''s''\<rparr>"

definition ex_lib :: "client crypto_lib" where
  "ex_lib =
     \<lparr>ParseCertificateRequest = (\<lambda>b. Inr ex_request), CheckSignature = (\<lambda>r. None), ParseCertificate = (\<lambda>b. Inr ex_leaf),
      ParseECPrivateKey = (\<lambda>b. Inr ex_key), ParsePKCS8PrivateKey = (\<lambda>b. Inr (ECPrivateKey ex_key)),
      CreateCertificate = (\<lambda>r t p k s w. (Inr ''der'', w)), CreateRevocationList = (\<lambda>r l c s w. (Inr ''crl'', w)),
      EcdsaSigner = (\<lambda>k. \<lparr>SignerPublic = None, SignDigest = (\<lambda>d h w. (Inr [], w))\<rparr>),
      GenerateKey = (\<lambda>r w. (Inr ex_key, w)), Sha256 = (\<lambda>s. s), RandReader = (\<lambda>w. (Inr CHR ''x'', w))\<rparr>"

lemma ex_lib_simps [simp]:
  "ParseCertificateRequest ex_lib b = Inr ex_request" "CheckSignature ex_lib r = None"
  "ParseCertificate ex_lib b = Inr ex_leaf" "Sha256 ex_lib s = s"
  by (simp_all add: ex_lib_def)

section \<open>The ledger file\<close>

theorem ledger_file_round_trip_witness: "Ledger.Parse ex_text = Inr ex_ledger"
  using ledger_file_round_trip [OF ex_ledger_ok(2) _ Marshal_ex] stored_id [OF ex_ledger_ok(1)] unfolding storable_iff by metis

section \<open>From issue to list\<close>

definition ex_issue :: "string \<Rightarrow> issue" where
  "ex_issue body = \<lparr>Number = 1, IssueBody = body, Author = \<lparr>AuthorLogin = ''dev'', AuthorUserID = 7\<rparr>, Labels = []\<rparr>"

definition ex_issued :: ledger where
  "ex_issued = next_ledger ''acme'' ''acme/acme'' 0 (ledger_entry ex_lib (ex_issue []) ex_leaf ''der'') None"

theorem issued_revoked_listed_witness:
  "\<exists>idx crl. findByFingerprint (Some ex_issued) (Fingerprint ex_lib ''der'') = Some idx \<and>
     Build insertionSort [flip_at idx (self_revocation 0) ex_issued] 5 = Inr crl \<and>
     \<lparr>EntrySerial = 31, RevocationTime = 0\<rparr> \<in> set (RevokedEntries crl)"
proof -
  let ?e = "ledger_entry ex_lib (ex_issue []) ex_leaf ''der''"
  obtain idx where i: "findByFingerprint (Some ex_issued) (Fingerprint ex_lib ''der'') = Some idx"
    "certs ex_issued ! idx = ?e"
    "\<forall>ls t crl. flip_at idx (self_revocation (XNotBefore ex_leaf)) ex_issued \<in> set ls \<and> Build insertionSort ls t = Inr crl \<longrightarrow>
       \<lparr>EntrySerial = XSerial ex_leaf, RevocationTime = XNotBefore ex_leaf\<rparr> \<in> set (RevokedEntries crl)"
    using issued_revoked_listed [OF insertion.slice_sort_axioms, of ex_issued "''acme''" "''acme/acme''" 0 ex_lib "ex_issue []" ex_leaf
        "''der''" None] by (auto simp: ex_issued_def)
  have z: "XNotBefore ex_leaf = 0" "XSerial ex_leaf = 31" by (simp_all add: ex_leaf_def)
  have c: "certs ex_issued = [?e]" by (simp add: ex_issued_def next_ledger_certs)
  then have i0: "idx = 0" using i(1) by (simp add: findByFingerprint_def ledger_entry_def)
  have "listable (flip_cert (self_revocation 0) ?e)"
    by (simp add: listable_def cert_entry_def flip_cert_def ledger_entry_def parse_FormatSerial)
  then have "list_all listable (revoked_certs [flip_at idx (self_revocation 0) ex_issued])"
    by (simp add: revoked_certs_def certs_flip c i0)
  then obtain crl where crl: "Build insertionSort [flip_at idx (self_revocation 0) ex_issued] 5 = Inr crl"
    by (simp add: Build_Inr)
  have "\<lparr>EntrySerial = 31, RevocationTime = 0\<rparr> \<in> set (RevokedEntries crl)"
    by (rule i(3) [unfolded z, rule_format, OF conjI, OF _ crl]) simp
  then show ?thesis using i(1) crl by blast
qed

section \<open>An honest request\<close>

definition ex_body :: string where
  "ex_body = ''### App repository (owner/name)'' @ nl @ nl @ ''acme/acme'' @ nl @ nl @ ''### CSR'' @ nl @
     csrBegin @ nl @ csrEnd @ nl"

definition ex_form :: EnrollForm.form where
  "ex_form = \<lparr>CSR = csrBegin @ nl @ csrEnd, FormRepo = ''acme/acme''\<rparr>"

lemma ex_parse: "EnrollForm.parseForm ex_body = Inr ex_form"
  by code_simp

lemma ex_block: "pem_decode (csrBegin @ nl @ csrEnd) = Some (\<lparr>BlockType = ''CERTIFICATE REQUEST'', Headers = [], BlockBytes = []\<rparr>, [])"
  by code_simp

lemma ex_csr: "Csr.Parse ex_lib (CSR ex_form) = Inr ex_request"
  by (simp add: csr_Parse_Inr ex_form_def ex_block pemType_def ex_request_def allowed_key_def P384_def)

definition ex_xml :: xml_parser where
  "ex_xml data = Inr (''info'', [Elem ''id'' [CharData data]])"

lemma ex_id: "ExtractID ex_xml ''acme'' = Inr ''acme''"
  by code_simp

definition ex_nonce :: string where
  "ex_nonce = replicate 64 CHR ''a''"

lemma ex_is_nonce: "is_nonce ex_nonce"
  by (simp add: ex_nonce_def is_nonce_def is_lower_hex_def list_all_iff)

definition ex_client :: client where
  "ex_client = FakeClient.New
     \<lparr>OwnCommentsByIssue := (\<lambda>i. [\<lparr>Body = CommentBody ex_nonce, CreatedAt = 0\<rparr>]),
      Files := [fileKey ''acme/acme'' infoPath \<mapsto> \<lparr>blob_content = ''acme'', blob_sha = ''s1''\<rparr>,
                fileKey ''acme/acme'' FilePath \<mapsto> \<lparr>blob_content = ex_nonce, blob_sha = ''s2''\<rparr>]\<rparr>"

lemma ex_keys: "fileKey ''acme/acme'' infoPath \<noteq> fileKey ''acme/acme'' FilePath"
  by (simp add: fileKey_def infoPath_def FilePath_def)

lemma ex_ready: "request_ready ex_lib ex_xml (ex_issue ex_body) 0 ex_client ex_form ex_request None"
proof -
  have n: "CommonName (ReqSubject ex_request) = ''acme''" by (simp add: ex_request_def ex_name_def empty_name_def)
  have v: "Valid ''acme''" "Fold ''acme'' = ''acme''" by (simp_all add: Valid_iff is_lower_def appid_char_def Fold_def fold_byte_def is_upper_def)
  have m: "Match ex_nonce ex_nonce" using Match_padded [OF ex_is_nonce, of "[]" "[]"] by simp
  have ch: "last_challenge (OwnCommentsByIssue ex_client (Number (ex_issue ex_body))) None = Some (ex_nonce, 0)"
    by (simp add: ex_client_def ParseNonce_CommentBody [OF ex_is_nonce])
  have f: "Files ex_client (fileKey (FormRepo ex_form) infoPath) = Some \<lparr>blob_content = ''acme'', blob_sha = ''s1''\<rparr>"
    "Files ex_client (fileKey (FormRepo ex_form) FilePath) = Some \<lparr>blob_content = ex_nonce, blob_sha = ''s2''\<rparr>"
    using ex_keys by (simp_all add: ex_client_def ex_form_def)
  show ?thesis
    unfolding request_ready_def n
    using v m ch f ex_parse ex_csr ex_id
    by (simp add: ex_issue_def holds_ledger_def Decide_def Validity_def nanosecond_per_second_def)
       (simp add: ex_client_def FakeClient.New_def)
qed

definition ex_issuer_deps :: "client Enroll.deps" where
  "ex_issuer_deps =
     \<lparr>GH = fake_github, Signer = \<lparr>IssuerCertificate = Some ex_leaf, Sign = (\<lambda>t p w. (Inr ''der'', w)), SignCRL = (\<lambda>l w. (Inr ''crl'', w))\<rparr>,
      Clock = (\<lambda>w. (0, w)), Rand = (\<lambda>w. (Inr CHR ''x'', w))\<rparr>"

lemma ex_draw: "rand_int_128 (\<lambda>w. (Inr CHR ''x'', w)) w = (Inr (bytes_value (replicate 16 CHR ''x'')), w)"
  by (simp add: rand_int_128_def read_full_def numeral_eq_Suc)

lemma ex_steady: "steady ex_issuer_deps 0 (bytes_value (replicate 16 CHR ''x'')) ex_leaf ''der''"
proof -
  have "0 < bytes_value (c # s)" if "0 < byte c" for c s
  proof -
    have "0 < foldl (\<lambda>n c. 256 * n + byte c) m s" if "0 < m" for m s using that by (induction s arbitrary: m) auto
    then show ?thesis using that by (simp add: bytes_value_def)
  qed
  from this [of "CHR ''x''" "replicate 15 CHR ''x''"] have "0 < bytes_value (replicate 16 CHR ''x'')" by (simp add: numeral_eq_Suc)
  then show ?thesis by (simp add: steady_def ex_issuer_deps_def ex_draw)
qed

theorem honest_request_is_issued_witness:
  "\<exists>c'. Enroll.Process ex_lib ex_xml ex_issuer_deps (ex_issue ex_body) ex_client = Some (Inr (), c') \<and> Closed c' 1"
proof -
  have "GH ex_issuer_deps = fake_github" "\<not> FailNextPutWithConflict ex_client" "ParseCertificate ex_lib ''der'' = Inr ex_leaf"
    by (simp_all add: ex_issuer_deps_def ex_client_def FakeClient.New_def)
  from honest_request_is_issued [OF ex_ready ex_steady this(1,3,2)] show ?thesis
    by (auto simp: ex_issue_def)
qed

section \<open>An honest revocation\<close>

definition ex_lib0 :: "client crypto_lib" where
  "ex_lib0 = ex_lib\<lparr>Sha256 := (\<lambda>s. [CHR 0x00])\<rparr>"

definition ex_cms_body :: string where
  "ex_cms_body = ''-----BEGIN CMS-----'' @ nl @ ''AA=='' @ nl @ ''-----END CMS-----''"

definition ex_rdeps :: "client Revoke.deps" where
  "ex_rdeps =
     \<lparr>RevGH = fake_github,
      RevVerifier = \<lparr>Verify = fake_Verify \<lparr>PresetResult = \<lparr>SignerCert = ex_leaf, Content = []\<rparr>, PresetErr = None\<rparr>\<rparr>,
      RevClock = (\<lambda>w. (0, w))\<rparr>"

definition ex_held :: client where
  "ex_held = snd (SetLedger ''acme'' ex_text FakeClient.New)"

lemma ex_cms_form: "Revoke.parseForm ex_cms_body = Inr \<lparr>CMS = ex_cms_body\<rparr>"
  by code_simp

lemma ex_fingerprint: "Fingerprint ex_lib0 s = ''sha256:00''"
  by (simp add: Fingerprint_def ex_lib0_def) code_simp

theorem honest_revocation_succeeds_witness:
  "\<exists>c'. Revoke.Process ex_lib0 ex_rdeps (ex_issue ex_cms_body) ex_held = (Inr (), c') \<and> Closed c' 1"
proof -
  have cn: "''acme'' = Fold (CommonName (Subject (SignerCert \<lparr>SignerCert = ex_leaf, Content = []\<rparr>)))" "Valid ''acme''"
    by (simp_all add: ex_leaf_def ex_name_def empty_name_def Fold_def fold_byte_def is_upper_def Valid_iff is_lower_def appid_char_def)
  have find: "findByFingerprint (Some ex_ledger) (Fingerprint ex_lib0 (Raw (SignerCert \<lparr>SignerCert = ex_leaf, Content = []\<rparr>))) = Some 0"
    by (simp add: ex_fingerprint findByFingerprint_def ex_ledger_def certs_def ex_entry_def)
  have act: "Status (certs ex_ledger ! 0) \<noteq> StatusRevoked" by (simp add: ex_ledger_def certs_def ex_entry_def)
  have held: "holds_ledger ex_held ''acme'' (Some ex_ledger)" "\<not> FailNextPutWithConflict ex_held"
    by (simp_all add: holds_ledger_def ex_held_def SetLedger_def mintSHA_def FakeClient.New_def Parse_ex)
  have iss: "LabelRevoked \<notin> set (Labels (ex_issue ex_cms_body))"
    "Revoke.parseForm (IssueBody (ex_issue ex_cms_body)) = Inr \<lparr>CMS = ex_cms_body\<rparr>"
    by (simp_all add: ex_issue_def ex_cms_form)
  have deps: "Verify (RevVerifier ex_rdeps) (CMS \<lparr>CMS = ex_cms_body\<rparr>) ex_held = (Inr \<lparr>SignerCert = ex_leaf, Content = []\<rparr>, ex_held)"
    "RevGH ex_rdeps = fake_github" by (simp_all add: ex_rdeps_def fake_Verify_def)
  show ?thesis
    using honest_revocation_succeeds [OF iss deps cn held(1) find act held(2)] by (auto simp: ex_issue_def)
qed

section \<open>A run of crlgen\<close>

definition ex_listed :: ledger where
  "ex_listed = flip_at 0 ex_revocation ex_ledger"

definition ex_listed_text :: string where
  "ex_listed_text = (case Marshal ex_listed of Inr t \<Rightarrow> t | Inl e \<Rightarrow> [])"

lemma Parse_listed: "Ledger.Parse ex_listed_text = Inr ex_listed"
proof (rule Parse_Marshal_canonical)
  show "ledger_canonical ex_listed" unfolding ex_listed_def
    by (rule flip_canonical [OF ex_ledger_ok(1)])
       (simp_all add: revocation_canonical_def ex_revocation_def time_canonical_0 is_ascii_def ex_ledger_def certs_def)
  show "ledger_ok ex_listed" unfolding ex_listed_def by (rule flip_ok [OF ex_ledger_ok(2)])
  show "Marshal ex_listed = Inr ex_listed_text" by (simp add: ex_listed_text_def Marshal_def)
qed

definition ex_os :: "client os_lib" where
  "ex_os =
     \<lparr>CreateTemp = (\<lambda>p w. (Inr ''tmp'', w)), RemoveFile = (\<lambda>p w. w), RunCommand = (\<lambda>c s w. ((RunOk, [], []), w)),
      ReadFile = (\<lambda>p w. (Inr ex_listed_text, w)), WriteFile = (\<lambda>p d w. (Inr (), w)), MkdirAll = (\<lambda>p w. (Inr (), w)),
      Getenv = (\<lambda>k. if k = ''CRLGEN_ALLOW_LOCAL'' then ''1'' else [])\<rparr>"

definition ex_dir :: "client dir_lib" where
  "ex_dir = \<lparr>StatIsDir = (\<lambda>p w. (Inr True, w)), GlobIn = (\<lambda>d p w. (Inr [''ledger/acme.json''], w))\<rparr>"

definition ex_no_http :: "client http_lib" where
  "ex_no_http = \<lparr>BadUrl = (\<lambda>u. None), RoundTrip = (\<lambda>r w. (Inl (Errorf ''offline''), w))\<rparr>"

lemma ex_build: "\<exists>crl. Build insertionSort [ex_listed] 0 = Inr crl"
proof -
  have "revoked_certs [ex_listed] = [flip_cert ex_revocation ex_entry]"
    by (simp add: revoked_certs_def ex_listed_def certs_flip) (simp add: ex_ledger_def certs_def flip_cert_def)
  moreover have "parseSerial ''0x1f'' = Inr 31" by code_simp
  ultimately show ?thesis
    by (simp add: Build_Inr listable_def cert_entry_def flip_cert_def ex_entry_def)
qed

lemma ex_crlgen: "\<exists>w. CmdCrlgen.run insertionSort ex_lib ex_no_http ex_dir ex_os (\<lambda>w. (0, w)) ex_held = (Inr (), w)"
proof -
  obtain crl where crl: "Build insertionSort [ex_listed] 0 = Inr crl" using ex_build by blast
  have load: "LoadAll ex_dir ex_os ledgerDir ex_held = (Inr [ex_listed], ex_held)"
    by (simp add: LoadAll_def ex_dir_def ex_os_def Load_def Parse_listed)
  have sg: "CmdCrlgen.newSigner ex_lib ex_no_http ex_os 0 ex_held =
      (Inr (local_signer_of ex_lib \<lparr>LocalCert = ex_leaf, LocalKey = ex_key\<rparr>), ex_held)"
    by (simp add: CmdCrlgen.newSigner_def ex_os_def local_New_def ex_lib_def ex_draw)
  show ?thesis
    by (simp add: CmdCrlgen.run_def sg load crl local_signer_of_def local_SignCRL_def)
       (simp add: ex_lib_def publish_def ex_os_def write_locally_def)
qed

theorem published_list_is_complete_witness:
  "\<exists>(crl :: revocation_list) ls w w'. reads ex_os [''ledger/acme.json''] w ls w' \<and> ThisUpdate crl = 0 \<and>
     set (RevokedEntries crl) = entry_of ` {c. \<exists>l\<in>set ls. c \<in> set (certs l) \<and> Status c = StatusRevoked}"
proof -
  obtain w where run: "CmdCrlgen.run insertionSort ex_lib ex_no_http ex_dir ex_os (\<lambda>w. (0, w)) ex_held = (Inr (), w)"
    using ex_crlgen by blast
  have dir: "paths = [''ledger/acme.json'']" if "GlobIn ex_dir d p w = (Inr paths, w')" for d p w paths w'
    using that by (simp add: ex_dir_def)
  note facts = published_list_is_complete [OF insertion.slice_sort_axioms run]
  show ?thesis
    by (insert facts, elim exE conjE, frule dir, hypsubst, intro exI conjI, simp, simp, assumption)
qed

end
