(* ===== verification/LedgerView.thy ===== *)
theory LedgerView imports Enroll Revoke FakeClient Trace begin

text \<open>
  What the steps of the pipelines around a write of a ledger leave alone: the contract of the
  operations that preserve a property of the world, as a locale, with the in-memory GitHub and an
  observed GitHub as its providers.
\<close>

section \<open>Operations that preserve a property of the world\<close>

definition preserves :: "('w \<Rightarrow> bool) \<Rightarrow> ('w \<Rightarrow> 'a \<times> 'w) \<Rightarrow> bool" where
  "preserves I f \<longleftrightarrow> (\<forall>w. I w \<longrightarrow> I (snd (f w)))"

lemma preservesD: "preserves I f \<Longrightarrow> f w = (r, w') \<Longrightarrow> I w \<Longrightarrow> I w'"
  unfolding preserves_def by (metis snd_conv)

lemma preservesI: "(\<And>w r w'. f w = (r, w') \<Longrightarrow> I w \<Longrightarrow> I w') \<Longrightarrow> preserves I f"
  unfolding preserves_def by (metis surj_pair snd_conv)

text \<open>A part of the world that an operation keeps.\<close>

definition keeps :: "('w \<Rightarrow> 'v) \<Rightarrow> ('w \<Rightarrow> 'a \<times> 'w) \<Rightarrow> bool" where
  "keeps V f \<longleftrightarrow> (\<forall>w. V (snd (f w)) = V w)"

lemma keepsD: "keeps V f \<Longrightarrow> f w = (r, w') \<Longrightarrow> V w' = V w"
  unfolding keeps_def by (metis snd_conv)

lemma keeps_preserves: "keeps V f \<Longrightarrow> preserves (\<lambda>w. V w = v) f"
  by (simp add: keeps_def preserves_def)

lemma read_more_preserves:
  assumes "preserves I rd"
  shows "read_more rd n acc w = (r, w') \<Longrightarrow> I w \<Longrightarrow> I w'"
proof (induction n arbitrary: acc w)
  case (Suc n)
  obtain b w1 where b: "rd w = (b, w1)" by (metis surj_pair)
  have v: "I w1" by (rule preservesD [OF assms b Suc.prems(2)])
  show ?case
  proof (cases b)
    case (Inl e)
    then show ?thesis using Suc.prems b v by (auto split: if_splits)
  next
    case (Inr c)
    then have "read_more rd n (c # acc) w1 = (r, w')" using Suc.prems b by simp
    from Suc.IH [OF this v] show ?thesis .
  qed
qed simp

lemma read_full_preserves: "preserves I rd \<Longrightarrow> read_full rd n w = (r, w') \<Longrightarrow> I w \<Longrightarrow> I w'"
  unfolding read_full_def by (rule read_more_preserves)

lemma rand_int_preserves: "preserves I rd \<Longrightarrow> rand_int_128 rd w = (r, w') \<Longrightarrow> I w \<Longrightarrow> I w'"
  by (auto simp: rand_int_128_def split: prod.splits sum.splits dest: read_full_preserves)

lemma randomSerial_preserves:
  assumes "preserves I rd"
  shows "randomSerial rd w = Some (r, w') \<Longrightarrow> I w \<Longrightarrow> I w'"
proof -
  have "randomSerial rd' w = Some y \<Longrightarrow> rd' = rd \<longrightarrow> I w \<longrightarrow> I (snd y)" for rd' w y
  proof (rule randomSerial.raw_induct [of "\<lambda>rd' w y. rd' = rd \<longrightarrow> I w \<longrightarrow> I (snd y)"])
    fix rec rd' w y
    assume IH: "\<And>rd' w y. rec rd' w = Some y \<Longrightarrow> rd' = rd \<longrightarrow> I w \<longrightarrow> I (snd y)"
      and *: "(case rand_int_128 rd' w of
        (Inl e, w1) \<Rightarrow> Some (Inl (Wrap ''certtmpl: serial: '' e []), w1)
      | (Inr n, w1) \<Rightarrow> if 0 < n then Some (Inr n, w1) else rec rd' w1) = Some y"
    obtain res w1 where d: "rand_int_128 rd' w = (res, w1)" by (metis surj_pair)
    show "rd' = rd \<longrightarrow> I w \<longrightarrow> I (snd y)"
    proof (intro impI)
      assume rd: "rd' = rd" and w: "I w"
      have v: "I w1" by (rule rand_int_preserves [OF assms d [unfolded rd] w])
      show "I (snd y)"
      proof (cases "\<exists>n. res = Inr n \<and> \<not> 0 < n")
        case True
        then have "rec rd w1 = Some y" using * d rd by auto
        from IH [OF this] v show ?thesis by simp
      next
        case False
        then have "snd y = w1" using * d by (cases res) (auto split: if_splits)
        then show ?thesis using v by simp
      qed
    qed
  qed
  then show "randomSerial rd w = Some (r, w') \<Longrightarrow> I w \<Longrightarrow> I w'" by fastforce
qed

lemma Leaf_preserves: "preserves I rd \<Longrightarrow> Leaf rd inp w = Some (r, w') \<Longrightarrow> I w \<Longrightarrow> I w'"
  by (auto simp: Leaf_def split: sum.splits option.splits if_splits dest: randomSerial_preserves)

lemma Generate_preserves: "preserves I rd \<Longrightarrow> Generate df (Some rd) w = (r, w') \<Longrightarrow> I w \<Longrightarrow> I w'"
  by (auto simp: Generate_def Let_def split: prod.splits sum.splits dest: read_full_preserves)

text \<open>
  A property of the world that every operation other than a write of a file preserves. It is what
  the pipelines rely on when they post comments and read files between a read and a write of the
  ledger.
\<close>

locale ledger_view =
  fixes gh :: "'w github" and I :: "'w \<Rightarrow> bool"
  assumes own_keeps: "preserves I (OwnComments gh i)"
    and post_keeps: "preserves I (PostComment gh i b)"
    and labels_keep: "preserves I (SetLabels gh i add_ls rem_ls)"
    and close_keeps: "preserves I (CloseIssue gh i)"
    and file_keeps: "preserves I (GetFile gh rp p)"
    and access_keeps: "preserves I (RepoAccessible gh rp)"
    and get_keeps: "preserves I (GetLedger gh a)"
begin

lemmas op_keeps = preservesD [OF own_keeps] preservesD [OF post_keeps] preservesD [OF labels_keep]
  preservesD [OF close_keeps] preservesD [OF file_keeps] preservesD [OF access_keeps] preservesD [OF get_keeps]

lemma terminal_keeps:
  assumes gh: "GH d = gh" and "Enroll.terminal d iss l c w = (r, w')" "I w"
  shows "I w'"
  using assms(2-) unfolding Enroll.terminal_def gh
  by (auto split: prod.splits sum.splits dest!: op_keeps)

lemma postChallenge_keeps:
  assumes gh: "GH d = gh" and "preserves I (Rand d)" and "postChallenge lib d n w = (r, w')" "I w"
  shows "I w'"
  using assms(2-) unfolding postChallenge_def gh
  by (auto split: prod.splits sum.splits dest!: op_keeps Generate_preserves)

lemma priorChallenge_keeps:
  assumes gh: "GH d = gh" and "priorChallenge d n w = (r, w')" "I w"
  shows "I w'"
  using assms(2-) unfolding priorChallenge_def gh
  by (auto split: prod.splits sum.splits dest!: op_keeps)

lemma info_not_found_keeps:
  assumes gh: "GH d = gh" and "info_not_found d iss rp w = (r, w')" "I w"
  shows "I w'"
  using assms(2-) unfolding info_not_found_def gh
  by (auto split: prod.splits sum.splits if_splits dest!: op_keeps terminal_keeps [OF gh])

lemma loadLedger_keeps:
  assumes gh: "GH d = gh" and "Enroll.loadLedger d a w = (r, w')" "I w"
  shows "I w'"
  using assms(2-) unfolding Enroll.loadLedger_def gh
  by (auto split: prod.splits sum.splits if_splits dest!: op_keeps)

lemma deliver_keeps:
  assumes gh: "GH d = gh" and "Enroll.deliver d iss a der ic w = (r, w')" "I w"
  shows "I w'"
  using assms(2-) unfolding Enroll.deliver_def gh
  by (auto simp: Let_def split: prod.splits sum.splits dest!: op_keeps)

lemma revoke_terminal_keeps:
  assumes gh: "RevGH d = gh" and "Revoke.terminal d iss l c w = (r, w')" "I w"
  shows "I w'"
  using assms(2-) unfolding Revoke.terminal_def gh
  by (auto split: prod.splits sum.splits dest!: op_keeps)

lemma revoke_load_keeps: "Revoke.loadLedger gh a w = (r, w') \<Longrightarrow> I w \<Longrightarrow> I w'"
  by (auto simp: Revoke.loadLedger_def split: prod.splits sum.splits if_splits dest!: op_keeps)

lemma revoke_deliver_keeps:
  assumes gh: "RevGH d = gh" and "Revoke.deliver d iss b w = (r, w')" "I w"
  shows "I w'"
  using assms(2-) unfolding Revoke.deliver_def gh
  by (auto split: prod.splits sum.splits dest!: op_keeps)

lemma already_keeps:
  assumes gh: "RevGH d = gh" and "already_revoked d iss w = (r, w')" "I w"
  shows "I w'"
  using assms(2-) unfolding already_revoked_def gh
  by (auto split: prod.splits sum.splits dest!: op_keeps revoke_terminal_keeps [OF gh])

end

interpretation fake_view: ledger_view fake_github "\<lambda>w. Ledgers w = L" for L
  by unfold_locales
     (auto simp: preserves_def fake_OwnComments_def fake_PostComment_def fake_SetLabels_def fake_CloseIssue_def
        fake_GetFile_def fake_RepoAccessible_def fake_GetLedger_def split: option.split)

interpretation trace_view: ledger_view "observed gh" "\<lambda>wt. puts (snd wt) = es" for gh es
  by unfold_locales (auto simp: preserves_def observe_def split: prod.split)

end
