(* ===== verification/Registry.thy ===== *)
theory Registry imports LedgerView Lifecycle StoredLedger begin

text \<open>
  The abstract registry of ledgers and its refinement: a poll of a bot on the in-memory GitHub leaves
  the registry as it is or makes one step of it, and what every sequence of such polls keeps.
\<close>

section \<open>The abstract registry\<close>

text \<open>
  A step for one appId, in its own terms: a first certificate makes a ledger that belongs to a
  repository, a certificate is added at the end of a ledger that is not reserved, or one certificate
  of a ledger is replaced by the same one, revoked from some time on.
\<close>

inductive registry_step :: "string \<Rightarrow> ledger option \<Rightarrow> ledger option \<Rightarrow> bool" for a where
  claims: "Status e = StatusActive \<Longrightarrow>
    registry_step a None (Some \<lparr>AppID = a, Owner = \<lparr>OwnerOrigin = ''github'', Repo = repo\<rparr>, ClaimedAt = t,
      Reserved = False, Certificates = Some [e]\<rparr>)"
| issues: "\<not> Reserved l \<Longrightarrow> Status e = StatusActive \<Longrightarrow>
    registry_step a (Some l) (Some (l\<lparr>Certificates := Some (certs l @ [e])\<rparr>))"
| revokes: "idx < length (certs l) \<Longrightarrow> same_identity (certs l ! idx) c \<Longrightarrow> Status c = StatusRevoked \<Longrightarrow> RevokedFrom c \<noteq> None \<Longrightarrow>
    registry_step a (Some l) (Some (l\<lparr>Certificates := Some ((certs l)[idx := c])\<rparr>))"

inductive_cases registry_stepE: "registry_step a ex ex'"

text \<open>The registry a client holds.\<close>

definition registry :: "client \<Rightarrow> string \<Rightarrow> ledger option" where
  "registry c a =
     (case Ledgers c a of
        None \<Rightarrow> None
      | Some b \<Rightarrow> (case Ledger.Parse (blob_content b) of Inl e \<Rightarrow> None | Inr l \<Rightarrow> Some l))"

definition well_formed :: "string \<Rightarrow> ledger \<Rightarrow> bool" where
  "well_formed a l \<longleftrightarrow> ledger_canonical l \<and> ledger_ok l \<and> Ledger.AppID l = a"

definition registered :: "client \<Rightarrow> bool" where
  "registered c \<longleftrightarrow>
     (\<forall>a b. Ledgers c a = Some b \<longrightarrow> (\<exists>l. Ledger.Parse (blob_content b) = Inr l \<and> well_formed a l))"

lemma registry_cong: "Ledgers c' = Ledgers c \<Longrightarrow> registry c' = registry c"
  by (simp add: registry_def fun_eq_iff)

lemma registered_cong: "Ledgers c' = Ledgers c \<Longrightarrow> registered c' = registered c"
  by (simp add: registered_def)

lemma held_cong:
  "Ledgers c' = Ledgers c \<Longrightarrow> holds_ledger c' a ex = holds_ledger c a ex"
  "Ledgers c' = Ledgers c \<Longrightarrow> ledger_sha c' a = ledger_sha c a"
  by (simp_all add: holds_ledger_def ledger_sha_def)

lemma holds_registry: "holds_ledger c a ex \<Longrightarrow> ex = registry c a"
  by (auto simp: holds_ledger_def registry_def split: option.splits)

lemma registered_well_formed: "registered c \<Longrightarrow> registry c a = Some l \<Longrightarrow> well_formed a l"
  by (fastforce simp: registered_def registry_def split: option.splits)

text \<open>A write of a file that reads back well formed.\<close>

lemma registry_write:
  assumes "Ledgers c' = (Ledgers c)(a \<mapsto> \<lparr>blob_content = data, blob_sha = s\<rparr>)" "Ledger.Parse data = Inr l"
  shows "registry c' = (registry c)(a \<mapsto> l)" "registered c \<Longrightarrow> well_formed a l \<Longrightarrow> registered c'"
  using assms by (auto simp: registry_def registered_def)

section \<open>What a step keeps\<close>

text \<open>The data that come from outside, as their types and sources have them: a clock and certificate
  times in the years 0 to 9999, an id of 64 bits.\<close>

definition outside_ok :: "'w crypto_lib \<Rightarrow> 'w Enroll.deps \<Rightarrow> issue \<Rightarrow> bool" where
  "outside_ok lib d iss \<longleftrightarrow>
     (\<forall>w. year_ok (fst (Clock d w))) \<and>
     (\<forall>der leaf. ParseCertificate lib der = Inr leaf \<longrightarrow> year_ok (XNotBefore leaf) \<and> year_ok (XNotAfter leaf)) \<and>
     int64 (AuthorUserID (Author iss))"

lemma entry_storable:
  "outside_ok lib d iss \<Longrightarrow> ParseCertificate lib der = Inr leaf \<Longrightarrow> cert_storable (ledger_entry lib iss leaf der)"
  by (simp add: cert_storable_def ledger_entry_def outside_ok_def)

lemma well_formed_stored: "well_formed a l \<Longrightarrow> stored l = l \<and> storable l \<and> ledger_ok l"
  by (simp add: well_formed_def stored_id)

lemma stored_well_formed: "storable l \<Longrightarrow> ledger_ok l \<Longrightarrow> AppID l = a \<Longrightarrow> well_formed a (stored l)"
  using ledger_ok_stored by (simp add: well_formed_def canonical_stored)

lemma next_storable:
  assumes "\<And>l. ex = Some l \<Longrightarrow> well_formed a l" "Valid a" "year_ok now" "cert_storable e" "Status e = StatusActive"
  shows "storable (next_ledger a repo now e ex) \<and> ledger_ok (next_ledger a repo now e ex) \<and> AppID (next_ledger a repo now e ex) = a"
proof (cases ex)
  case None
  then show ?thesis
    using assms(2-5)
    by (simp add: storable_def next_ledger_def append_cert_def new_ledger_def ledger_ok_def certs_def cert_ok_def)
next
  case (Some l)
  then show ?thesis
    using assms(1) [OF Some] assms(4,5) stored_id [of l]
    by (simp add: well_formed_def next_ledger_def append_cert_def storable_def ledger_ok_def)
       (auto simp: certs_def cert_ok_def)
qed

lemma next_well_formed:
  assumes "\<And>l. ex = Some l \<Longrightarrow> well_formed a l" "Valid a" "year_ok now" "cert_storable e" "Status e = StatusActive"
  shows "well_formed a (stored (next_ledger a repo now e ex))"
  using next_storable [OF assms] stored_well_formed by blast

lemma flip_storable:
  assumes "well_formed a l" "idx < length (certs l)" "year_ok (RevFrom rv)"
  shows "storable (flip_at idx rv l) \<and> ledger_ok (flip_at idx rv l) \<and> AppID (flip_at idx rv l) = a"
proof -
  have l: "storable l" "ledger_ok l" "AppID l = a" using assms(1) by (simp_all add: well_formed_def stored_id)
  have "cert_storable (flip_cert rv (certs l ! idx))"
    using l(1) assms(2,3) by (auto simp: storable_def list_all_length cert_storable_def flip_cert_def)
  moreover have "certs (flip_at idx rv l) = (certs l)[idx := flip_cert rv (certs l ! idx)]" by (simp add: flip_at_def certs_def)
  moreover have "AppID (flip_at idx rv l) = AppID l" "ClaimedAt (flip_at idx rv l) = ClaimedAt l" by (simp_all add: flip_at_def)
  moreover have "cert_ok (flip_cert rv c)" for c by (simp add: cert_ok_def flip_cert_def)
  ultimately show ?thesis
    using l by (auto simp: storable_def ledger_ok_def list_all_iff dest!: set_update_subset_insert [THEN subsetD])
qed

lemma flip_well_formed:
  "well_formed a l \<Longrightarrow> idx < length (certs l) \<Longrightarrow> year_ok (RevFrom rv) \<Longrightarrow> well_formed a (stored (flip_at idx rv l))"
  using flip_storable stored_well_formed by blast

text \<open>The life of a certificate: nothing of a ledger is ever lost.\<close>

definition grows_to :: "ledger \<Rightarrow> ledger \<Rightarrow> bool" where
  "grows_to l l' \<longleftrightarrow>
     Ledger.AppID l' = Ledger.AppID l \<and> Ledger.Owner l' = Ledger.Owner l \<and> ClaimedAt l' = ClaimedAt l \<and>
     Reserved l' = Reserved l \<and> length (certs l) \<le> length (certs l') \<and>
     (\<forall>i < length (certs l). same_identity (certs l ! i) (certs l' ! i) \<and>
        (Status (certs l ! i) = StatusRevoked \<longrightarrow> Status (certs l' ! i) = StatusRevoked))"

lemma same_identity_trans: "same_identity c c' \<Longrightarrow> same_identity c' c'' \<Longrightarrow> same_identity c c''"
  by (simp add: same_identity_def)

lemma grows_refl: "grows_to l l"
  by (simp add: grows_to_def same_identity_def)

lemma grows_trans: "grows_to l l' \<Longrightarrow> grows_to l' l'' \<Longrightarrow> grows_to l l''"
  unfolding grows_to_def by (force intro: same_identity_trans)

lemma well_formed_entry: "well_formed a l \<Longrightarrow> idx < length (certs l) \<Longrightarrow> cert_storable (certs l ! idx)"
  using well_formed_stored by (simp add: storable_def list_all_length)

text \<open>What the code writes is such a step.\<close>

lemma next_opens_step:
  assumes "\<And>l. ex = Some l \<Longrightarrow> \<not> Reserved l \<and> well_formed a l" "Valid a" "Status e = StatusActive"
  shows "registry_step a ex (Some (stored (next_ledger a repo now e ex)))"
proof -
  have st: "Status (stored_cert e) = StatusActive"
    using assms(3) by (simp add: stored_cert_def StatusActive_def is_ascii_def)
  show ?thesis
  proof (cases ex)
    case None
    have "to_valid a = a" "to_valid ''github'' = ''github''" using Valid_ascii [OF assms(2)] by (simp_all add: is_ascii_def)
    then show ?thesis
      using None registry_step.claims [OF st, of a "to_valid repo" "whole now"]
      by (simp add: next_ledger_def append_cert_def new_ledger_def OriginGitHub_def certs_def stored_def stored_owner_def)
  next
    case (Some l)
    have "stored (append_cert e l) = (stored l)\<lparr>Certificates := Some (map stored_cert (certs l) @ [stored_cert e])\<rparr>"
      by (simp add: append_cert_def stored_def)
    moreover have "stored l = l" "map stored_cert (certs l) = certs l"
      using well_formed_stored assms(1) [OF Some] certs_stored [of l] by metis+
    ultimately show ?thesis
      using registry_step.issues [OF _ st, of l a] assms(1) [OF Some] by (simp add: Some next_ledger_def)
  qed
qed

lemma accepted_not_reserved: "Decide (Some l) repo \<in> {DecisionNewClaim, DecisionAllowed} \<Longrightarrow> \<not> Reserved l"
  by (auto simp: Decide_def)

lemma next_is_step:
  assumes "Decide ex repo \<in> {DecisionNewClaim, DecisionAllowed}" "\<And>l. ex = Some l \<Longrightarrow> well_formed a l" "Valid a"
    "Status e = StatusActive"
  shows "registry_step a ex (Some (stored (next_ledger a repo now e ex)))"
  by (rule next_opens_step [OF _ assms(3,4)]) (use assms(1,2) accepted_not_reserved in blast)

lemma flip_is_step:
  assumes "well_formed a l" "idx < length (certs l)"
  shows "registry_step a (Some l) (Some (stored (flip_at idx rv l)))"
proof -
  let ?c = "stored_cert (flip_cert rv (certs l ! idx))"
  have id: "stored l = l" "map stored_cert (certs l) = certs l"
    using well_formed_stored [OF assms(1)] certs_stored [of l] by metis+
  then have "stored_cert (certs l ! idx) = certs l ! idx" using assms(2) by (metis nth_map)
  then have "same_identity (certs l ! idx) ?c"
    by (simp add: same_identity_def stored_cert_def flip_cert_def certificate.splits) (metis certificate.select_convs)
  moreover have "Status ?c = StatusRevoked" "RevokedFrom ?c \<noteq> None"
    by (simp_all add: stored_cert_def flip_cert_def StatusRevoked_def is_ascii_def)
  moreover have "stored (flip_at idx rv l) = (stored l)\<lparr>Certificates := Some (map stored_cert ((certs l)[idx := flip_cert rv (certs l ! idx)]))\<rparr>"
    by (simp add: flip_at_def stored_def)
  ultimately show ?thesis
    using registry_step.revokes [OF assms(2), of ?c a] id by (simp add: map_update)
qed

lemma step_grows: "registry_step a (Some l) ex' \<Longrightarrow> \<exists>l'. ex' = Some l' \<and> grows_to l l'"
proof (erule registry_stepE)
  fix l0 e assume "Some l = Some l0" "ex' = Some (l0\<lparr>Certificates := Some (certs l0 @ [e])\<rparr>)"
  moreover have "grows_to l0 (l0\<lparr>Certificates := Some (certs l0 @ [e])\<rparr>)"
    by (simp add: grows_to_def certs_def nth_append same_identity_def)
  ultimately show ?thesis by blast
next
  fix idx l0 c assume l0: "Some l = Some l0" "ex' = Some (l0\<lparr>Certificates := Some ((certs l0)[idx := c])\<rparr>)"
    and i: "idx < length (certs l0)" "same_identity (certs l0 ! idx) c" "Status c = StatusRevoked"
  have certs: "certs (l0\<lparr>Certificates := Some ((certs l0)[idx := c])\<rparr>) = (certs l0)[idx := c]" by (simp add: certs_def)
  have "same_identity c' c'" for c' by (simp add: same_identity_def)
  then have "grows_to l0 (l0\<lparr>Certificates := Some ((certs l0)[idx := c])\<rparr>)"
    using i unfolding grows_to_def certs by (auto simp: nth_list_update)
  then show ?thesis using l0 by blast
qed simp

section \<open>A poll of the issuer\<close>

text \<open>The steps that keep the ledgers, started from any world.\<close>

lemmas fake_keeps = fake_view.op_keeps [OF _ refl, unfolded fake_github_simps]

lemma put_ledger_Ledgers: "\<exists>s. Ledgers (put_ledger c a data) = (Ledgers c)(a \<mapsto> \<lparr>blob_content = data, blob_sha = s\<rparr>)"
  by (rule exI [of _ "sha_name (Suc (nextSHA c))"]) (simp add: put_ledger_def mintSHA_def Let_def)

lemma put_conflict_fails:
  "FailNextPutWithConflict c \<Longrightarrow> fake_PutLedger a data sha m c = (Inl ErrConflict, c\<lparr>FailNextPutWithConflict := False\<rparr>)"
  by (simp add: fake_PutLedger_def checkPrevSHA_def)

lemma commit_changes:
  assumes gh: "GH d = fake_github"
  shows "holds_ledger c a ex \<Longrightarrow> commit_loop d a repo e now n lc ex (ledger_sha c a) c = (r, c') \<Longrightarrow>
    Ledgers c' = Ledgers c \<or>
    (\<exists>data s. Marshal (next_ledger a repo now e ex) = Inr data \<and>
       Ledgers c' = (Ledgers c)(a \<mapsto> \<lparr>blob_content = data, blob_sha = s\<rparr>))"
proof (induction n arbitrary: lc c)
  case 0
  then show ?case by (simp add: Let_def)
next
  case (Suc n)
  obtain data where data: "Marshal (next_ledger a repo now e ex) = Inr data" by (simp add: Marshal_def)
  show ?case
  proof (cases "FailNextPutWithConflict c")
    case False
    then have "c' = put_ledger c a data" using Suc.prems(2) data by (simp add: gh put_fake)
    then show ?thesis using data put_ledger_Ledgers [of c a data] by blast
  next
    case True
    let ?c1 = "c\<lparr>FailNextPutWithConflict := False\<rparr>"
    have L: "Ledgers ?c1 = Ledgers c" by simp
    have h: "holds_ledger ?c1 a ex" using Suc.prems(1) held_cong(1) [OF L] by simp
    have "commit_loop d a repo e now n (Some ErrConflict) ex (ledger_sha ?c1 a) ?c1 = (r, c')"
      using Suc.prems(2) data True load_fake [OF gh h] by (simp add: gh put_conflict_fails)
    from Suc.IH [OF h this] show ?thesis unfolding L .
  qed
qed

text \<open>Collaborators that leave the ledgers alone.\<close>

definition separate :: "client Enroll.deps \<Rightarrow> bool" where
  "separate d \<longleftrightarrow> GH d = fake_github \<and> keeps Ledgers (Clock d) \<and> keeps Ledgers (Rand d) \<and>
     (\<forall>t p. keeps Ledgers (Sign (Signer d) t p))"

lemma separateD:
  assumes "separate d"
  shows "GH d = fake_github" "keeps Ledgers (Clock d)" "keeps Ledgers (Rand d)" "keeps Ledgers (Sign (Signer d) t p)"
  using assms by (simp_all add: separate_def)

definition issued_into :: "client crypto_lib \<Rightarrow> client Enroll.deps \<Rightarrow> issue \<Rightarrow> string \<Rightarrow> string \<Rightarrow> ledger option \<Rightarrow> client \<Rightarrow> client \<Rightarrow> bool" where
  "issued_into lib d iss repo a ex c c' \<longleftrightarrow>
     (\<exists>c0 leaf der data s. ParseCertificate lib der = Inr leaf \<and>
        Marshal (next_ledger a repo (fst (Clock d c0)) (ledger_entry lib iss leaf der) ex) = Inr data \<and>
        Ledgers c' = (Ledgers c)(a \<mapsto> \<lparr>blob_content = data, blob_sha = s\<rparr>))"

lemma issue_changes:
  assumes d: "separate d" and held: "holds_ledger c a ex"
    and run: "issueCert lib d iss f a pub ex (ledger_sha c a) c = Some (r, c')"
  shows "Ledgers c' = Ledgers c \<or> issued_into lib d iss (FormRepo f) a ex c c'"
proof -
  note gh = separateD(1) [OF d]
  obtain now c1 where clk: "Clock d c = (now, c1)" by (metis surj_pair)
  have L1: "Ledgers c1 = Ledgers c" by (rule keepsD [OF separateD(2) [OF d] clk])
  let ?inp = "\<lparr>InAppID = a, InOwner = ownerOf (FormRepo f), InOrigin = OriginGitHub, InPublicKey = pub,
    InNotBefore = now, InIssuer = IssuerCertificate (Signer d)\<rparr>"
  obtain lr c2 where leaf: "Leaf (Rand d) ?inp c1 = Some (lr, c2)"
    using run clk by (cases "Leaf (Rand d) ?inp c1") (auto simp: issueCert_def Let_def)
  have L2: "Ledgers c2 = Ledgers c" using Leaf_preserves [OF keeps_preserves [OF separateD(3) [OF d]] leaf refl] L1 by simp
  show ?thesis
  proof (cases lr)
    case (Inl e)
    then show ?thesis using run clk leaf L2 by (simp add: issueCert_def Let_def)
  next
    case (Inr tmpl)
    obtain sr c3 where sg: "Sign (Signer d) tmpl pub c2 = (sr, c3)" by (metis surj_pair)
    have L3: "Ledgers c3 = Ledgers c" using keepsD [OF separateD(4) [OF d] sg] L2 by simp
    show ?thesis
    proof (cases "\<exists>der lf. sr = Inr der \<and> ParseCertificate lib der = Inr lf")
      case False
      then have "c' = c3"
        using run clk leaf Inr sg by (cases sr; cases "ParseCertificate lib (projr sr)") (auto simp: issueCert_def Let_def)
      then show ?thesis using L3 by simp
    next
      case True
      then obtain der lf where der: "sr = Inr der" "ParseCertificate lib der = Inr lf" by blast
      obtain t c4 where clk2: "Clock d c3 = (t, c4)" by (metis surj_pair)
      have L4: "Ledgers c4 = Ledgers c" using keepsD [OF separateD(2) [OF d] clk2] L3 by simp
      let ?e = "ledger_entry lib iss lf der"
      obtain cr c5 where loop: "commit_loop d a (FormRepo f) ?e t Enroll.maxLedgerRetries None ex (ledger_sha c4 a) c4 = (cr, c5)"
        by (metis surj_pair)
      have commit: "commitLedger d a (FormRepo f) ?e ex (ledger_sha c a) c3 = (cr, c5)"
        using loop clk2 held_cong(2) [OF L4] by (simp add: commitLedger_def)
      have "Ledgers c' = Ledgers c5"
        using run clk leaf Inr sg der commit
        by (cases cr) (auto simp: issueCert_def Let_def dest!: fake_view.deliver_keeps [OF gh _ refl])
      moreover have "Ledgers c5 = Ledgers c4 \<or>
          (\<exists>data s. Marshal (next_ledger a (FormRepo f) t ?e ex) = Inr data \<and>
             Ledgers c5 = (Ledgers c4)(a \<mapsto> \<lparr>blob_content = data, blob_sha = s\<rparr>))"
        by (rule commit_changes [OF gh _ loop]) (use held held_cong(1) [OF L4] in simp)
      moreover have "t = fst (Clock d c3)" by (simp add: clk2)
      ultimately show ?thesis using der(2) L4 unfolding issued_into_def by metis
    qed
  qed
qed

text \<open>A whole poll: nothing, or an issue to an accepted repository.\<close>

definition issuer_change :: "client crypto_lib \<Rightarrow> client Enroll.deps \<Rightarrow> issue \<Rightarrow> client \<Rightarrow> client \<Rightarrow> bool" where
  "issuer_change lib d iss c c' \<longleftrightarrow> Ledgers c' = Ledgers c \<or>
     (\<exists>f a ex. EnrollForm.parseForm (IssueBody iss) = Inr f \<and> Valid a \<and> holds_ledger c a ex \<and>
        Decide ex (FormRepo f) \<in> {DecisionNewClaim, DecisionAllowed} \<and> issued_into lib d iss (FormRepo f) a ex c c')"

lemma decide_changes:
  assumes d: "separate d" and f: "EnrollForm.parseForm (IssueBody iss) = Inr f" "Valid a"
    and run: "decide_and_issue lib d iss f req a c = Some (r, c')"
  shows "issuer_change lib d iss c c'"
proof -
  note gh = separateD(1) [OF d]
  obtain lr c1 where load: "Enroll.loadLedger d a c = (lr, c1)" by (metis surj_pair)
  have L1: "Ledgers c1 = Ledgers c" by (rule fake_view.loadLedger_keeps [OF gh load refl])
  show ?thesis
  proof (cases "\<exists>ex sha. lr = Inr (ex, sha) \<and> Decide ex (FormRepo f) \<in> {DecisionNewClaim, DecisionAllowed}")
    case False
    then have "Ledgers c' = Ledgers c1"
      using run load
      by (auto simp: decide_and_issue_def split: sum.splits decision.splits dest!: fake_view.terminal_keeps [OF gh _ refl])
    then show ?thesis using L1 by (simp add: issuer_change_def)
  next
    case True
    then obtain ex sha where ex: "lr = Inr (ex, sha)" "Decide ex (FormRepo f) \<in> {DecisionNewClaim, DecisionAllowed}" by blast
    have held: "holds_ledger c a ex" and sha: "sha = ledger_sha c a" and c1: "c1 = c"
      using load ex(1)
      by (auto simp: Enroll.loadLedger_def gh fake_GetLedger_def holds_ledger_def ledger_sha_def split: option.splits sum.splits)
    have "issueCert lib d iss f a (ReqPublicKey req) ex (ledger_sha c a) c = Some (r, c')"
      using run load ex c1 sha by (auto simp: decide_and_issue_def)
    from issue_changes [OF d held this] show ?thesis
      using f held ex(2) unfolding issuer_change_def by blast
  qed
qed

lemma issuer_change_from:
  assumes "Ledgers c1 = Ledgers c" "issuer_change lib d iss c1 c'"
  shows "issuer_change lib d iss c c'"
  using assms held_cong(1) [OF assms(1)] unfolding issuer_change_def issued_into_def by (simp only: assms(1))

lemma challenge_changes:
  assumes d: "separate d" and f: "EnrollForm.parseForm (IssueBody iss) = Inr f" "Valid a"
    and run: "challenge_phase lib d iss f req a c = Some (r, c')"
  shows "issuer_change lib d iss c c'"
proof -
  note gh = separateD(1) [OF d]
  note step = fake_view.terminal_keeps [OF gh _ refl]
    fake_view.postChallenge_keeps [OF gh keeps_preserves [OF separateD(3) [OF d]] _ refl]
    fake_view.priorChallenge_keeps [OF gh _ refl] keepsD [OF separateD(2) [OF d]] fake_keeps
  consider "Ledgers c' = Ledgers c" | c1 where "Ledgers c1 = Ledgers c" "decide_and_issue lib d iss f req a c1 = Some (r, c')"
    using run unfolding challenge_phase_def gh
    by (auto split: prod.splits sum.splits option.splits if_splits dest!: step)
  then show ?thesis
  proof cases
    case 1
    then show ?thesis by (simp add: issuer_change_def)
  next
    case 2
    show ?thesis by (rule issuer_change_from [OF 2(1) decide_changes [OF d f 2(2)]])
  qed
qed

lemma Process_changes:
  assumes d: "separate d" and run: "Enroll.Process lib xml d iss c = Some (r, c')"
  shows "issuer_change lib d iss c c'"
proof -
  note gh = separateD(1) [OF d]
  consider "Ledgers c' = Ledgers c"
    | f req a c1 where "EnrollForm.parseForm (IssueBody iss) = Inr f" "Valid a" "Ledgers c1 = Ledgers c"
        "challenge_phase lib d iss f req a c1 = Some (r, c')"
    using run unfolding Enroll.Process_def gh
    by (auto simp: ValidateStrict_def split: prod.splits sum.splits if_splits
        dest!: fake_view.terminal_keeps [OF gh _ refl] fake_view.info_not_found_keeps [OF gh _ refl] fake_keeps)
  then show ?thesis
  proof cases
    case 1
    then show ?thesis by (simp add: issuer_change_def)
  next
    case 2
    show ?thesis by (rule issuer_change_from [OF 2(3) challenge_changes [OF d 2(1,2,4)]])
  qed
qed

section \<open>A poll of the revoker\<close>

lemma apply_changes:
  "holds_ledger c a ex \<Longrightarrow> apply_loop fake_github a fnd rv n lc ex (ledger_sha c a) c = (r, c') \<Longrightarrow>
    Ledgers c' = Ledgers c \<or>
    (\<exists>l idx data s. ex = Some l \<and> fnd ex = Some idx \<and> Marshal (flip_at idx rv l) = Inr data \<and>
       Ledgers c' = (Ledgers c)(a \<mapsto> \<lparr>blob_content = data, blob_sha = s\<rparr>))"
proof (induction n arbitrary: lc c)
  case 0
  then show ?case by (simp add: Let_def)
next
  case (Suc n)
  show ?case
  proof (cases "\<exists>idx l. fnd ex = Some idx \<and> ex = Some l")
    case False
    then have "c' = c" using Suc.prems(2) by (cases "fnd ex"; cases ex) auto
    then show ?thesis by simp
  next
    case True
    then obtain idx l where fl: "fnd ex = Some idx" "ex = Some l" by blast
    obtain data where data: "Marshal (flip_at idx rv l) = Inr data" by (simp add: Marshal_def)
    show ?thesis
    proof (cases "FailNextPutWithConflict c")
      case False
      then have "c' = put_ledger c a data" using Suc.prems(2) data fl by (simp add: Let_def put_fake)
      then show ?thesis using data fl put_ledger_Ledgers [of c a data] by blast
    next
      case True
      let ?c1 = "c\<lparr>FailNextPutWithConflict := False\<rparr>"
      have L: "Ledgers ?c1 = Ledgers c" by simp
      have h: "holds_ledger ?c1 a ex" using Suc.prems(1) held_cong(1) [OF L] by simp
      have load: "Revoke.loadLedger fake_github a ?c1 = (Inr (ex, ledger_sha ?c1 a), ?c1)"
        using h by (auto simp: Revoke.loadLedger_def fake_GetLedger_def holds_ledger_def ledger_sha_def split: option.splits)
      have "apply_loop fake_github a fnd rv n (Some ErrConflict) ex (ledger_sha ?c1 a) ?c1 = (r, c')"
        using Suc.prems(2) data True load fl by (simp add: Let_def put_conflict_fails)
      from Suc.IH [OF h this] show ?thesis unfolding L .
    qed
  qed
qed

text \<open>A flip with a request that \<open>P\<close> allows for the entry.\<close>

definition revoker_change :: "(certificate \<Rightarrow> revocation \<Rightarrow> bool) \<Rightarrow> client \<Rightarrow> client \<Rightarrow> bool" where
  "revoker_change P c c' \<longleftrightarrow> Ledgers c' = Ledgers c \<or>
     (\<exists>a l idx rv data s. holds_ledger c a (Some l) \<and> idx < length (certs l) \<and> P (certs l ! idx) rv \<and>
        Marshal (flip_at idx rv l) = Inr data \<and> Ledgers c' = (Ledgers c)(a \<mapsto> \<lparr>blob_content = data, blob_sha = s\<rparr>))"

lemma apply_revoker_change:
  assumes "holds_ledger c a (Some l)" "fnd (Some l) = Some idx" "idx < length (certs l)" "P (certs l ! idx) rv"
    and "applyRevocation fake_github a fnd rv (Some l) (ledger_sha c a) c = (r, c')"
  shows "revoker_change P c c'"
  using apply_changes [OF assms(1) assms(5) [unfolded applyRevocation_def]]
proof (elim disjE exE conjE)
  fix l' idx' data s
  assume "Some l = Some l'" "fnd (Some l) = Some idx'" "Marshal (flip_at idx' rv l') = Inr data"
    "Ledgers c' = (Ledgers c)(a \<mapsto> \<lparr>blob_content = data, blob_sha = s\<rparr>)"
  then show ?thesis using assms(1-4) unfolding revoker_change_def by (metis option.inject)
qed (simp add: revoker_change_def)

lemma load_held:
  "Revoke.loadLedger fake_github a c = (Inr (ex, sha), c1) \<Longrightarrow> holds_ledger c a ex \<and> sha = ledger_sha c a \<and> c1 = c"
  by (auto simp: Revoke.loadLedger_def fake_GetLedger_def holds_ledger_def ledger_sha_def split: option.splits sum.splits)

lemma revoker_change_from:
  "revoker_change P c c1 \<Longrightarrow> Ledgers c' = Ledgers c1 \<Longrightarrow> revoker_change P c c'"
  "Ledgers c1 = Ledgers c \<Longrightarrow> revoker_change P c1 c' \<Longrightarrow> revoker_change P c c'"
  using held_cong(1) [of c1 c] by (simp_all only: revoker_change_def simp_thms)

definition self_service :: "certificate \<Rightarrow> revocation \<Rightarrow> bool" where
  "self_service c rv \<longleftrightarrow> rv = self_revocation (NotBefore c)"

lemma match_changes:
  assumes d: "RevGH d = fake_github" and run: "match_and_revoke lib d iss vres a c = (r, c')"
  shows "revoker_change self_service c c'"
proof -
  let ?fp = "Fingerprint lib (Raw (SignerCert vres))"
  note step = fake_view.revoke_terminal_keeps [OF d _ refl] fake_view.already_keeps [OF d _ refl]
    fake_view.revoke_deliver_keeps [OF d _ refl]
  obtain lr c1 where load: "Revoke.loadLedger fake_github a c = (lr, c1)" by (metis surj_pair)
  have L1: "Ledgers c1 = Ledgers c" by (rule fake_view.revoke_load_keeps [OF load refl])
  show ?thesis
  proof (cases "\<exists>l sha idx. lr = Inr (Some l, sha) \<and> findByFingerprint (Some l) ?fp = Some idx \<and> Status (certs l ! idx) \<noteq> StatusRevoked")
    case False
    then have "Ledgers c' = Ledgers c1"
      using run load d
      by (auto simp: match_and_revoke_def Let_def split: sum.splits option.splits if_splits dest!: step)
    then show ?thesis using L1 by (simp add: revoker_change_def)
  next
    case True
    then obtain l sha idx where l: "lr = Inr (Some l, sha)" "findByFingerprint (Some l) ?fp = Some idx"
      "Status (certs l ! idx) \<noteq> StatusRevoked" by blast
    have held: "holds_ledger c a (Some l)" and sha: "sha = ledger_sha c a" and c1: "c1 = c"
      using load_held [OF load [unfolded l(1)]] by auto
    let ?rv = "self_revocation (NotBefore (certs l ! idx))"
    obtain ar c2 where ap: "applyRevocation fake_github a (\<lambda>lg. findByFingerprint lg ?fp) ?rv (Some l) (ledger_sha c a) c = (ar, c2)"
      by (metis surj_pair)
    have "Ledgers c' = Ledgers c2"
      using run load d l ap c1 sha
      by (cases ar) (auto simp: match_and_revoke_def Let_def self_revocation_def dest!: step)
    moreover have "revoker_change self_service c c2"
      by (rule apply_revoker_change [OF held l(2) _ _ ap])
         (use l(2) in \<open>auto simp: self_service_def findByFingerprint_def find_index_Some\<close>)
    ultimately show ?thesis by (metis revoker_change_from(1))
  qed
qed

lemma revoke_changes:
  assumes d: "RevGH d = fake_github" "\<And>b. keeps Ledgers (Verify (RevVerifier d) b)"
    and run: "Revoke.Process lib d iss c = (r, c')"
  shows "revoker_change self_service c c'"
proof -
  consider "Ledgers c' = Ledgers c"
    | vres a c1 where "Ledgers c1 = Ledgers c" "match_and_revoke lib d iss vres a c1 = (r, c')"
    using run unfolding Revoke.Process_def
    by (auto split: prod.splits sum.splits if_splits
        dest!: fake_view.revoke_terminal_keeps [OF d(1) _ refl] keepsD [OF d(2)])
  then show ?thesis
  proof cases
    case 1
    then show ?thesis by (simp add: revoker_change_def)
  next
    case 2
    show ?thesis by (rule revoker_change_from(2) [OF 2(1) match_changes [OF d(1) 2(2)]])
  qed
qed

section \<open>A privileged run\<close>

definition by_operator :: "privileged_request \<Rightarrow> certificate \<Rightarrow> revocation \<Rightarrow> bool" where
  "by_operator req c rv \<longleftrightarrow>
     RevReason rv = PrivReason req \<and> RevActor rv = PrivActor req \<and>
     resolve_from (PrivRevokedFrom req) (NotBefore c) = Inr (RevFrom rv)"

lemma privileged_changes:
  assumes d: "PrivGH d = fake_github" and run: "PrivilegedProcess d req c = (r, c')"
  shows "revoker_change (by_operator req) c c'"
proof -
  let ?s = "trim_space (PrivSerial req)" and ?a = "PrivAppID req"
  obtain lr c1 where load: "Revoke.loadLedger fake_github ?a c = (lr, c1)" by (metis surj_pair)
  have L1: "Ledgers c1 = Ledgers c" by (rule fake_view.revoke_load_keeps [OF load refl])
  show ?thesis
  proof (cases "check_request req = None \<and> (\<exists>l sha idx t. lr = Inr (Some l, sha) \<and> findBySerial (Some l) ?s = Some idx \<and>
      resolve_from (PrivRevokedFrom req) (NotBefore (certs l ! idx)) = Inr t)")
    case False
    then have "c' = c \<or> c' = c1"
      using run load d
      by (auto simp: PrivilegedProcess_def Let_def split: sum.splits option.splits)
    then show ?thesis using L1 by (auto simp: revoker_change_def)
  next
    case True
    then obtain l sha idx t where l: "lr = Inr (Some l, sha)" "findBySerial (Some l) ?s = Some idx" "check_request req = None"
      "resolve_from (PrivRevokedFrom req) (NotBefore (certs l ! idx)) = Inr t" by blast
    have held: "holds_ledger c ?a (Some l)" and sha: "sha = ledger_sha c ?a" and c1: "c1 = c"
      using load_held [OF load [unfolded l(1)]] by auto
    let ?rv = "\<lparr>RevReason = PrivReason req, RevFrom = t, RevActor = PrivActor req\<rparr>"
    obtain ar c2 where ap: "applyRevocation fake_github ?a (\<lambda>lg. findBySerial lg ?s) ?rv (Some l) (ledger_sha c ?a) c = (ar, c2)"
      by (metis surj_pair)
    have "c' = c2"
      using run load d l ap c1 sha by (cases ar) (auto simp: PrivilegedProcess_def Let_def)
    moreover have "revoker_change (by_operator req) c c2"
      by (rule apply_revoker_change [OF held l(2) _ _ ap])
         (use l(2,4) in \<open>auto simp: by_operator_def findBySerial_def find_index_Some\<close>)
    ultimately show ?thesis by simp
  qed
qed

section \<open>Polls and the registry\<close>

text \<open>A request of the operator with a date of the years 0 to 9999.\<close>

definition operator_ok :: "privileged_request \<Rightarrow> bool" where
  "operator_ok req \<longleftrightarrow> (case PrivRevokedFrom req of None \<Rightarrow> True | Some t \<Rightarrow> year_ok t)"

text \<open>
  Everything that happens to the in-memory GitHub: polls of the issuer and of the revoker, runs of the
  privileged revocation, and changes of anything else than the ledgers from outside.
\<close>

inductive bot_poll :: "client \<Rightarrow> client \<Rightarrow> bool" where
  issuer: "separate d \<Longrightarrow> outside_ok lib d iss \<Longrightarrow> Enroll.Process lib xml d iss c = Some (r, c') \<Longrightarrow> bot_poll c c'"
| revoker: "RevGH d = fake_github \<Longrightarrow> (\<And>b. keeps Ledgers (Verify (RevVerifier d) b)) \<Longrightarrow>
    Revoke.Process lib d iss c = (r, c') \<Longrightarrow> bot_poll c c'"
| operator: "PrivGH d = fake_github \<Longrightarrow> operator_ok req \<Longrightarrow> PrivilegedProcess d req c = (r, c') \<Longrightarrow> bot_poll c c'"
| outside: "Ledgers c' = Ledgers c \<Longrightarrow> bot_poll c c'"

inductive_cases bot_pollE: "bot_poll c c'"

text \<open>One step of the registry at one appId, or none.\<close>

definition registry_moves :: "client \<Rightarrow> client \<Rightarrow> bool" where
  "registry_moves c c' \<longleftrightarrow> registered c' \<and>
     (registry c' = registry c \<or>
      (\<exists>a l. registry_step a (registry c a) (Some l) \<and> registry c' = (registry c)(a \<mapsto> l)))"

lemma moves_refl: "registered c \<Longrightarrow> Ledgers c' = Ledgers c \<Longrightarrow> registry_moves c c'"
  using registered_cong [of c' c] registry_cong [of c' c] by (simp only: registry_moves_def simp_thms)

lemma moves_write:
  assumes "registered c" "registry_step a (registry c a) (Some (stored l))"
    and l: "storable l \<and> ledger_ok l \<and> AppID l = a" and "Marshal l = Inr data"
    and "Ledgers c' = (Ledgers c)(a \<mapsto> \<lparr>blob_content = data, blob_sha = s\<rparr>)"
  shows "registry_moves c c'"
proof -
  have "Ledger.Parse data = Inr (stored l)" using Parse_Marshal_stored [OF _ _ assms(4)] l by blast
  moreover have "well_formed a (stored l)" using stored_well_formed l by blast
  ultimately show ?thesis
    using registry_write [OF assms(5)] assms(1,2) unfolding registry_moves_def by blast
qed

lemma issuer_moves:
  assumes reg: "registered c" and ok: "outside_ok lib d iss" and ch: "issuer_change lib d iss c c'"
  shows "registry_moves c c'"
  using ch [unfolded issuer_change_def issued_into_def]
proof (elim disjE exE conjE)
  assume "Ledgers c' = Ledgers c"
  then show ?thesis by (rule moves_refl [OF reg])
next
  fix f a ex c0 leaf der data s
  assume a: "Valid a" and held: "holds_ledger c a ex"
    and dec: "Decide ex (FormRepo f) \<in> {DecisionNewClaim, DecisionAllowed}" and leaf: "ParseCertificate lib der = Inr leaf"
    and data: "Marshal (next_ledger a (FormRepo f) (fst (Clock d c0)) (ledger_entry lib iss leaf der) ex) = Inr data"
    and L: "Ledgers c' = (Ledgers c)(a \<mapsto> \<lparr>blob_content = data, blob_sha = s\<rparr>)"
  let ?e = "ledger_entry lib iss leaf der" and ?now = "fst (Clock d c0)"
  have ex: "ex = registry c a" by (rule holds_registry [OF held])
  have wf: "well_formed a l" if "ex = Some l" for l using registered_well_formed [OF reg] that ex by simp
  have active: "Status ?e = StatusActive" by (simp add: ledger_entry_def)
  have now: "year_ok ?now" using ok by (simp add: outside_ok_def)
  show ?thesis
    using moves_write [OF reg _ next_storable [OF wf a now entry_storable [OF ok leaf] active] data L]
      next_is_step [OF dec wf a active] ex by simp
qed

lemma revoker_moves:
  assumes reg: "registered c" and ch: "revoker_change P c c'"
    and P: "\<And>e rv. cert_storable e \<Longrightarrow> P e rv \<Longrightarrow> year_ok (RevFrom rv)"
  shows "registry_moves c c'"
  using ch [unfolded revoker_change_def]
proof (elim disjE exE conjE)
  assume "Ledgers c' = Ledgers c"
  then show ?thesis by (rule moves_refl [OF reg])
next
  fix a l idx rv data s
  assume held: "holds_ledger c a (Some l)" and idx: "idx < length (certs l)" and p: "P (certs l ! idx) rv"
    and data: "Marshal (flip_at idx rv l) = Inr data" and L: "Ledgers c' = (Ledgers c)(a \<mapsto> \<lparr>blob_content = data, blob_sha = s\<rparr>)"
  have l: "registry c a = Some l" using holds_registry [OF held] by simp
  have wf: "well_formed a l" by (rule registered_well_formed [OF reg l])
  have "registry_step a (registry c a) (Some (stored (flip_at idx rv l)))"
    unfolding l by (rule flip_is_step [OF wf idx])
  from moves_write [OF reg this flip_storable [OF wf idx P [OF well_formed_entry [OF wf idx] p]] data L] show ?thesis .
qed

section \<open>Properties\<close>

lemma poll_moves: "registered c \<Longrightarrow> bot_poll c c' \<Longrightarrow> registry_moves c c'"
proof (erule bot_pollE)
  fix d lib iss xml r
  assume reg: "registered c" and "separate d" "outside_ok lib d iss" "Enroll.Process lib xml d iss c = Some (r, c')"
  then show ?thesis using issuer_moves Process_changes by blast
next
  fix d lib iss r
  assume reg: "registered c" and "RevGH d = fake_github" "\<And>b. keeps Ledgers (Verify (RevVerifier d) b)"
    "Revoke.Process lib d iss c = (r, c')"
  then have "revoker_change self_service c c'" using revoke_changes by blast
  then show ?thesis
    by (rule revoker_moves [OF reg]) (auto simp: self_service_def self_revocation_def cert_storable_def)
next
  fix d req r
  assume reg: "registered c" and d: "PrivGH d = fake_github" and ok: "operator_ok req"
    and run: "PrivilegedProcess d req c = (r, c')"
  have "year_ok t" if "resolve_from (PrivRevokedFrom req) (NotBefore e) = Inr t" "cert_storable e" for e t
    using that ok by (auto simp: resolve_from_def operator_ok_def cert_storable_def split: option.splits if_splits)
  then show ?thesis
    by (intro revoker_moves [OF reg privileged_changes [OF d run]]) (auto simp: by_operator_def)
next
  assume "registered c" "Ledgers c' = Ledgers c"
  then show ?thesis by (rule moves_refl)
qed

text \<open>C6: A poll of a bot refines the registry: on every state of the in-memory GitHub whose ledger files
  are well formed, a poll of the issuer, of the revoker or of the operator leaves well-formed files,
  and the registry they stand for either does not change or makes one step at one appId: a claim
  with a first certificate, a certificate added to a ledger that is not reserved, or one certificate
  revoked.\<close>
theorem poll_refines_registry:
  assumes "registered c" and "bot_poll c c'"
  shows "registered c' \<and>
    (registry c' = registry c \<or>
     (\<exists>a l. registry_step a (registry c a) (Some l) \<and> registry c' = (registry c)(a \<mapsto> l)))"
  using poll_moves [OF assms] by (simp only: registry_moves_def)

text \<open>However many polls run in whatever order, every ledger file reads back as a well-formed
  ledger of its appId, and nothing is lost: the owner and the date of the claim stay, every
  certificate stays in its place with its serial, fingerprint, validity, requester and issue, and
  a revoked one stays revoked.\<close>
theorem polls_keep_the_registry:
  assumes "registered c" and "bot_poll\<^sup>*\<^sup>* c c'"
  shows "registered c' \<and> (\<forall>a l. registry c a = Some l \<longrightarrow> (\<exists>l'. registry c' a = Some l' \<and> well_formed a l' \<and> grows_to l l'))"
proof -
  have "registered c' \<and> (\<forall>a l. registry c a = Some l \<longrightarrow> (\<exists>l'. registry c' a = Some l' \<and> grows_to l l'))"
    using assms(2)
  proof (induction rule: rtranclp_induct)
    case base
    then show ?case using assms(1) grows_refl by blast
  next
    case (step y z)
    have m: "registry_moves y z" using poll_moves step by blast
    have one: "\<exists>l'. registry z a = Some l' \<and> grows_to l l'" if "registry y a = Some l" for a l
      using m that grows_refl step_grows unfolding registry_moves_def by (metis fun_upd_apply option.inject)
    show ?case using m step.IH one grows_trans unfolding registry_moves_def by blast
  qed
  then show ?thesis using registered_well_formed by blast
qed

end
