(* ===== verification/WitnessesRegistry.thy ===== *)
theory WitnessesRegistry imports WitnessesRuns Registry begin

text \<open>
  Concrete polls for the properties of the registry.
\<close>

lemma ex_separate: "separate ex_issuer_deps"
  by (simp add: separate_def ex_issuer_deps_def keeps_def)

lemma ex_outside: "outside_ok ex_lib ex_issuer_deps (ex_issue ex_body)"
  using canonical_time [OF time_canonical_0(1)] canonical_time [OF time_canonical_0(2)]
  by (simp add: outside_ok_def ex_lib_def ex_issuer_deps_def ex_issue_def int64_def ex_leaf_def)

lemma ex_poll: "\<exists>c'. Enroll.Process ex_lib ex_xml ex_issuer_deps (ex_issue ex_body) ex_client = Some (Inr (), c')"
proof -
  have gh: "GH ex_issuer_deps = fake_github" and leaf: "ParseCertificate ex_lib ''der'' = Inr ex_leaf"
    and f: "\<not> FailNextPutWithConflict ex_client"
    by (simp_all add: ex_issuer_deps_def ex_client_def FakeClient.New_def)
  have cn: "CommonName (ReqSubject ex_request) = ''acme''" "ReqPublicKey ex_request \<noteq> None"
    by (simp_all add: ex_request_def ex_name_def empty_name_def)
  have "Valid ''acme''" by (simp add: Valid_iff is_lower_def appid_char_def)
  moreover obtain data where "Marshal (next_ledger ''acme'' (FormRepo ex_form) 0 (ledger_entry ex_lib (ex_issue ex_body) ex_leaf ''der'') None) = Inr data"
    by (simp add: Marshal_def)
  ultimately show ?thesis
    using ready_reaches_issue [OF ex_ready ex_steady gh] issue_fake [OF ex_steady gh f _ cn(2) leaf] cn(1) by simp
qed

lemma ex_empty_registered: "registered ex_client"
  by (simp add: registered_def ex_client_def FakeClient.New_def)

theorem poll_refines_registry_witness:
  "\<exists>c'. bot_poll ex_client c' \<and> registered c' \<and>
     (registry c' = registry ex_client \<or>
      (\<exists>a l. registry_step a (registry ex_client a) (Some l) \<and> registry c' = (registry ex_client)(a \<mapsto> l)))"
proof -
  obtain c' where "Enroll.Process ex_lib ex_xml ex_issuer_deps (ex_issue ex_body) ex_client = Some (Inr (), c')"
    using ex_poll by blast
  then have "bot_poll ex_client c'" by (rule bot_poll.issuer [OF ex_separate ex_outside])
  with poll_refines_registry [OF ex_empty_registered this] show ?thesis by blast
qed

lemma ex_held_ledgers: "Ledgers ex_held = [''acme'' \<mapsto> \<lparr>blob_content = ex_text, blob_sha = sha_name 1\<rparr>]"
  by (simp add: ex_held_def SetLedger_def mintSHA_def FakeClient.New_def Let_def)

lemma ex_held_registered: "registered ex_held" "registry ex_held ''acme'' = Some ex_ledger"
proof -
  have "Ledger.AppID ex_ledger = ''acme''" by (simp add: ex_ledger_def)
  then show "registered ex_held" "registry ex_held ''acme'' = Some ex_ledger"
    using ex_held_ledgers Parse_ex ex_ledger_ok by (auto simp: registered_def registry_def well_formed_def split: if_splits)
qed

theorem polls_keep_the_registry_witness:
  "\<exists>c' l'. bot_poll ex_held c' \<and> registered c' \<and> registry c' ''acme'' = Some l' \<and> grows_to ex_ledger l'"
proof -
  obtain r c' where run: "Revoke.Process ex_lib0 ex_rdeps (ex_issue ex_cms_body) ex_held = (r, c')" by (metis surj_pair)
  have "RevGH ex_rdeps = fake_github" "keeps Ledgers (Verify (RevVerifier ex_rdeps) b)" for b
    by (simp_all add: ex_rdeps_def keeps_def fake_Verify_def)
  then have p: "bot_poll ex_held c'" using bot_poll.revoker run by blast
  then have "bot_poll\<^sup>*\<^sup>* ex_held c'" by blast
  from polls_keep_the_registry [OF ex_held_registered(1) this] p ex_held_registered(2) show ?thesis by blast
qed

end
