(* ===== verification/HonestStore.thy ===== *)
theory HonestStore imports Registry NoLostUpdate begin

text \<open>
  The pipelines among other writers. The rely: between any two accesses of a client, and while one is
  under way, others may write any ledger, as long as every version they add is a step of the
  registry. The guarantee, proved once for every GitHub that keeps its files this way: a poll
  adds such steps only, whatever fails and whatever is lost on the way.
\<close>

section \<open>Honest histories\<close>

text \<open>The ledger that the latest version holds.\<close>

definition ledger_of :: "version list \<Rightarrow> ledger option" where
  "ledger_of vs =
     (case vs of [] \<Rightarrow> None
      | (c, s) # older \<Rightarrow> (case Ledger.Parse c of Inl e \<Rightarrow> None | Inr l \<Rightarrow> Some l))"

text \<open>One more version of a file: a well-formed ledger, one registry step from the version below.\<close>

inductive honest_write :: "string \<Rightarrow> version list \<Rightarrow> version list \<Rightarrow> bool" for a where
  honest_write: "Ledger.Parse c = Inr l \<Longrightarrow> well_formed a l \<Longrightarrow> registry_step a (ledger_of vs) (Some l) \<Longrightarrow>
    honest_write a vs ((c, s) # vs)"

inductive_cases honest_writeE: "honest_write a vs vs'"
inductive_simps honest_write_simps: "honest_write a vs vs'"

definition honest :: "('w \<Rightarrow> string \<Rightarrow> version list) \<Rightarrow> 'w \<Rightarrow> 'w \<Rightarrow> bool" where
  "honest hist w w' \<longleftrightarrow> (\<forall>a. (honest_write a)\<^sup>*\<^sup>* (hist w a) (hist w' a))"

text \<open>The latest version is readable, and not reserved.\<close>

definition sound :: "string \<Rightarrow> version list \<Rightarrow> bool" where
  "sound a vs \<longleftrightarrow> (vs = [] \<or> (\<exists>l. Ledger.Parse (fst (hd vs)) = Inr l \<and> well_formed a l))"

definition all_sound :: "('w \<Rightarrow> string \<Rightarrow> version list) \<Rightarrow> 'w \<Rightarrow> bool" where
  "all_sound hist w \<longleftrightarrow> (\<forall>a. sound a (hist w a))"

definition unreserved :: "version list \<Rightarrow> bool" where
  "unreserved vs \<longleftrightarrow> (\<forall>l. ledger_of vs = Some l \<longrightarrow> \<not> Reserved l)"

lemma honest_refl [simp]: "honest hist w w"
  by (simp add: honest_def)

lemma honest_trans [trans]: "honest hist w w1 \<Longrightarrow> honest hist w1 w2 \<Longrightarrow> honest hist w w2"
  unfolding honest_def by (meson rtranclp_trans)

lemma honest_suffix: "(honest_write a)\<^sup>*\<^sup>* vs vs' \<Longrightarrow> suffix vs vs'"
  by (induction rule: rtranclp_induct) (auto simp: suffix_def elim!: honest_writeE)

lemma honest_extends: "honest hist w w' \<Longrightarrow> extends hist w w'"
  unfolding honest_def extends_def using honest_suffix by blast

lemma honest_sound: "(honest_write a)\<^sup>*\<^sup>* vs vs' \<Longrightarrow> sound a vs \<Longrightarrow> sound a vs'"
  by (induction rule: rtranclp_induct) (auto simp: sound_def elim!: honest_writeE)

lemma honest_all_sound: "honest hist w w' \<Longrightarrow> all_sound hist w \<Longrightarrow> all_sound hist w'"
  by (auto simp: honest_def all_sound_def dest: honest_sound)

lemma sound_ledger: "sound a vs \<Longrightarrow> ledger_of vs = Some l \<Longrightarrow> well_formed a l"
  by (cases vs) (auto simp: sound_def ledger_of_def split: prod.splits)

lemma latest_ledger_of: "latest vs ex \<Longrightarrow> ledger_of vs = ex"
  by (auto simp: latest_def ledger_of_def split: list.splits)

lemma step_reserved:
  "registry_step a ex (Some l) \<Longrightarrow> (\<And>l0. ex = Some l0 \<Longrightarrow> \<not> Reserved l0) \<Longrightarrow> \<not> Reserved l"
  by (auto elim!: registry_stepE)

lemma honest_write_top:
  "honest_write a vs vs' \<Longrightarrow> \<exists>l. ledger_of vs' = Some l \<and> well_formed a l \<and> registry_step a (ledger_of vs) (Some l)"
  by (erule honest_writeE) (simp add: ledger_of_def)

lemma honest_unreserved: "(honest_write a)\<^sup>*\<^sup>* vs vs' \<Longrightarrow> unreserved vs \<Longrightarrow> unreserved vs'"
proof (induction rule: rtranclp_induct)
  case (step y z)
  then have y: "\<And>l. ledger_of y = Some l \<Longrightarrow> \<not> Reserved l" by (simp add: unreserved_def)
  from step.hyps(2) obtain l where "ledger_of z = Some l" "registry_step a (ledger_of y) (Some l)"
    using honest_write_top by blast
  then show ?case using step_reserved [OF _ y] by (simp add: unreserved_def)
qed

text \<open>Nothing is lost along honest writes.\<close>

lemma honest_grows:
  "(honest_write a)\<^sup>*\<^sup>* vs vs' \<Longrightarrow> ledger_of vs = Some l \<Longrightarrow> \<exists>l'. ledger_of vs' = Some l' \<and> grows_to l l'"
proof (induction rule: rtranclp_induct)
  case (step y z)
  then obtain l1 where l1: "ledger_of y = Some l1" "grows_to l l1" by blast
  from step.hyps(2) obtain l2 where "ledger_of z = Some l2" "registry_step a (Some l1) (Some l2)"
    using honest_write_top [of a y z] unfolding l1 by blast
  then show ?case using step_grows grows_trans [OF l1(2)] by blast
qed (simp add: grows_refl)

section \<open>The contract\<close>

text \<open>A call during which nobody writes anything but registry steps.\<close>

definition tame :: "('w \<Rightarrow> string \<Rightarrow> version list) \<Rightarrow> ('w \<Rightarrow> bool) \<Rightarrow> ('w \<Rightarrow> 'a \<times> 'w) \<Rightarrow> bool" where
  "tame hist good f \<longleftrightarrow> (\<forall>w r w'. good w \<longrightarrow> f w = (r, w') \<longrightarrow> good w' \<and> honest hist w w')"

text \<open>
  A write may be lost, and it may land although its answer is lost; if it lands, it stands on the
  version it names. All the rest that happens is honest.
\<close>

definition may_land :: "string \<Rightarrow> string \<Rightarrow> string \<Rightarrow> version list \<Rightarrow> version list \<Rightarrow> bool" where
  "may_land a c p vs vs' \<longleftrightarrow>
     (\<exists>older. (honest_write a)\<^sup>*\<^sup>* vs older \<and> (vs' = older \<or> (\<exists>s. vs' = (c, s) # older \<and> p = current_sha older)))"

locale honest_files = ledger_files +
  assumes own_tame: "tame hist good (OwnComments gh i)"
    and post_tame: "tame hist good (PostComment gh i b)"
    and labels_tame: "tame hist good (SetLabels gh i add_ls rem_ls)"
    and close_tame: "tame hist good (CloseIssue gh i)"
    and file_tame: "tame hist good (GetFile gh rp p)"
    and access_tame: "tame hist good (RepoAccessible gh rp)"
    and get_tame: "tame hist good (GetLedger gh a)"
    and get_missing: "good w \<Longrightarrow> GetLedger gh a w = (Inl e, w') \<Longrightarrow> errors_is e ErrNotFound \<Longrightarrow> hist w' a = []"
    and put_honest: "good w \<Longrightarrow> known_sha (hist w a) p \<Longrightarrow> PutLedger gh a c p m w = (ur, w') \<Longrightarrow>
      may_land a c p (hist w a) (hist w' a) \<and> (\<forall>b. b \<noteq> a \<longrightarrow> (honest_write b)\<^sup>*\<^sup>* (hist w b) (hist w' b))"

text \<open>The invariant of a run that started in \<open>w0\<close>.\<close>

definition stays :: "('w \<Rightarrow> string \<Rightarrow> version list) \<Rightarrow> ('w \<Rightarrow> bool) \<Rightarrow> 'w \<Rightarrow> 'w \<Rightarrow> bool" where
  "stays hist good w0 w \<longleftrightarrow> good w \<and> all_sound hist w \<and> honest hist w0 w"

lemma stays_start: "good w \<Longrightarrow> all_sound hist w \<Longrightarrow> stays hist good w w"
  by (simp add: stays_def)

lemma stays_trans: "stays hist good w0 w1 \<Longrightarrow> stays hist good w1 w2 \<Longrightarrow> stays hist good w0 w2"
  using honest_trans [of hist w0 w1 w2] by (simp add: stays_def)

lemma staysD: "stays hist good w0 w \<Longrightarrow> good w" "stays hist good w0 w \<Longrightarrow> all_sound hist w"
  "stays hist good w0 w \<Longrightarrow> stays hist good w w"
  by (simp_all add: stays_def)

lemma tame_preserves:
  assumes "tame hist good f"
  shows "preserves (stays hist good w0) f"
proof (rule preservesI)
  fix w r w' assume f: "f w = (r, w')" and s: "stays hist good w0 w"
  have "good w'" "honest hist w w'" using assms f s unfolding tame_def stays_def by blast+
  then show "stays hist good w0 w'"
    using s honest_all_sound [of hist w w'] honest_trans [of hist w0 w w'] by (simp add: stays_def)
qed

sublocale honest_files \<subseteq> view: ledger_view gh "stays hist good w0" for w0
  by (rule ledger_view.intro; rule tame_preserves)
     (rule own_tame post_tame labels_tame close_tame file_tame access_tame get_tame)+

text \<open>The collaborators of the pipelines, which may also take time.\<close>

definition tame_issuer :: "('w \<Rightarrow> string \<Rightarrow> version list) \<Rightarrow> ('w \<Rightarrow> bool) \<Rightarrow> 'w github \<Rightarrow> 'w Enroll.deps \<Rightarrow> bool" where
  "tame_issuer hist good gh d \<longleftrightarrow> GH d = gh \<and> tame hist good (Clock d) \<and> tame hist good (Rand d) \<and>
     (\<forall>t p. tame hist good (Sign (Signer d) t p))"

lemma tame_issuerD:
  assumes "tame_issuer hist good gh d"
  shows "GH d = gh" "tame hist good (Clock d)" "tame hist good (Rand d)" "tame hist good (Sign (Signer d) t p)"
  using assms by (simp_all add: tame_issuer_def)

definition tame_revoker :: "('w \<Rightarrow> string \<Rightarrow> version list) \<Rightarrow> ('w \<Rightarrow> bool) \<Rightarrow> 'w github \<Rightarrow> 'w Revoke.deps \<Rightarrow> bool" where
  "tame_revoker hist good gh d \<longleftrightarrow> RevGH d = gh \<and> (\<forall>b. tame hist good (Verify (RevVerifier d) b))"

section \<open>The write loops\<close>

context honest_files begin

text \<open>A write of a registry step on the version that was read.\<close>

lemma write_stays:
  assumes w: "good w" "all_sound hist w" and read: "was_read (hist w a) ex sha"
    and step: "\<And>older. (honest_write a)\<^sup>*\<^sup>* (hist w a) older \<Longrightarrow> ledger_of older = ex \<Longrightarrow>
      \<exists>l. Ledger.Parse data = Inr l \<and> well_formed a l \<and> registry_step a ex (Some l)"
    and put: "PutLedger gh a data sha m w = (ur, w')"
  shows "stays hist good w w'"
proof -
  have w': "good w'" using put_keeps [OF w(1) put] by simp
  note p = put_honest [OF w(1) was_read_known [OF read] put]
  then obtain older where o: "(honest_write a)\<^sup>*\<^sup>* (hist w a) older"
    and cases: "hist w' a = older \<or> (\<exists>s. hist w' a = (data, s) # older \<and> sha = current_sha older)"
    unfolding may_land_def by blast
  from cases have "(honest_write a)\<^sup>*\<^sup>* (hist w a) (hist w' a)"
  proof (elim disjE exE conjE)
    fix s assume h: "hist w' a = (data, s) # older" "sha = current_sha older"
    have "latest older ex" by (rule made_from [OF w' read honest_suffix [OF o] h])
    then have ex: "ledger_of older = ex" by (rule latest_ledger_of)
    with step [OF o ex] have "honest_write a older ((data, s) # older)" by (auto intro: honest_write.intros)
    then show ?thesis using o h(1) by simp
  qed (use o in simp)
  then have "honest hist w w'" using p unfolding honest_def by metis
  then show ?thesis using w w' honest_all_sound [of hist w w'] by (simp add: stays_def)
qed

text \<open>What a loader gives, on a file that stays sound.\<close>

lemma load_stays:
  assumes s: "stays hist good w0 w" and d: "GH d = gh" and load: "Enroll.loadLedger d a w = (Inr (ex, sha), w')"
  shows "stays hist good w0 w' \<and> was_read (hist w' a) ex sha \<and> ledger_of (hist w' a) = ex"
proof -
  obtain r where g: "GetLedger gh a w = (r, w')"
    using load d by (auto simp: Enroll.loadLedger_def split: prod.splits sum.splits if_splits)
  have "ledger_of (hist w' a) = ex"
  proof (cases r)
    case (Inl e)
    then have "ex = None" "errors_is e ErrNotFound" using load d g by (auto simp: Enroll.loadLedger_def split: if_splits)
    then show ?thesis using get_missing [OF staysD(1) [OF s] g [unfolded Inl]] by (simp add: ledger_of_def)
  next
    case (Inr cs)
    then show ?thesis
      using load d g get_found [OF staysD(1) [OF s]]
      by (cases cs) (fastforce simp: Enroll.loadLedger_def ledger_of_def split: sum.splits)
  qed
  then show ?thesis
    using view.loadLedger_keeps [OF d load s] enroll_load [OF staysD(1) [OF s] d load] by simp
qed

lemma revoke_load_stays:
  assumes s: "stays hist good w0 w" and load: "Revoke.loadLedger gh a w = (Inr (ex, sha), w')"
  shows "stays hist good w0 w' \<and> was_read (hist w' a) ex sha \<and> ledger_of (hist w' a) = ex"
proof -
  obtain r where g: "GetLedger gh a w = (r, w')"
    using load by (auto simp: Revoke.loadLedger_def split: prod.splits sum.splits if_splits)
  have "ledger_of (hist w' a) = ex"
  proof (cases r)
    case (Inl e)
    then have "ex = None" "errors_is e ErrNotFound" using load g by (auto simp: Revoke.loadLedger_def split: if_splits)
    then show ?thesis using get_missing [OF staysD(1) [OF s] g [unfolded Inl]] by (simp add: ledger_of_def)
  next
    case (Inr cs)
    then show ?thesis
      using load g get_found [OF staysD(1) [OF s]]
      by (cases cs) (fastforce simp: Revoke.loadLedger_def ledger_of_def split: sum.splits)
  qed
  then show ?thesis
    using view.revoke_load_keeps [OF load s] revoke_load [OF staysD(1) [OF s] load] by simp
qed

lemma commit_stays:
  assumes s: "stays hist good w0 w" and d: "GH d = gh" and a: "Valid a" and now: "year_ok now"
    and e: "cert_storable e" "Status e = StatusActive"
    and read: "was_read (hist w a) ex sha" and open_a: "unreserved (hist w a)"
    and run: "commit_loop d a repo e now n lc ex sha w = (r, w')"
  shows "stays hist good w0 w'"
  using s read open_a run
proof (induction n arbitrary: lc ex sha w)
  case 0
  then show ?case by (simp add: Let_def)
next
  case (Suc n)
  obtain data where data: "Marshal (next_ledger a repo now e ex) = Inr data" by (simp add: Marshal_def)
  obtain ur w1 where put: "PutLedger gh a data sha (issue_message a) w = (ur, w1)" by (metis surj_pair)
  note w = staysD [OF Suc.prems(1)]
  have s1: "stays hist good w w1"
  proof (rule write_stays [OF w(1,2) Suc.prems(2) _ put])
    fix older assume o: "(honest_write a)\<^sup>*\<^sup>* (hist w a) older" "ledger_of older = ex"
    let ?l = "next_ledger a repo now e ex"
    have so: "sound a older" using honest_sound [OF o(1)] w(2) by (simp add: all_sound_def)
    have ex: "well_formed a l \<and> \<not> Reserved l" if "ex = Some l" for l
      using sound_ledger [OF so] honest_unreserved [OF o(1) Suc.prems(3)] o(2) that by (simp add: unreserved_def)
    have st: "storable ?l \<and> ledger_ok ?l \<and> AppID ?l = a" by (rule next_storable [OF _ a now e]) (use ex in blast)
    then have "Ledger.Parse data = Inr (stored ?l)" using Parse_Marshal_stored [OF _ _ data] by blast
    moreover have "registry_step a ex (Some (stored ?l))"
      by (rule next_opens_step [OF _ a e(2)]) (use ex in blast)
    ultimately show "\<exists>l. Ledger.Parse data = Inr l \<and> well_formed a l \<and> registry_step a ex (Some l)"
      using st stored_well_formed by blast
  qed
  show ?case
  proof (cases "\<exists>er. ur = Inl er \<and> errors_is er ErrConflict")
    case False
    then have "w' = w1" using Suc.prems(4) data put d by (cases ur) auto
    then show ?thesis using stays_trans [OF Suc.prems(1) s1] by simp
  next
    case True
    then obtain er where er: "ur = Inl er" "errors_is er ErrConflict" by blast
    obtain lr w2 where load: "Enroll.loadLedger d a w1 = (lr, w2)" by (metis surj_pair)
    have s2: "stays hist good w w2" by (rule view.loadLedger_keeps [OF d load s1])
    show ?thesis
    proof (cases lr)
      case (Inl e2)
      then have "w' = w2" using Suc.prems(4) data put d er load by simp
      then show ?thesis using stays_trans [OF Suc.prems(1) s2] by simp
    next
      case (Inr es)
      then obtain ex2 sha2 where es: "lr = Inr (ex2, sha2)" by (cases es) auto
      have loop: "commit_loop d a repo e now n (Some er) ex2 sha2 w2 = (r, w')"
        using Suc.prems(4) data put d er load es by simp
      have "was_read (hist w2 a) ex2 sha2" using load_stays [OF s1 d load [unfolded es]] by simp
      moreover have "unreserved (hist w2 a)"
        using honest_unreserved [OF _ Suc.prems(3), of a "hist w2 a"] s2 by (simp add: stays_def honest_def)
      ultimately show ?thesis
        by (rule Suc.IH [OF stays_trans [OF Suc.prems(1) s2] _ _ loop])
    qed
  qed
qed

lemma apply_stays:
  assumes s: "stays hist good w0 w" and rv: "year_ok (RevFrom rv)"
    and fnd: "\<And>l idx. fnd (Some l) = Some idx \<Longrightarrow> idx < length (certs l)"
    and read: "was_read (hist w a) ex sha"
    and run: "apply_loop gh a fnd rv n lc ex sha w = (r, w')"
  shows "stays hist good w0 w'"
  using s read run
proof (induction n arbitrary: lc ex sha w)
  case 0
  then show ?case by (simp add: Let_def)
next
  case (Suc n)
  note w = staysD [OF Suc.prems(1)]
  show ?case
  proof (cases "\<exists>idx l. fnd ex = Some idx \<and> ex = Some l")
    case False
    then have "w' = w" using Suc.prems(3) by (cases "fnd ex"; cases ex) auto
    then show ?thesis using Suc.prems(1) by simp
  next
    case True
    then obtain idx l where fl: "fnd ex = Some idx" "ex = Some l" by blast
    then have idx: "idx < length (certs l)" using fnd by blast
    obtain data where data: "Marshal (flip_at idx rv l) = Inr data" by (simp add: Marshal_def)
    obtain ur w1 where put: "PutLedger gh a data sha (revoke_message (Serial (certs l ! idx)) a (RevActor rv)) w = (ur, w1)"
      by (metis surj_pair)
    have s1: "stays hist good w w1"
    proof (rule write_stays [OF w(1,2) Suc.prems(2) _ put])
      fix older assume o: "(honest_write a)\<^sup>*\<^sup>* (hist w a) older" "ledger_of older = ex"
      let ?l = "flip_at idx rv l"
      have so: "sound a older" using honest_sound [OF o(1)] w(2) by (simp add: all_sound_def)
      have wf: "well_formed a l" by (rule sound_ledger [OF so]) (simp add: o(2) fl(2))
      note st = flip_storable [OF wf idx rv]
      then have "Ledger.Parse data = Inr (stored ?l)" using Parse_Marshal_stored [OF _ _ data] by blast
      then show "\<exists>l. Ledger.Parse data = Inr l \<and> well_formed a l \<and> registry_step a ex (Some l)"
        using st stored_well_formed flip_is_step [OF wf idx] fl(2) by blast
    qed
    show ?thesis
    proof (cases "\<exists>er. ur = Inl er \<and> errors_is er ErrConflict")
      case False
      then have "w' = w1" using Suc.prems(3) data put fl by (cases ur) (auto simp: Let_def)
      then show ?thesis using stays_trans [OF Suc.prems(1) s1] by simp
    next
      case True
      then obtain er where er: "ur = Inl er" "errors_is er ErrConflict" by blast
      obtain lr w2 where load: "Revoke.loadLedger gh a w1 = (lr, w2)" by (metis surj_pair)
      have s2: "stays hist good w w2" by (rule view.revoke_load_keeps [OF load s1])
      show ?thesis
      proof (cases lr)
        case (Inl e2)
        then have "w' = w2" using Suc.prems(3) data put er load fl by (simp add: Let_def)
        then show ?thesis using stays_trans [OF Suc.prems(1) s2] by simp
      next
        case (Inr es)
        then obtain ex2 sha2 where es: "lr = Inr (ex2, sha2)" by (cases es) auto
        have "apply_loop gh a fnd rv n (Some er) ex2 sha2 w2 = (r, w')"
          using Suc.prems(3) data put er load es fl by (simp add: Let_def)
        moreover have "was_read (hist w2 a) ex2 sha2" using revoke_load_stays [OF s1 load [unfolded es]] by simp
        ultimately show ?thesis
          by (intro Suc.IH [OF stays_trans [OF Suc.prems(1) s2]])
      qed
    qed
  qed
qed

section \<open>Whole polls\<close>

lemma issue_stays:
  assumes s: "stays hist good w0 w" and dd: "tame_issuer hist good gh d"
    and ok: "outside_ok lib d iss" and a: "Valid a"
    and read: "was_read (hist w a) ex sha" and open_a: "unreserved (hist w a)"
    and run: "issueCert lib d iss f a pub ex sha w = Some (r, w')"
  shows "stays hist good w0 w'"
proof -
  note d = tame_issuerD [OF dd]
  note clock = preservesD [OF tame_preserves [OF d(2)]] and sign = preservesD [OF tame_preserves [OF d(4)]]
  have old: "was_read (hist v a) ex sha \<and> unreserved (hist v a)" if "stays hist good w v" for v
    using that read open_a honest_unreserved [of a "hist w a" "hist v a"] was_read_extends honest_extends
    unfolding stays_def honest_def by metis
  let ?inp = "\<lambda>now. \<lparr>InAppID = a, InOwner = ownerOf (FormRepo f), InOrigin = OriginGitHub, InPublicKey = pub,
    InNotBefore = now, InIssuer = IssuerCertificate (Signer d)\<rparr>"
  obtain now w1 where clk: "Clock d w = (now, w1)" by (metis surj_pair)
  obtain lr w2 where leaf: "Leaf (Rand d) (?inp now) w1 = Some (lr, w2)"
    using run clk by (cases "Leaf (Rand d) (?inp now) w1") (auto simp: issueCert_def Let_def)
  have s2: "stays hist good w w2"
    by (rule Leaf_preserves [OF tame_preserves [OF d(3)] leaf clock [OF clk staysD(3) [OF s]]])
  have "stays hist good w w'"
  proof (cases lr)
    case (Inl e)
    then show ?thesis using run clk leaf s2 by (simp add: issueCert_def Let_def)
  next
    case (Inr tmpl)
    obtain sr w3 where sg: "Sign (Signer d) tmpl pub w2 = (sr, w3)" by (metis surj_pair)
    have s3: "stays hist good w w3" by (rule sign [OF sg s2])
    show ?thesis
    proof (cases "\<exists>der lf. sr = Inr der \<and> ParseCertificate lib der = Inr lf")
      case False
      then have "w' = w3"
        using run clk leaf Inr sg by (cases sr; cases "ParseCertificate lib (projr sr)") (auto simp: issueCert_def Let_def)
      then show ?thesis using s3 by simp
    next
      case True
      then obtain der lf where der: "sr = Inr der" "ParseCertificate lib der = Inr lf" by blast
      let ?e = "ledger_entry lib iss lf der"
      obtain t w4 where clk2: "Clock d w3 = (t, w4)" by (metis surj_pair)
      have s4: "stays hist good w w4" by (rule clock [OF clk2 s3])
      obtain cr w5 where loop: "commit_loop d a (FormRepo f) ?e t Enroll.maxLedgerRetries None ex sha w4 = (cr, w5)"
        by (metis surj_pair)
      have t: "year_ok t" using ok clk2 unfolding outside_ok_def by (metis fst_conv)
      have s5: "stays hist good w w5"
        by (rule commit_stays [OF s4 d(1) a t entry_storable [OF ok der(2)] _ _ _ loop])
           (use old [OF s4] in \<open>simp_all add: ledger_entry_def\<close>)
      have commit: "commitLedger d a (FormRepo f) ?e ex sha w3 = (cr, w5)"
        using loop clk2 by (simp add: commitLedger_def)
      then show ?thesis
        using run clk leaf Inr sg der s5
        by (cases cr) (auto simp: issueCert_def Let_def dest!: view.deliver_keeps [OF d(1)])
    qed
  qed
  then show ?thesis by (rule stays_trans [OF s])
qed

lemma decide_stays:
  assumes s: "stays hist good w0 w" and d: "tame_issuer hist good gh d"
    and ok: "outside_ok lib d iss" and a: "Valid a"
    and run: "decide_and_issue lib d iss f req a w = Some (r, w')"
  shows "stays hist good w0 w'"
proof -
  note gh = tame_issuerD(1) [OF d]
  obtain lr w1 where load: "Enroll.loadLedger d a w = (lr, w1)" by (metis surj_pair)
  have s1: "stays hist good w0 w1" by (rule view.loadLedger_keeps [OF gh load s])
  show ?thesis
  proof (cases "\<exists>ex sha. lr = Inr (ex, sha) \<and> Decide ex (FormRepo f) \<in> {DecisionNewClaim, DecisionAllowed}")
    case False
    then show ?thesis
      using run load s1
      by (auto simp: decide_and_issue_def split: sum.splits decision.splits dest!: view.terminal_keeps [OF gh])
  next
    case True
    then obtain ex sha where ex: "lr = Inr (ex, sha)" "Decide ex (FormRepo f) \<in> {DecisionNewClaim, DecisionAllowed}" by blast
    note l = load_stays [OF s gh load [unfolded ex(1)]]
    then have led: "ledger_of (hist w1 a) = ex" by simp
    have "unreserved (hist w1 a)" unfolding unreserved_def led using ex(2) accepted_not_reserved by blast
    moreover have "issueCert lib d iss f a (ReqPublicKey req) ex sha w1 = Some (r, w')"
      using run load ex by (auto simp: decide_and_issue_def)
    ultimately show ?thesis using l issue_stays [OF s1 d ok a] by blast
  qed
qed

lemma challenge_stays:
  assumes s: "stays hist good w0 w" and d: "tame_issuer hist good gh d"
    and ok: "outside_ok lib d iss" and a: "Valid a"
    and run: "challenge_phase lib d iss f req a w = Some (r, w')"
  shows "stays hist good w0 w'"
proof -
  note gh = tame_issuerD(1) [OF d]
  note step = view.terminal_keeps [OF gh] view.postChallenge_keeps [OF gh tame_preserves [OF tame_issuerD(3) [OF d]]]
    view.priorChallenge_keeps [OF gh] preservesD [OF tame_preserves [OF tame_issuerD(2) [OF d]]] view.op_keeps
    decide_stays [OF _ d ok a, rotated]
  show ?thesis
    using run s unfolding challenge_phase_def gh
    by (auto split: prod.splits sum.splits option.splits if_splits dest!: step)
qed

theorem issuer_stays:
  assumes s: "stays hist good w0 w" and d: "tame_issuer hist good gh d" and ok: "outside_ok lib d iss"
    and run: "Enroll.Process lib xml d iss w = Some (r, w')"
  shows "stays hist good w0 w'"
proof -
  note gh = tame_issuerD(1) [OF d]
  note step = view.terminal_keeps [OF gh] view.info_not_found_keeps [OF gh] view.op_keeps
    challenge_stays [OF _ d ok, rotated 1]
  show ?thesis
    using run s unfolding Enroll.Process_def gh
    by (auto simp: ValidateStrict_def split: prod.splits sum.splits if_splits dest!: step)
qed

lemma match_stays:
  assumes s: "stays hist good w0 w" and d: "RevGH d = gh"
    and run: "match_and_revoke lib d iss vres a w = (r, w')"
  shows "stays hist good w0 w'"
proof -
  let ?fp = "Fingerprint lib (Raw (SignerCert vres))"
  note step = view.revoke_terminal_keeps [OF d] view.already_keeps [OF d] view.revoke_deliver_keeps [OF d]
  obtain lr w1 where load: "Revoke.loadLedger gh a w = (lr, w1)" by (metis surj_pair)
  have s1: "stays hist good w0 w1" by (rule view.revoke_load_keeps [OF load s])
  show ?thesis
  proof (cases "\<exists>l sha idx. lr = Inr (Some l, sha) \<and> findByFingerprint (Some l) ?fp = Some idx \<and> Status (certs l ! idx) \<noteq> StatusRevoked")
    case False
    then show ?thesis
      using run load d s1
      by (auto simp: match_and_revoke_def Let_def split: sum.splits option.splits if_splits dest!: step)
  next
    case True
    then obtain l sha idx where l: "lr = Inr (Some l, sha)" "findByFingerprint (Some l) ?fp = Some idx"
      "Status (certs l ! idx) \<noteq> StatusRevoked" by blast
    let ?rv = "self_revocation (NotBefore (certs l ! idx))"
    obtain ar w2 where ap: "applyRevocation gh a (\<lambda>lg. findByFingerprint lg ?fp) ?rv (Some l) sha w1 = (ar, w2)"
      by (metis surj_pair)
    note ld = revoke_load_stays [OF s load [unfolded l(1)]]
    have wf: "well_formed a l" using ld s1 sound_ledger by (auto simp: stays_def all_sound_def)
    have idx: "idx < length (certs l)" using l(2) by (simp add: findByFingerprint_def find_index_Some)
    have "stays hist good w0 w2"
    proof (rule apply_stays [OF s1 _ _ _ ap [unfolded applyRevocation_def]])
      show "year_ok (RevFrom ?rv)" using well_formed_entry [OF wf idx] by (simp add: self_revocation_def cert_storable_def)
    qed (use ld in \<open>auto simp: findByFingerprint_def find_index_Some\<close>)
    then show ?thesis
      using run load d l ap
      by (cases ar) (auto simp: match_and_revoke_def Let_def self_revocation_def dest!: step)
  qed
qed

theorem revoker_stays:
  assumes s: "stays hist good w0 w" and d: "tame_revoker hist good gh d" and run: "Revoke.Process lib d iss w = (r, w')"
  shows "stays hist good w0 w'"
proof -
  have gh: "RevGH d = gh" and v: "tame hist good (Verify (RevVerifier d) b)" for b
    using d by (simp_all add: tame_revoker_def)
  note step = view.revoke_terminal_keeps [OF gh] preservesD [OF tame_preserves [OF v]] match_stays [OF _ gh, rotated]
  show ?thesis
    using run s unfolding Revoke.Process_def
    by (auto split: prod.splits sum.splits if_splits dest!: step)
qed

theorem operator_stays:
  assumes s: "stays hist good w0 w" and d: "PrivGH d = gh" and ok: "operator_ok req"
    and run: "PrivilegedProcess d req w = (r, w')"
  shows "stays hist good w0 w'"
proof -
  let ?a = "PrivAppID req" and ?s = "trim_space (PrivSerial req)"
  obtain lr w1 where load: "Revoke.loadLedger gh ?a w = (lr, w1)" by (metis surj_pair)
  have s1: "stays hist good w0 w1" by (rule view.revoke_load_keeps [OF load s])
  show ?thesis
  proof (cases "check_request req = None \<and> (\<exists>l sha idx t. lr = Inr (Some l, sha) \<and> findBySerial (Some l) ?s = Some idx \<and>
      resolve_from (PrivRevokedFrom req) (NotBefore (certs l ! idx)) = Inr t)")
    case False
    then have "w' = w \<or> w' = w1"
      using run load d
      by (auto simp: PrivilegedProcess_def Let_def split: sum.splits option.splits)
    then show ?thesis using s s1 by auto
  next
    case True
    then obtain l sha idx t where l: "lr = Inr (Some l, sha)" "findBySerial (Some l) ?s = Some idx" "check_request req = None"
      "resolve_from (PrivRevokedFrom req) (NotBefore (certs l ! idx)) = Inr t" by blast
    let ?rv = "\<lparr>RevReason = PrivReason req, RevFrom = t, RevActor = PrivActor req\<rparr>"
    obtain ar w2 where ap: "applyRevocation gh ?a (\<lambda>lg. findBySerial lg ?s) ?rv (Some l) sha w1 = (ar, w2)"
      by (metis surj_pair)
    note ld = revoke_load_stays [OF s load [unfolded l(1)]]
    have wf: "well_formed ?a l" using ld s1 sound_ledger by (auto simp: stays_def all_sound_def)
    have idx: "idx < length (certs l)" using l(2) by (simp add: findBySerial_def find_index_Some)
    have "stays hist good w0 w2"
    proof (rule apply_stays [OF s1 _ _ _ ap [unfolded applyRevocation_def]])
      show "year_ok (RevFrom ?rv)"
        using l(4) ok well_formed_entry [OF wf idx]
        by (auto simp: resolve_from_def operator_ok_def cert_storable_def split: option.splits if_splits)
    qed (use ld in \<open>auto simp: findBySerial_def find_index_Some\<close>)
    moreover have "w' = w2"
      using run load d l ap by (cases ar) (auto simp: PrivilegedProcess_def Let_def)
    ultimately show ?thesis by simp
  qed
qed

end

section \<open>Everything at once\<close>

text \<open>Polls of several issuers, revokers and operators, and honest changes from outside, in any order.\<close>

inductive concurrent :: "'w github \<Rightarrow> ('w \<Rightarrow> string \<Rightarrow> version list) \<Rightarrow> ('w \<Rightarrow> bool) \<Rightarrow> 'w \<Rightarrow> 'w \<Rightarrow> bool"
  for gh hist good where
  issuer: "tame_issuer hist good gh d \<Longrightarrow> outside_ok lib d iss \<Longrightarrow> Enroll.Process lib xml d iss w = Some (r, w') \<Longrightarrow>
    concurrent gh hist good w w'"
| revoker: "tame_revoker hist good gh d \<Longrightarrow> Revoke.Process lib d iss w = (r, w') \<Longrightarrow> concurrent gh hist good w w'"
| operator: "PrivGH d = gh \<Longrightarrow> operator_ok req \<Longrightarrow> PrivilegedProcess d req w = (r, w') \<Longrightarrow> concurrent gh hist good w w'"
| others: "good w' \<Longrightarrow> honest hist w w' \<Longrightarrow> concurrent gh hist good w w'"

inductive_cases concurrentE: "concurrent gh hist good w w'"

text \<open>What is promised of all histories between two worlds.\<close>

definition kept_honest :: "('w \<Rightarrow> string \<Rightarrow> version list) \<Rightarrow> 'w \<Rightarrow> 'w \<Rightarrow> bool" where
  "kept_honest hist w w' \<longleftrightarrow>
     (\<forall>a. (honest_write a)\<^sup>*\<^sup>* (hist w a) (hist w' a) \<and>
        (\<forall>l. ledger_of (hist w a) = Some l \<longrightarrow> (\<exists>l'. ledger_of (hist w' a) = Some l' \<and> well_formed a l' \<and> grows_to l l')))"

lemma stays_kept: "all_sound hist w \<Longrightarrow> stays hist good w w' \<Longrightarrow> kept_honest hist w w'"
  unfolding kept_honest_def stays_def all_sound_def honest_def
  using honest_grows sound_ledger by blast

context honest_files begin

lemma concurrent_step: "concurrent gh hist good w w' \<Longrightarrow> stays hist good w0 w \<Longrightarrow> stays hist good w0 w'"
proof (erule concurrentE)
  assume "stays hist good w0 w" "good w'" "honest hist w w'"
  then show ?thesis
    using honest_all_sound [of hist w w'] honest_trans [of hist w0 w w'] by (simp add: stays_def)
qed (rule issuer_stays revoker_stays operator_stays; assumption)+

theorem concurrent_stays:
  assumes "good w" "all_sound hist w" "(concurrent gh hist good)\<^sup>*\<^sup>* w w'"
  shows "stays hist good w w'"
  using assms(3)
  by (induction rule: rtranclp_induct) (simp add: stays_def assms(1,2), rule concurrent_step)

end

end
