(* ===== verification/RestStore.thy ===== *)
theory RestStore imports RestClient HonestStore begin

text \<open>
  The REST client on the documented Contents API: what the API promises of its answers is stated on
  the text of requests and responses; what both pipelines rely on of their ledger files follows.
\<close>

section \<open>What the API promises\<close>

definition ledger_url :: "rest_client \<Rightarrow> string \<Rightarrow> string" where
  "ledger_url c a = base c @ contents_path (CfgRepo (cfg c)) (ledger_path a)"

text \<open>The answer to a read: the latest version, in base64 with line breaks anywhere.\<close>

definition answers_read :: "http_response \<Rightarrow> version list \<Rightarrow> bool" where
  "answers_read resp vs \<longleftrightarrow>
     (\<exists>enc ct s older. vs = (ct, s) # older \<and>
        Option.bind (parse_whole (RespBody resp)) decode_contents = Some \<lparr>RespContent = enc, RespSHA = s\<rparr> \<and>
        filter (\<lambda>ch. ch \<noteq> CHR 0x0A) enc = b64_encode ct)"

text \<open>A request to write \<open>ct\<close> on top of the version with SHA \<open>p\<close>, or to create the file.\<close>

definition asks_write :: "http_request \<Rightarrow> string \<Rightarrow> string \<Rightarrow> bool" where
  "asks_write rq ct p \<longleftrightarrow>
     (\<exists>text enc. ReqBody rq = Some text \<and>
        Option.bind (parse_whole text) decode_contents = Some \<lparr>RespContent = enc, RespSHA = p\<rparr> \<and>
        b64_decode enc = Some ct)"

text \<open>A blob SHA names one content, is a text and never empty.\<close>

definition shas_ok :: "version list \<Rightarrow> bool" where
  "shas_ok vs \<longleftrightarrow> (\<forall>(c, s) \<in> set vs. s \<noteq> [] \<and> utf8_valid s \<and> (\<forall>(c', s') \<in> set vs. s' = s \<longrightarrow> c' = c))"

text \<open>
  For files of less than a megabyte (the API sends no content of larger ones): no request makes a version
  disappear; a read that succeeds gives the latest version; a write that succeeds puts its content on top of
  the version that it names.
\<close>

definition contents_api ::
  "'w http_lib \<Rightarrow> rest_client \<Rightarrow> ('w \<Rightarrow> string \<Rightarrow> version list) \<Rightarrow> ('w \<Rightarrow> bool) \<Rightarrow> bool" where
  "contents_api http c hist good \<longleftrightarrow>
     (\<forall>w a. good w \<longrightarrow> shas_ok (hist w a)) \<and>
     (\<forall>w rq r w'. good w \<longrightarrow> RoundTrip http rq w = (r, w') \<longrightarrow> good w' \<and> extends hist w w') \<and>
     (\<forall>w rq a resp w'. good w \<longrightarrow> RoundTrip http rq w = (Inr resp, w') \<longrightarrow> success resp \<longrightarrow>
        ReqMethod rq = ''GET'' \<longrightarrow> ReqUrl rq = ledger_url c a \<longrightarrow> answers_read resp (hist w' a)) \<and>
     (\<forall>w rq a ct p resp w'. good w \<longrightarrow> RoundTrip http rq w = (Inr resp, w') \<longrightarrow> success resp \<longrightarrow>
        ReqMethod rq = ''PUT'' \<longrightarrow> ReqUrl rq = ledger_url c a \<longrightarrow> asks_write rq ct p \<longrightarrow>
        (\<exists>s older. hist w' a = (ct, s) # older \<and> suffix (hist w a) older \<and> p = current_sha older))"

text \<open>
  What is asked beyond it of the world: no request but a write of a ledger changes one, others write registry
  steps only, a write lands on the version that it names or not at all (whatever the answer says, or
  none comes), a 404 to a read says that there is no file, and the transport does not use the
  client's own "not found".
\<close>

definition honest_api ::
  "'w http_lib \<Rightarrow> rest_client \<Rightarrow> ('w \<Rightarrow> string \<Rightarrow> version list) \<Rightarrow> ('w \<Rightarrow> bool) \<Rightarrow> bool" where
  "honest_api http c hist good \<longleftrightarrow> contents_api http c hist good \<and>
     (\<forall>w rq r w'. good w \<longrightarrow> RoundTrip http rq w = (r, w') \<longrightarrow>
        ReqMethod rq \<noteq> ''PUT'' \<or> ReqUrl rq \<notin> range (ledger_url c) \<longrightarrow> honest hist w w') \<and>
     (\<forall>w rq a ct p r w'. good w \<longrightarrow> RoundTrip http rq w = (r, w') \<longrightarrow>
        ReqMethod rq = ''PUT'' \<longrightarrow> ReqUrl rq = ledger_url c a \<longrightarrow> asks_write rq ct p \<longrightarrow>
        may_land a ct p (hist w a) (hist w' a) \<and> (\<forall>b. b \<noteq> a \<longrightarrow> (honest_write b)\<^sup>*\<^sup>* (hist w b) (hist w' b))) \<and>
     (\<forall>w rq a resp w'. good w \<longrightarrow> RoundTrip http rq w = (Inr resp, w') \<longrightarrow> StatusCode resp = 404 \<longrightarrow>
        ReqMethod rq = ''GET'' \<longrightarrow> ReqUrl rq = ledger_url c a \<longrightarrow> hist w' a = []) \<and>
     (\<forall>w rq e w'. RoundTrip http rq w = (Inl e, w') \<longrightarrow> \<not> errors_is e ErrNotFound) \<and>
     (\<forall>u e. BadUrl http u = Some e \<longrightarrow> \<not> errors_is e ErrNotFound)"

section \<open>The contract of the ledger files\<close>

lemma do_request_world:
  assumes "do_request http c meth path body dec out w = (r, w')"
  shows "w' = w \<or> (\<exists>rr. RoundTrip http (request c meth path body) w = (rr, w'))"
  using assms by (auto simp: do_request_def split: option.splits prod.splits sum.splits)

lemma request_simps [simp]:
  "ReqMethod (request c meth path body) = meth" "ReqUrl (request c meth path body) = base c @ path"
  "ReqBody (request c meth path body) = map_option compact_json body"
  by (simp_all add: request_def)

lemma ledger_url_path: "base c @ contents_path (CfgRepo (cfg c)) (ledger_path a) = ledger_url c a"
  by (simp add: ledger_url_def)

lemma put_asks_write: "asks_write (request c ''PUT'' path (Some (put_body ct prev msg))) ct (to_valid prev)"
  using parse_put_body [of ct prev msg] by (simp add: asks_write_def decode_put_body b64_decode_encode)

lemma known_sha_valid: "shas_ok vs \<Longrightarrow> known_sha vs p \<Longrightarrow> to_valid p = p"
  by (auto simp: shas_ok_def known_sha_def to_valid_id)

lemma getContents_Inr:
  "getContents http c repo path w = (Inr (ct, s), w') \<Longrightarrow>
     \<exists>enc resp. RoundTrip http (request c ''GET'' (contents_path repo path) None) w = (Inr resp, w') \<and> success resp \<and>
       decode_into (Some decode_contents) \<lparr>RespContent = [], RespSHA = []\<rparr> (RespBody resp) = Inr \<lparr>RespContent = enc, RespSHA = s\<rparr> \<and>
       b64_decode (filter (\<lambda>ch. ch \<noteq> CHR 0x0A) enc) = Some ct"
  by (auto simp: getContents_def do_request_Inr split: prod.splits sum.splits option.splits)
     (metis contents_response.surjective old.unit.exhaust)

lemma getContents_world:
  "getContents http c repo path w = (r, w') \<Longrightarrow>
     w' = w \<or> (\<exists>rr. RoundTrip http (request c ''GET'' (contents_path repo path) None) w = (rr, w'))"
  by (auto simp: getContents_def split: prod.splits sum.splits option.splits dest!: do_request_world)

lemma contents_apiD:
  assumes "contents_api http c hist good"
  shows "good w \<Longrightarrow> shas_ok (hist w a)"
    and "good w \<Longrightarrow> RoundTrip http rq w = (r, w') \<Longrightarrow> good w' \<and> extends hist w w'"
    and "good w \<Longrightarrow> RoundTrip http rq w = (Inr resp, w') \<Longrightarrow> success resp \<Longrightarrow> ReqMethod rq = ''GET'' \<Longrightarrow>
      ReqUrl rq = ledger_url c a \<Longrightarrow> answers_read resp (hist w' a)"
    and "good w \<Longrightarrow> RoundTrip http rq w = (Inr resp, w') \<Longrightarrow> success resp \<Longrightarrow> ReqMethod rq = ''PUT'' \<Longrightarrow>
      ReqUrl rq = ledger_url c a \<Longrightarrow> asks_write rq ct p \<Longrightarrow>
      \<exists>s older. hist w' a = (ct, s) # older \<and> suffix (hist w a) older \<and> p = current_sha older"
  using assms unfolding contents_api_def by blast+

lemma shas_okD: "shas_ok vs \<Longrightarrow> (ct, s) \<in> set vs \<Longrightarrow> s \<noteq> []"
  "shas_ok vs \<Longrightarrow> (ct, s) \<in> set vs \<Longrightarrow> (ct', s) \<in> set vs \<Longrightarrow> ct = ct'"
  by (fastforce simp: shas_ok_def)+

lemma rest_get_found:
  assumes api: "contents_api http c hist good" and w: "good w"
    and get: "rest_GetLedger http c a w = (Inr (ct, s), w')"
  shows "\<exists>older. hist w' a = (ct, s) # older"
proof -
  obtain enc resp where rt: "RoundTrip http (request c ''GET'' (contents_path (CfgRepo (cfg c)) (ledger_path a)) None) w = (Inr resp, w')"
      "success resp"
    and dec: "decode_into (Some decode_contents) \<lparr>RespContent = [], RespSHA = []\<rparr> (RespBody resp) = Inr \<lparr>RespContent = enc, RespSHA = s\<rparr>"
      "b64_decode (filter (\<lambda>ch. ch \<noteq> CHR 0x0A) enc) = Some ct"
    using getContents_Inr [OF get [unfolded rest_GetLedger_def]] by blast
  have "answers_read resp (hist w' a)"
    by (rule contents_apiD(3) [OF api w rt]) (simp_all add: ledger_url_path)
  then obtain enc' ct' s' older where h: "hist w' a = (ct', s') # older"
      "Option.bind (parse_whole (RespBody resp)) decode_contents = Some \<lparr>RespContent = enc', RespSHA = s'\<rparr>"
      "filter (\<lambda>ch. ch \<noteq> CHR 0x0A) enc' = b64_encode ct'"
    unfolding answers_read_def by blast
  have "RespBody resp \<noteq> []" using h(2) by (auto simp: parse_whole_Nil)
  then have "enc = enc'" "s = s'" using dec(1) h(2) by (simp_all add: decode_into_def)
  then have "ct = ct'" using dec(2) h(3) by (simp add: b64_decode_encode)
  then show ?thesis using h(1) \<open>s = s'\<close> by simp
qed

lemma rest_put_world:
  "rest_PutLedger http c a ct prev msg w = (r, w') \<Longrightarrow>
     w' = w \<or> (\<exists>rr. RoundTrip http (request c ''PUT'' (contents_path (CfgRepo (cfg c)) (ledger_path a)) (Some (put_body ct prev msg))) w = (rr, w'))"
  unfolding rest_PutLedger_def putContents_def by (rule do_request_world)

lemma rest_ledger_files:
  assumes api: "contents_api http c hist good"
  shows "ledger_files (rest_github http c) hist good"
proof (unfold_locales, unfold rest_github_simps)
  fix w a r w' assume "good w" "rest_GetLedger http c a w = (r, w')"
  then show "good w' \<and> extends hist w w'"
    using contents_apiD(2) [OF api] getContents_world unfolding rest_GetLedger_def by (metis extends_refl)
next
  fix w a ct s w' assume "good w" "rest_GetLedger http c a w = (Inr (ct, s), w')"
  then show "\<exists>older. hist w' a = (ct, s) # older" by (rule rest_get_found [OF api])
next
  fix w a ct p m r w' assume "good w" "rest_PutLedger http c a ct p m w = (r, w')"
  then show "good w' \<and> extends hist w w'"
    using contents_apiD(2) [OF api] rest_put_world by (metis extends_refl)
next
  fix w a p ct m u w' assume w: "good w" and p: "known_sha (hist w a) p" and put: "rest_PutLedger http c a ct p m w = (Inr u, w')"
  let ?rq = "request c ''PUT'' (contents_path (CfgRepo (cfg c)) (ledger_path a)) (Some (put_body ct p m))"
  obtain resp where rt: "RoundTrip http ?rq w = (Inr resp, w')" "success resp"
    using put unfolding rest_PutLedger_def putContents_def do_request_Inr by blast
  have "to_valid p = p" by (rule known_sha_valid [OF contents_apiD(1) [OF api w] p])
  then have "asks_write ?rq ct p" using put_asks_write [of c _ ct p m] by simp
  then show "\<exists>s older. hist w' a = (ct, s) # older \<and> suffix (hist w a) older \<and> p = current_sha older"
    by (intro contents_apiD(4) [OF api w rt]) (simp_all add: ledger_url_path)
next
  fix w ct s a ct' assume "good w" "(ct, s) \<in> set (hist w a)" "(ct', s) \<in> set (hist w a)"
  then show "ct = ct'" using shas_okD(2) contents_apiD(1) [OF api] by blast
next
  fix w ct s a assume "good w" "(ct, s) \<in> set (hist w a)"
  then show "s \<noteq> []" using shas_okD(1) contents_apiD(1) [OF api] by blast
qed

section \<open>Honest histories\<close>

lemma honest_apiD:
  assumes "honest_api http c hist good"
  shows "contents_api http c hist good"
    and "good w \<Longrightarrow> RoundTrip http rq w = (r, w') \<Longrightarrow> ReqMethod rq \<noteq> ''PUT'' \<or> ReqUrl rq \<notin> range (ledger_url c) \<Longrightarrow> honest hist w w'"
    and "good w \<Longrightarrow> RoundTrip http rq w = (r, w') \<Longrightarrow> ReqMethod rq = ''PUT'' \<Longrightarrow> ReqUrl rq = ledger_url c a \<Longrightarrow> asks_write rq ct p \<Longrightarrow>
      may_land a ct p (hist w a) (hist w' a) \<and> (\<forall>b. b \<noteq> a \<longrightarrow> (honest_write b)\<^sup>*\<^sup>* (hist w b) (hist w' b))"
    and "good w \<Longrightarrow> RoundTrip http rq w = (Inr resp, w') \<Longrightarrow> StatusCode resp = 404 \<Longrightarrow>
      ReqMethod rq = ''GET'' \<Longrightarrow> ReqUrl rq = ledger_url c a \<Longrightarrow> hist w' a = []"
    and "RoundTrip http rq w = (Inl e, w') \<Longrightarrow> \<not> errors_is e ErrNotFound"
    and "BadUrl http u = Some e \<Longrightarrow> \<not> errors_is e ErrNotFound"
  using assms unfolding honest_api_def by (blast, metis+)

text \<open>No request but a write of a ledger changes one; it is all that the other calls need of the API.\<close>

definition calls_tame ::
  "'w http_lib \<Rightarrow> rest_client \<Rightarrow> ('w \<Rightarrow> string \<Rightarrow> version list) \<Rightarrow> ('w \<Rightarrow> bool) \<Rightarrow> bool" where
  "calls_tame http c hist good \<longleftrightarrow>
     (\<forall>rq. ReqMethod rq \<noteq> ''PUT'' \<or> ReqUrl rq \<notin> range (ledger_url c) \<longrightarrow> tame hist good (RoundTrip http rq))"

lemma honest_calls: "honest_api http c hist good \<Longrightarrow> calls_tame http c hist good"
  unfolding calls_tame_def tame_def
proof (intro allI impI)
  fix rq w r w' assume api: "honest_api http c hist good"
    and "ReqMethod rq \<noteq> ''PUT'' \<or> ReqUrl rq \<notin> range (ledger_url c)" "good w" "RoundTrip http rq w = (r, w')"
  then show "good w' \<and> honest hist w w'"
    using contents_apiD(2) [OF honest_apiD(1) [OF api]] honest_apiD(2) [OF api] by simp
qed

lemma do_request_tame:
  assumes "calls_tame http c hist good" "meth \<noteq> ''PUT'' \<or> base c @ path \<notin> range (ledger_url c)"
  shows "tame hist good (do_request http c meth path body dec out)"
  unfolding tame_def
proof (intro allI impI)
  fix w r w' assume w: "good w" and run: "do_request http c meth path body dec out w = (r, w')"
  have rt: "tame hist good (RoundTrip http (request c meth path body))"
    using assms unfolding calls_tame_def by simp
  from do_request_world [OF run]
  consider "w' = w" | rr where "RoundTrip http (request c meth path body) w = (rr, w')" by blast
  then show "good w' \<and> honest hist w w'" using w rt unfolding tame_def by cases auto
qed

text \<open>An operation that consists of requests.\<close>

lemma tame_bind:
  assumes "tame hist good f" "\<And>x. tame hist good (g x)" "\<And>w x w1. f w = (x, w1) \<Longrightarrow> h w = g x w1"
  shows "tame hist good h"
  unfolding tame_def
proof (intro allI impI)
  fix w r w' assume w: "good w" and run: "h w = (r, w')"
  obtain x w1 where f: "f w = (x, w1)" by (metis surj_pair)
  have 1: "good w1" "honest hist w w1" using assms(1) w f unfolding tame_def by blast+
  have "g x w1 = (r, w')" using assms(3) [OF f] run by simp
  then have "good w'" "honest hist w1 w'" using assms(2) 1(1) unfolding tame_def by blast+
  then show "good w' \<and> honest hist w w'" using honest_trans [OF 1(2)] by simp
qed

lemma tame_return [simp]: "tame hist good (Pair x)"
  by (simp add: tame_def)

lemma remove_labels_tame: "calls_tame http c hist good \<Longrightarrow> tame hist good (remove_labels http c n ls)"
proof (induction ls)
  case Nil
  then show ?case by (simp add: tame_def)
next
  case (Cons l ls)
  show ?case
    by (rule tame_bind [where g = "\<lambda>x. case x of Inl e \<Rightarrow> if e \<noteq> ErrNotFound then Pair (Inl e) else remove_labels http c n ls
        | Inr u \<Rightarrow> remove_labels http c n ls",
        OF do_request_tame [OF Cons.prems, of "''DELETE''" "issue_path c n @ ''/labels/'' @ path_escape l" None None "()"]])
       (use Cons in \<open>auto split: sum.split\<close>)
qed

text \<open>An operation that ends where another one does.\<close>

lemma tame_same_world:
  assumes "tame hist good f" "\<And>w. snd (h w) = snd (f w)"
  shows "tame hist good h"
  using assms unfolding tame_def by (metis surj_pair snd_conv)

lemma getContents_tame: "calls_tame http c hist good \<Longrightarrow> tame hist good (getContents http c repo path)"
  by (erule tame_same_world [OF do_request_tame [of http c hist good "''GET''" "contents_path repo path" None "Some decode_contents"
        "\<lparr>RespContent = [], RespSHA = []\<rparr>"]])
     (auto simp: getContents_def split: prod.split sum.split option.split)

lemma SetLabels_tame:
  assumes "calls_tame http c hist good"
  shows "tame hist good (rest_SetLabels http c n add rem)"
  by (rule tame_bind [where g = "\<lambda>x. case x of Inl e \<Rightarrow> Pair (Inl e)
        | Inr u \<Rightarrow> if length add > 0
            then do_request http c ''POST'' (issue_path c n @ ''/labels'') (Some (JObj [(''labels'', JArr (map JStr add))])) None ()
            else Pair (Inr ())", OF remove_labels_tame [OF assms, of n rem]])
     (auto simp: rest_SetLabels_def do_request_tame [OF assms] split: sum.split)

text \<open>A read of a ledger that says "not found".\<close>

lemma getContents_missing:
  assumes "honest_api http c hist good" "getContents http c repo path w = (Inl e, w')" "errors_is e ErrNotFound"
  shows "\<exists>resp. RoundTrip http (request c ''GET'' (contents_path repo path) None) w = (Inr resp, w') \<and> StatusCode resp = 404"
proof -
  let ?do = "do_request http c ''GET'' (contents_path repo path) None (Some decode_contents) \<lparr>RespContent = [], RespSHA = []\<rparr> w"
  have d: "?do = (Inl e, w')"
    using assms(2,3) by (auto simp: getContents_def ErrNotFound_def split: prod.splits sum.splits option.splits)
  have bad: "BadUrl http (base c @ contents_path repo path) = None"
    using d assms(3) honest_apiD(6) [OF assms(1)]
    by (cases "BadUrl http (base c @ contents_path repo path)") (auto simp: do_request_def ErrNotFound_def)
  obtain rr w1 where rt: "RoundTrip http (request c ''GET'' (contents_path repo path) None) w = (rr, w1)" by (metis surj_pair)
  show ?thesis
  proof (cases rr)
    case (Inl e0)
    then have "errors_is e0 ErrNotFound" using d bad rt assms(3) by (auto simp: do_request_def ErrNotFound_def)
    then show ?thesis using honest_apiD(5) [OF assms(1)] rt Inl by blast
  next
    case (Inr resp)
    then have "w1 = w'" "status_error ''GET'' (contents_path repo path) resp = Some e"
      using d bad rt assms(3) decode_into_Inl [of "Some decode_contents"]
      by (auto simp: do_request_def split: option.splits)
    then show ?thesis using rt Inr status_error_Some assms(3) by blast
  qed
qed

lemma rest_get_missing:
  assumes api: "honest_api http c hist good" and w: "good w" and get: "rest_GetLedger http c a w = (Inl e, w')"
    and e: "errors_is e ErrNotFound"
  shows "hist w' a = []"
proof -
  obtain resp where rt: "RoundTrip http (request c ''GET'' (contents_path (CfgRepo (cfg c)) (ledger_path a)) None) w = (Inr resp, w')"
    "StatusCode resp = 404"
    using getContents_missing [OF api get [unfolded rest_GetLedger_def] e] by blast
  show ?thesis by (rule honest_apiD(4) [OF api w rt]) (simp_all add: ledger_url_path)
qed

lemma rest_put_honest:
  assumes api: "honest_api http c hist good" and w: "good w" and p: "known_sha (hist w a) p"
    and put: "rest_PutLedger http c a ct p m w = (r, w')"
  shows "may_land a ct p (hist w a) (hist w' a) \<and> (\<forall>b. b \<noteq> a \<longrightarrow> (honest_write b)\<^sup>*\<^sup>* (hist w b) (hist w' b))"
proof -
  let ?rq = "request c ''PUT'' (contents_path (CfgRepo (cfg c)) (ledger_path a)) (Some (put_body ct p m))"
  have "to_valid p = p" by (rule known_sha_valid [OF contents_apiD(1) [OF honest_apiD(1) [OF api] w] p])
  then have ask: "asks_write ?rq ct p" using put_asks_write [of c _ ct p m] by simp
  from rest_put_world [OF put] consider "w' = w" | rr where "RoundTrip http ?rq w = (rr, w')" by blast
  then show ?thesis
  proof cases
    case 1
    then show ?thesis unfolding may_land_def by blast
  next
    case 2
    show ?thesis by (rule honest_apiD(3) [OF api w 2 _ _ ask]) (simp_all add: ledger_url_path)
  qed
qed

text \<open>The calls that are not a write of a ledger.\<close>

lemma rest_calls_tame:
  assumes api: "calls_tame http c hist good"
  shows "tame hist good (rest_OwnComments http c i)" "tame hist good (rest_PostComment http c i b)"
    "tame hist good (rest_SetLabels http c i ls rs)" "tame hist good (rest_CloseIssue http c i)"
    "tame hist good (rest_GetFile http c rp p)" "tame hist good (rest_RepoAccessible http c rp)"
    "tame hist good (rest_GetLedger http c a)"
proof -
  note req = do_request_tame [OF api]
  show "tame hist good (rest_OwnComments http c i)"
    by (rule tame_same_world [OF req [of "''GET''" "issue_path c i @ ''/comments?per_page=100''" None "Some decode_comments" "[]"]])
       (auto simp: rest_OwnComments_def split: prod.split sum.split)
  show "tame hist good (rest_PostComment http c i b)"
    unfolding rest_PostComment_def by (rule req) simp
  show "tame hist good (rest_SetLabels http c i ls rs)" by (rule SetLabels_tame [OF api])
  show "tame hist good (rest_CloseIssue http c i)"
    unfolding rest_CloseIssue_def by (rule req) simp
  show "tame hist good (rest_GetFile http c rp p)"
    unfolding rest_GetFile_def by (rule getContents_tame [OF api])
  show "tame hist good (rest_RepoAccessible http c rp)"
    by (rule tame_same_world [OF req [of "''GET''" "''/repos/'' @ rp" None None "()"]])
       (auto simp: rest_RepoAccessible_def split: prod.split sum.split)
  show "tame hist good (rest_GetLedger http c a)"
    unfolding rest_GetLedger_def by (rule getContents_tame [OF api])
qed

lemma rest_honest_files:
  assumes api: "honest_api http c hist good"
  shows "honest_files (rest_github http c) hist good"
proof (rule honest_files.intro [OF rest_ledger_files [OF honest_apiD(1) [OF api]]], unfold_locales, unfold rest_github_simps)
qed (rule rest_calls_tame [OF honest_calls [OF api]] | blast intro: rest_get_missing [OF api] dest: rest_put_honest [OF api])+

section \<open>Properties\<close>

text \<open>C9: The production client loses no update: whenever GitHub answers as its Contents API is
  documented, whoever else writes and whatever they write, a write loop of the issuer or of a
  revocation that succeeds over the REST client has put its ledger directly on top of the version
  it was made from, and every version that was there before is still in the history.\<close>
theorem production_loses_no_update:
  assumes "contents_api http c hist good" and "good w" and "was_read (hist w a) ex sha" and "GH d = rest_github http c"
  shows "(case commit_loop d a repo entry now n lc ex sha w of
       (Inl e, w') \<Rightarrow> True
     | (Inr u, w') \<Rightarrow> \<exists>data s older ex'. hist w' a = (data, s) # older \<and> suffix (hist w a) older \<and>
         latest older ex' \<and> Marshal (next_ledger a repo now entry ex') = Inr data) \<and>
    (case apply_loop (rest_github http c) a fnd rv n lc ex sha w of
       (Inl e, w') \<Rightarrow> True
     | (Inr serial, w') \<Rightarrow> \<exists>data s older l idx. hist w' a = (data, s) # older \<and> suffix (hist w a) older \<and>
         latest older (Some l) \<and> fnd (Some l) = Some idx \<and> Marshal (flip_at idx rv l) = Inr data \<and>
         serial = Serial (certs l ! idx))"
  using ledger_files.commit_on_top [OF rest_ledger_files [OF assms(1)] assms(2-4), of repo entry now n lc]
    ledger_files.apply_on_top [OF rest_ledger_files [OF assms(1)] assms(2,3), of fnd rv n lc]
  unfolding wrote_on_top_def by (fastforce split: prod.split sum.split)

text \<open>Over the REST client, with any number of issuers, revokers and operators polling in any order and with
  whatever collaborators, every ledger is kept.\<close>
theorem production_keeps_the_registry:
  assumes "honest_api http c hist good" and "good w" and "all_sound hist w"
    and "(concurrent (rest_github http c) hist good)\<^sup>*\<^sup>* w w'"
  shows "kept_honest hist w w'"
  using honest_files.concurrent_stays [OF rest_honest_files [OF assms(1)] assms(2-4)] stays_kept [OF assms(3)] by blast

end
