(* ===== verification/Deployment.thy ===== *)
theory Deployment imports RestStore CmdIssuer CmdRevoker CmdCrlgen begin

text \<open>
  Whole runs of the commands, from the environment to the exit, at the same time over the same
  GitHub: the composition of the configuration, the signers, the verifier, the client, the poll
  loops and the pipelines.
\<close>

section \<open>The environment of the commands\<close>

text \<open>Libraries, files and processes that leave the ledgers of the repository to others.\<close>

definition tame_crypto :: "('w \<Rightarrow> string \<Rightarrow> version list) \<Rightarrow> ('w \<Rightarrow> bool) \<Rightarrow> 'w crypto_lib \<Rightarrow> bool" where
  "tame_crypto hist good lib \<longleftrightarrow> tame hist good (RandReader lib) \<and>
     (\<forall>r t p k s. (case r of None \<Rightarrow> True | Some rd \<Rightarrow> tame hist good rd) \<longrightarrow> (\<forall>d h. tame hist good (SignDigest s d h)) \<longrightarrow>
        tame hist good (CreateCertificate lib r t p k s)) \<and>
     (\<forall>r l p s. (case r of None \<Rightarrow> True | Some rd \<Rightarrow> tame hist good rd) \<longrightarrow> (\<forall>d h. tame hist good (SignDigest s d h)) \<longrightarrow>
        tame hist good (CreateRevocationList lib r l p s)) \<and>
     (\<forall>k d h. tame hist good (SignDigest (EcdsaSigner lib k) d h)) \<and>
     (\<forall>r. tame hist good r \<longrightarrow> tame hist good (GenerateKey lib r))"

definition tame_os :: "('w \<Rightarrow> string \<Rightarrow> version list) \<Rightarrow> ('w \<Rightarrow> bool) \<Rightarrow> 'w os_lib \<Rightarrow> bool" where
  "tame_os hist good os \<longleftrightarrow>
     (\<forall>p. tame hist good (CreateTemp os p)) \<and> (\<forall>p. tame hist good (\<lambda>w. ((), RemoveFile os p w))) \<and>
     (\<forall>c s. tame hist good (RunCommand os c s)) \<and> (\<forall>p. tame hist good (ReadFile os p)) \<and>
     (\<forall>p d. tame hist good (WriteFile os p d)) \<and> (\<forall>p. tame hist good (MkdirAll os p))"

definition tame_dir :: "('w \<Rightarrow> string \<Rightarrow> version list) \<Rightarrow> ('w \<Rightarrow> bool) \<Rightarrow> 'w dir_lib \<Rightarrow> bool" where
  "tame_dir hist good fs \<longleftrightarrow> (\<forall>p. tame hist good (StatIsDir fs p)) \<and> (\<forall>d p. tame hist good (GlobIn fs d p))"

text \<open>Times of the clock and of certificates have years of four digits.\<close>

definition dates_ok :: "'w crypto_lib \<Rightarrow> ('w \<Rightarrow> time \<times> 'w) \<Rightarrow> bool" where
  "dates_ok lib clock \<longleftrightarrow> (\<forall>w. year_ok (fst (clock w))) \<and>
     (\<forall>der leaf. ParseCertificate lib der = Inr leaf \<longrightarrow> year_ok (XNotBefore leaf) \<and> year_ok (XNotAfter leaf))"

section \<open>The users of the issues\<close>

lemma issues_have_int64:
  assumes "decode_issues j = Some raws"
  shows "list_all (\<lambda>r. int64 (RawID r)) raws"
proof -
  let ?P = "\<lambda>r. int64 (RawID r)"
  have user: "f j s = Some s' \<Longrightarrow> ?P s \<Longrightarrow> ?P s'" if "f \<in> snd ` set user_fields" for f j s s'
    using that by (auto simp: user_fields_def decode_int64_range)
  have users: "decode_struct False user_fields j s = Some s' \<Longrightarrow> ?P s \<Longrightarrow> ?P s'" for j s s'
    by (rule decode_struct_keeps [of user_fields ?P, OF user])
  have one: "decode_struct False issue_fields j s = Some s' \<Longrightarrow> ?P s \<Longrightarrow> ?P s'" for j s s'
  proof (rule decode_struct_keeps [of issue_fields ?P])
    fix f j s s' assume "f \<in> snd ` set issue_fields" "f j s = Some s'" "?P s"
    then show "?P s'" by (auto simp: issue_fields_def intro: users)
  qed
  obtain xs sp where "decode_slice (decode_struct False issue_fields) zero_raw_issue j (None, []) = Some (xs, sp)"
    "raws = (case xs of None \<Rightarrow> [] | Some ys \<Rightarrow> ys)"
    using assms by (auto simp: decode_issues_def)
  then show ?thesis
    using decode_elems_all [of "decode_struct False issue_fields" ?P zero_raw_issue, OF one]
    by (auto simp: decode_slice_def zero_raw_issue_def int64_def Let_def split: json.splits option.splits)
qed

lemma listed_ids:
  assumes "listOpenIssues http c label w = (Inr iss, w')"
  shows "list_all (\<lambda>i. int64 (AuthorUserID (Author i))) iss"
proof -
  obtain raws where d: "do_request http c ''GET'' (list_path c label) None (Some decode_issues) [] w = (Inr raws, w')"
    "iss = keep_issues raws"
    using assms by (auto simp: listOpenIssues_def split: prod.splits sum.splits)
  obtain resp :: http_response where "decode_into (Some decode_issues) [] (RespBody resp) = Inr raws"
    using d(1) unfolding do_request_Inr by auto
  then have "list_all (\<lambda>r. int64 (RawID r)) raws"
    by (auto simp: decode_into_def issues_have_int64 split: if_splits option.splits bind_splits)
  then show ?thesis
    by (auto simp: d(2) keep_issues_filter list_all_iff issue_of_raw_def)
qed

section \<open>What the parts of a command do to the ledgers\<close>

text \<open>The invariant of a tame call, so that the rules for \<open>preserves\<close> apply to it.\<close>

definition within :: "('w \<Rightarrow> string \<Rightarrow> version list) \<Rightarrow> ('w \<Rightarrow> bool) \<Rightarrow> 'w \<Rightarrow> 'w \<Rightarrow> bool" where
  "within hist good w0 w \<longleftrightarrow> good w \<and> honest hist w0 w"

lemma tame_preserves_within: "tame hist good f \<Longrightarrow> preserves (within hist good w0) f"
  unfolding tame_def within_def by (rule preservesI) (meson honest_trans)

lemma tameI: "(\<And>w0. preserves (within hist good w0) f) \<Longrightarrow> tame hist good f"
  unfolding tame_def by (metis honest_refl preservesD within_def)

lemma openssl_Verify_preserves:
  assumes "\<And>p. preserves I (CreateTemp os p)" "\<And>p. preserves I (\<lambda>w. ((), RemoveFile os p w))"
    "\<And>c s. preserves I (RunCommand os c s)" "\<And>p. preserves I (ReadFile os p)"
  shows "preserves I (openssl_Verify lib os b)"
proof (rule preservesI)
  have rm: "I w \<Longrightarrow> I (RemoveFile os p w)" for p w
    using assms(2) [of p] by (simp add: preserves_def)
  note step = preservesD [OF assms(1)] preservesD [OF assms(3)] preservesD [OF assms(4)]
  fix w r w' assume "openssl_Verify lib os b w = (r, w')" "I w"
  then show "I w'"
    by (auto simp: openssl_Verify_def openssl_run_def split: prod.splits sum.splits run_status.splits intro!: rm dest!: step)
qed

lemma load_paths_preserves:
  assumes "\<And>p. preserves I (ReadFile os p)"
  shows "load_paths os ps ls w = (r, w') \<Longrightarrow> I w \<Longrightarrow> I w'"
  by (induction ps arbitrary: ls w) (auto split: prod.splits sum.splits dest!: preservesD [OF assms])

lemma LoadAll_preserves:
  assumes "\<And>p. preserves I (StatIsDir fs p)" "\<And>d p. preserves I (GlobIn fs d p)" "\<And>p. preserves I (ReadFile os p)"
  shows "preserves I (LoadAll fs os dir)"
proof (rule preservesI)
  note step = preservesD [OF assms(1)] preservesD [OF assms(2)] load_paths_preserves [OF assms(3)]
  fix w r w' assume "LoadAll fs os dir w = (r, w')" "I w"
  then show "I w'" by (auto simp: LoadAll_def split: prod.splits sum.splits if_splits dest!: step)
qed

lemma write_locally_preserves:
  assumes "\<And>p. preserves I (MkdirAll os p)" "\<And>p d. preserves I (WriteFile os p d)"
  shows "preserves I (write_locally os der)"
proof (rule preservesI)
  note step = preservesD [OF assms(1)] preservesD [OF assms(2)]
  fix w r w' assume "write_locally os der w = (r, w')" "I w"
  then show "I w'" by (auto simp: write_locally_def split: prod.splits sum.splits dest!: step)
qed

lemma local_New_preserves:
  assumes "preserves I (GenerateKey lib rd)" "preserves I rd" "\<And>t p k s. preserves I (CreateCertificate lib (Some rd) t p k (EcdsaSigner lib s))"
  shows "preserves I (local_New lib rd now)"
proof (rule preservesI)
  note step = preservesD [OF assms(1)] rand_int_preserves [OF assms(2)] preservesD [OF assms(3)]
  fix w r w' assume "local_New lib rd now w = (r, w')" "I w"
  then show "I w'" by (auto simp: local_New_def Let_def split: prod.splits sum.splits dest!: step)
qed

lemma tame_cryptoD:
  assumes "tame_crypto hist good lib"
  shows "tame hist good (RandReader lib)"
    and "(case rd of None \<Rightarrow> True | Some f \<Rightarrow> tame hist good f) \<Longrightarrow> (\<And>d h. tame hist good (SignDigest s d h)) \<Longrightarrow>
      tame hist good (CreateCertificate lib rd t p k s)"
    and "(case rd of None \<Rightarrow> True | Some f \<Rightarrow> tame hist good f) \<Longrightarrow> (\<And>d h. tame hist good (SignDigest s d h)) \<Longrightarrow>
      tame hist good (CreateRevocationList lib rd l x s)"
    and "tame hist good (SignDigest (EcdsaSigner lib ec) d h)"
    and "tame hist good f \<Longrightarrow> tame hist good (GenerateKey lib f)"
  using assms unfolding tame_crypto_def by blast+

lemma tame_osD:
  assumes "tame_os hist good os"
  shows "tame hist good (CreateTemp os p)" "tame hist good (\<lambda>w. ((), RemoveFile os p w))" "tame hist good (RunCommand os c t)"
    "tame hist good (ReadFile os p)" "tame hist good (WriteFile os p d)" "tame hist good (MkdirAll os p)"
  using assms by (simp_all add: tame_os_def)

section \<open>The signers\<close>

definition tame_signer :: "('w \<Rightarrow> string \<Rightarrow> version list) \<Rightarrow> ('w \<Rightarrow> bool) \<Rightarrow> 'w signer \<Rightarrow> bool" where
  "tame_signer hist good sg \<longleftrightarrow> (\<forall>t p. tame hist good (Sign sg t p)) \<and> (\<forall>l. tame hist good (SignCRL sg l))"

text \<open>A request to Vault is a POST.\<close>

lemma signDigest_tame:
  assumes "calls_tame http c hist good"
  shows "tame hist good (signDigest http s digest)"
  unfolding tame_def
proof (intro allI impI)
  fix w r w' assume w: "good w" and run: "signDigest http s digest w = (r, w')"
  let ?rq = "\<lparr>ReqMethod = ''POST'', ReqUrl = sign_url (VaultCfg s),
    ReqHeader = [(''X-Vault-Token'', VaultToken (VaultCfg s)), (''Content-Type'', ''application/json'')],
    ReqBody = Some (compact_json (sign_request_body digest))\<rparr>"
  have "w' = w \<or> (\<exists>rr. RoundTrip http ?rq w = (rr, w'))"
    using run by (auto simp: signDigest_def Let_def split: option.splits prod.splits sum.splits if_splits)
  then consider "w' = w" | rr where "RoundTrip http ?rq w = (rr, w')" by blast
  moreover have "tame hist good (RoundTrip http ?rq)" using assms unfolding calls_tame_def by simp
  ultimately show "good w' \<and> honest hist w w'" using w unfolding tame_def by cases auto
qed

lemma cryptoSigner_tame: "calls_tame http c hist good \<Longrightarrow> tame hist good (SignDigest (cryptoSigner http s) d h)"
  using signDigest_tame [of http c hist good s d]
  by (auto simp: cryptoSigner_def cryptoSigner_Sign_def [abs_def] tame_def)

lemma zeroReader_tame: "tame hist good zeroReader"
  by (simp add: tame_def zeroReader_def)

text \<open>A signer is the library with a reader and a key, its errors in other words.\<close>

lemma signer_tameI:
  assumes lib: "tame_crypto hist good lib" and rd: "tame hist good rd" and key: "\<And>d h. tame hist good (SignDigest k d h)"
    and sign: "\<And>t p w. snd (Sign sg t p w) = snd (CreateCertificate lib (Some rd) t c p k w)"
    and crl: "\<And>l w. snd (SignCRL sg l w) = snd (CreateRevocationList lib (Some rd) l c k w)"
  shows "tame_signer hist good sg"
  unfolding tame_signer_def
proof (intro conjI allI)
  show "tame hist good (Sign sg t p)" for t p
    by (rule tame_same_world [OF tame_cryptoD(2) [OF lib] sign]) (simp_all add: rd key)
  show "tame hist good (SignCRL sg l)" for l
    by (rule tame_same_world [OF tame_cryptoD(3) [OF lib] crl]) (simp_all add: rd key)
qed

lemma vault_tame:
  "calls_tame http c hist good \<Longrightarrow> tame_crypto hist good lib \<Longrightarrow> tame_signer hist good (vault_signer_of lib http s)"
  by (rule signer_tameI [where c = "VaultIssuer s" and k = "cryptoSigner http s", OF _ zeroReader_tame cryptoSigner_tame])
     (auto simp: vault_signer_of_def vault_Sign_def vault_SignCRL_def split: prod.split sum.split)

lemma pem_tame: "tame_crypto hist good lib \<Longrightarrow> tame_signer hist good (pem_signer_of lib s)"
  by (rule signer_tameI [where c = "PemCert s" and k = "EcdsaSigner lib (PemKey s)", OF _ tame_cryptoD(1) tame_cryptoD(4)])
     (auto simp: pem_signer_of_def pem_Sign_def pem_SignCRL_def split: prod.split sum.split)

lemma local_tame: "tame_crypto hist good lib \<Longrightarrow> tame_signer hist good (local_signer_of lib s)"
  by (rule signer_tameI [where c = "LocalCert s" and k = "EcdsaSigner lib (LocalKey s)", OF _ tame_cryptoD(1) tame_cryptoD(4)])
     (auto simp: local_signer_of_def local_Sign_def local_SignCRL_def split: prod.split sum.split)

lemma local_New_tame:
  assumes lib: "tame_crypto hist good lib"
  shows "tame hist good (local_New lib (RandReader lib) now)"
  by (rule tameI, rule local_New_preserves; rule tame_preserves_within)
     (simp_all add: tame_cryptoD [OF lib])

lemma loadCert_tame:
  assumes os: "tame_os hist good os"
  shows "tame hist good (CmdIssuer.loadCert lib os path)" "tame hist good (CmdCrlgen.loadCert lib os path)"
proof -
  have same: "CmdIssuer.loadCert lib os path = CmdCrlgen.loadCert lib os path"
    by (simp add: fun_eq_iff CmdIssuer.loadCert_def CmdCrlgen.loadCert_def)
  show crlgen: "tame hist good (CmdCrlgen.loadCert lib os path)"
  proof (cases "path = []")
    case True
    then show ?thesis by (simp add: tame_def CmdCrlgen.loadCert_def)
  next
    case False
    then show ?thesis
      by (intro tame_same_world [OF tame_osD(4) [OF os, of path]])
         (simp add: CmdCrlgen.loadCert_def split: prod.split sum.split option.split)
  qed
  then show "tame hist good (CmdIssuer.loadCert lib os path)" by (simp add: same)
qed

lemma newSigner_tame:
  assumes "tame_os hist good os"
  shows "tame hist good (CmdIssuer.newSigner lib http os)"
proof (rule tameI, rule preservesI)
  note step = preservesD [OF tame_preserves_within [OF loadCert_tame(1) [OF assms]]]
  fix w0 w r w' assume "CmdIssuer.newSigner lib http os w = (r, w')" "within hist good w0 w"
  then show "within hist good w0 w'"
    by (auto simp: CmdIssuer.newSigner_def split: if_splits prod.splits sum.splits dest!: step)
qed

lemma res_map_Inr: "res_map f r = Inr y \<longleftrightarrow> (\<exists>x. r = Inr x \<and> y = f x)"
  by (cases r) auto

lemma newSigner_signs:
  assumes "calls_tame http c hist good" "tame_crypto hist good lib" "CmdIssuer.newSigner lib http os w = (Inr sg, w')"
  shows "tame_signer hist good sg"
  using assms(3) vault_tame [OF assms(1,2)] pem_tame [OF assms(2)]
  by (auto simp: CmdIssuer.newSigner_def res_map_Inr split: if_splits prod.splits sum.splits)

lemma crlgen_newSigner_tame:
  assumes os: "tame_os hist good os" and lib: "tame_crypto hist good lib"
  shows "tame hist good (CmdCrlgen.newSigner lib http os now)"
proof (rule tameI, rule preservesI)
  note step = preservesD [OF tame_preserves_within [OF loadCert_tame(2) [OF os]]]
    preservesD [OF tame_preserves_within [OF local_New_tame [OF lib]]]
  fix w0 w r w' assume "CmdCrlgen.newSigner lib http os now w = (r, w')" "within hist good w0 w"
  then show "within hist good w0 w'"
    by (auto simp: CmdCrlgen.newSigner_def split: if_splits prod.splits sum.splits dest!: step)
qed

lemma crlgen_newSigner_signs:
  assumes "calls_tame http c hist good" "tame_crypto hist good lib" "CmdCrlgen.newSigner lib http os now w = (Inr sg, w')"
  shows "tame_signer hist good sg"
  using assms(3) vault_tame [OF assms(1,2)] pem_tame [OF assms(2)] local_tame [OF assms(2)]
  by (auto simp: CmdCrlgen.newSigner_def res_map_Inr split: if_splits prod.splits sum.splits)

section \<open>The repository on GitHub\<close>

definition client_for :: "string \<Rightarrow> rest_client" where
  "client_for repo = \<lparr>cfg = \<lparr>Token = [], BotLogin = [], CfgRepo = repo, APIBase = []\<rparr>, base = defaultAPIBase\<rparr>"

text \<open>The promises of the API are about the URLs of the files, whoever the bot is.\<close>

lemma honest_api_url: "ledger_url c = ledger_url c' \<Longrightarrow> honest_api http c hist good = honest_api http c' hist good"
  by (simp add: honest_api_def contents_api_def)

lemma honest_api_New:
  assumes "honest_api http (client_for repo) hist good" "RestClient.New \<lparr>Token = t, BotLogin = b, CfgRepo = repo, APIBase = []\<rparr> = Inr c"
  shows "honest_api http c hist good" "CfgRepo (cfg c) = repo"
proof -
  have "ledger_url c = ledger_url (client_for repo)" "CfgRepo (cfg c) = repo"
    using assms(2) by (auto simp: RestClient.New_def ledger_url_def client_for_def defaultAPIBase_def trim_right_byte_def split: if_splits)
  then show "honest_api http c hist good" "CfgRepo (cfg c) = repo" using honest_api_url [of c "client_for repo" http hist good] assms(1) by simp_all
qed

lemma listOpenIssues_tame: "calls_tame http c hist good \<Longrightarrow> tame hist good (listOpenIssues http c label)"
  by (erule tame_same_world [OF do_request_tame [of http c hist good "''GET''" "list_path c label" None "Some decode_issues" "[]"]])
     (auto simp: listOpenIssues_def split: prod.split sum.split)

text \<open>The published list is not a ledger.\<close>

lemma crl_url_not_ledger: "base c @ contents_path (CfgRepo (cfg c)) crlPath \<notin> range (ledger_url c)"
  by (auto simp: ledger_url_def contents_path_def crlPath_def ledger_path_def trim_prefix_def)

lemma publishCRL_tame:
  assumes api: "calls_tame http c hist good" and repo: "CfgRepo (cfg c) = repo"
  shows "tame hist good (publishCRL (rest_github http c) repo der)"
proof (rule tameI, rule preservesI)
  have put: "tame hist good (rest_PutFile http c repo crlPath ct prev m)" for ct prev m
    unfolding rest_PutFile_def putContents_def
    by (rule do_request_tame [OF api]) (use crl_url_not_ledger [of c] repo in simp)
  have get: "tame hist good (rest_GetFile http c repo crlPath)"
    unfolding rest_GetFile_def by (rule getContents_tame [OF api])
  note step = preservesD [OF tame_preserves_within [OF put]] preservesD [OF tame_preserves_within [OF get]]
  fix w0 w r w' assume "publishCRL (rest_github http c) repo der w = (r, w')" "within hist good w0 w"
  then show "within hist good w0 w'"
    by (auto simp: publishCRL_def Let_def split: if_splits prod.splits sum.splits dest!: step)
qed

section \<open>The poll loops\<close>

lemma poll_issues_preserves:
  assumes "\<And>i w r w'. i \<in> set is \<Longrightarrow> process i w = Some (r, w') \<Longrightarrow> I w \<Longrightarrow> I w'"
  shows "poll_issues process is f w = Some (n, w') \<Longrightarrow> I w \<Longrightarrow> I w'"
  using assms
proof (induction "is" arbitrary: f w)
  case (Cons i "is")
  obtain r w1 where p: "process i w = Some (r, w1)" using Cons.prems(1) by (cases "process i w") auto
  then have "I w1" using Cons.prems(2,3) by auto
  moreover obtain f' where "poll_issues process is f' w1 = Some (n, w')" using Cons.prems(1) p by (cases r) auto
  ultimately show ?case using Cons.IH [of f' w1] Cons.prems(3) by (meson list.set_intros(2))
qed simp

lemma revoke_issues_preserves:
  assumes "\<And>i w r w'. process i w = (r, w') \<Longrightarrow> I w \<Longrightarrow> I w'"
  shows "revoke_issues process is f w = (n, w') \<Longrightarrow> I w \<Longrightarrow> I w'"
proof (induction "is" arbitrary: f w)
  case (Cons i "is")
  obtain r w1 where p: "process i w = (r, w1)" by (metis surj_pair)
  then have "I w1" using assms Cons.prems(2) by blast
  moreover obtain f' where "revoke_issues process is f' w1 = (n, w')" using Cons.prems(1) p by (cases r) auto
  ultimately show ?case using Cons.IH by blast
qed simp

context honest_files begin

lemma poll_issues_stay:
  assumes d: "tame_issuer hist good gh d" and ok: "\<And>i. i \<in> set is \<Longrightarrow> outside_ok lib d i"
  shows "poll_issues (Enroll.Process lib xml d) is f w = Some (n, w') \<Longrightarrow> stays hist good w0 w \<Longrightarrow> stays hist good w0 w'"
  by (erule poll_issues_preserves [rotated]) (use issuer_stays [OF _ d ok] in blast)+

lemma revoke_issues_stay:
  assumes d: "tame_revoker hist good gh d"
  shows "revoke_issues (Revoke.Process lib d) is f w = (n, w') \<Longrightarrow> stays hist good w0 w \<Longrightarrow> stays hist good w0 w'"
  by (erule revoke_issues_preserves [rotated]) (use revoker_stays [OF _ d] in blast)+

end

section \<open>Whole runs\<close>

lemma issuer_run_stays:
  assumes api: "honest_api http (client_for repo) hist good" and repo: "Getenv os ''GITHUB_REPOSITORY'' = repo"
    and lib: "tame_crypto hist good lib" and os: "tame_os hist good os" and clock: "tame hist good clock" "dates_ok lib clock"
    and run: "CmdIssuer.run lib xml http os clock w = Some (r, w')" and s: "stays hist good w0 w"
  shows "stays hist good w0 w'"
proof (cases "RestClient.New (rest_config_of os)")
  case (Inl e)
  then show ?thesis using run s by (simp add: CmdIssuer.run_def)
next
  case (Inr c)
  have api_c: "honest_api http c hist good"
    using honest_api_New(1) [OF api] Inr repo by (simp add: rest_config_of_def)
  obtain sr w1 where sg: "CmdIssuer.newSigner lib http os w = (sr, w1)" by (metis surj_pair)
  have s1: "stays hist good w0 w1" by (rule preservesD [OF tame_preserves [OF newSigner_tame [OF os]] sg s])
  show ?thesis
  proof (cases sr)
    case (Inl e)
    then show ?thesis using run Inr sg s1 by (simp add: CmdIssuer.run_def)
  next
    case (Inr signer)
    note c = \<open>RestClient.New (rest_config_of os) = Inr c\<close>
    let ?d = "\<lparr>GH = rest_github http c, Signer = signer, Clock = clock, Rand = RandReader lib\<rparr>"
    obtain lr w2 where list: "rest_ListOpenCertRequests http c w1 = (lr, w2)" by (metis surj_pair)
    have s2: "stays hist good w0 w2"
      by (rule preservesD [OF tame_preserves [OF listOpenIssues_tame [OF honest_calls [OF api_c]]] list [unfolded rest_ListOpenCertRequests_def] s1])
    show ?thesis
    proof (cases lr)
      case (Inl e)
      then show ?thesis using run c sg Inr list s2 by (simp add: CmdIssuer.run_def Let_def)
    next
      case (Inr issues)
      note signer = \<open>sr = Inr signer\<close>
      have "tame_signer hist good signer"
        using newSigner_signs [OF honest_calls [OF api_c] lib] sg signer by blast
      then have d: "tame_issuer hist good (rest_github http c) ?d"
        using clock(1) tame_cryptoD(1) [OF lib] by (simp add: tame_issuer_def tame_signer_def)
      have "list_all (\<lambda>i. int64 (AuthorUserID (Author i))) issues"
        by (rule listed_ids [OF list [unfolded rest_ListOpenCertRequests_def Inr]])
      then have ok: "outside_ok lib ?d i" if "i \<in> set issues" for i
        using clock(2) that by (simp add: outside_ok_def dates_ok_def list_all_iff)
      obtain n where "poll_issues (Enroll.Process lib xml ?d) issues 0 w2 = Some (n, w')"
        using run c sg signer list Inr by (auto simp: CmdIssuer.run_def Let_def)
      then show ?thesis
        using honest_files.poll_issues_stay [OF rest_honest_files [OF api_c] d ok] s2 by blast
    qed
  qed
qed

lemma revoker_run_stays:
  assumes api: "honest_api http (client_for repo) hist good" and repo: "Getenv os ''GITHUB_REPOSITORY'' = repo"
    and os: "tame_os hist good os" and run: "revoker_run lib http os clock w = (r, w')" and s: "stays hist good w0 w"
  shows "stays hist good w0 w'"
proof (cases "RestClient.New (revoker_config_of os)")
  case (Inl e)
  then show ?thesis using run s by (simp add: revoker_run_def)
next
  case (Inr c)
  have api_c: "honest_api http c hist good"
    using honest_api_New(1) [OF api] Inr repo by (simp add: revoker_config_of_def)
  let ?d = "\<lparr>RevGH = rest_github http c, RevVerifier = openssl_verifier lib os, RevClock = clock\<rparr>"
  obtain lr w1 where list: "rest_ListOpenRevocationRequests http c w = (lr, w1)" by (metis surj_pair)
  have s1: "stays hist good w0 w1"
    by (rule preservesD [OF tame_preserves [OF listOpenIssues_tame [OF honest_calls [OF api_c]]] list [unfolded rest_ListOpenRevocationRequests_def] s])
  have "tame hist good (openssl_Verify lib os b)" for b
    by (rule tameI, rule openssl_Verify_preserves; rule tame_preserves_within) (rule tame_osD [OF os])+
  then have d: "tame_revoker hist good (rest_github http c) ?d"
    by (simp add: tame_revoker_def openssl_verifier_def)
  show ?thesis
    using run Inr list s1 honest_files.revoke_issues_stay [OF rest_honest_files [OF api_c] d]
    by (auto simp: revoker_run_def Let_def split: sum.splits prod.splits)
qed

lemma privrevoke_run_stays:
  assumes api: "honest_api http (client_for repo) hist good" and repo: "Getenv os ''GITHUB_REPOSITORY'' = repo"
    and ok: "\<And>req. request_of os = Inr req \<Longrightarrow> operator_ok req"
    and run: "privrevoke_run http os clock w = (r, w')" and s: "stays hist good w0 w"
  shows "stays hist good w0 w'"
proof (cases "RestClient.New (revoker_config_of os)")
  case (Inl e)
  then show ?thesis using run s by (simp add: privrevoke_run_def)
next
  case (Inr c)
  have api_c: "honest_api http c hist good"
    using honest_api_New(1) [OF api] Inr repo by (simp add: revoker_config_of_def)
  show ?thesis
  proof (cases "request_of os")
    case (Inl e)
    then show ?thesis using run \<open>RestClient.New (revoker_config_of os) = Inr c\<close> s by (simp add: privrevoke_run_def)
  next
    case (Inr req)
    then show ?thesis
      using run \<open>RestClient.New (revoker_config_of os) = Inr c\<close>
      by (intro honest_files.operator_stays [OF rest_honest_files [OF api_c] s _ ok [OF Inr]]) (auto simp: privrevoke_run_def)
  qed
qed

lemma crlgen_run_stays:
  assumes api: "honest_api http (client_for repo) hist good" and repo: "Getenv os ''GITHUB_REPOSITORY'' = repo"
    and lib: "tame_crypto hist good lib" and os: "tame_os hist good os" and fs: "tame_dir hist good fs" and clock: "tame hist good clock"
    and run: "CmdCrlgen.run srt lib http fs os clock w = (r, w')" and s: "stays hist good w0 w"
  shows "stays hist good w0 w'"
proof -
  let ?I = "stays hist good w0"
  have load: "preserves ?I (LoadAll fs os dir)" for dir
    by (rule LoadAll_preserves; rule tame_preserves) (use fs tame_osD [OF os] in \<open>simp_all add: tame_dir_def\<close>)
  have local: "preserves ?I (write_locally os der)" for der
    by (rule write_locally_preserves; rule tame_preserves) (rule tame_osD [OF os])+
  have publish: "preserves ?I (publish http os der)" for der
  proof (rule preservesI)
    fix w r w' assume p: "publish http os der w = (r, w')" and w: "?I w"
    let ?cf = "\<lparr>Token = Getenv os ''GITHUB_TOKEN'', BotLogin = Getenv os ''ISSUER_BOT_LOGIN'', CfgRepo = repo, APIBase = []\<rparr>"
    consider "write_locally os der w = (r, w')" | "w' = w"
      | c where "RestClient.New ?cf = Inr c" "publishCRL (rest_github http c) repo der w = (r, w')"
      using p repo by (auto simp: publish_def Let_def split: if_splits sum.splits)
    then show "?I w'"
    proof cases
      case 3
      note c = honest_api_New [OF api 3(1)]
      show ?thesis by (rule preservesD [OF tame_preserves [OF publishCRL_tame [OF honest_calls [OF c(1)] c(2)]] 3(2) w])
    qed (use w preservesD [OF local] in blast)+
  qed
  have sign: "preserves ?I (SignCRL sg l)" if "CmdCrlgen.newSigner lib http os now v = (Inr sg, v')" for sg l now v v'
    by (rule tame_preserves) (use crlgen_newSigner_signs [OF honest_calls [OF api] lib that] in \<open>simp add: tame_signer_def\<close>)
  note step = preservesD [OF tame_preserves [OF clock]] preservesD [OF tame_preserves [OF crlgen_newSigner_tame [OF os lib]]]
    preservesD [OF load] preservesD [OF publish] preservesD [OF sign]
  show ?thesis
    using run s by (auto simp: CmdCrlgen.run_def split: prod.splits sum.splits dest: step)
qed

lemma seedcrl_run_stays:
  assumes lib: "tame_crypto hist good lib" and os: "tame_os hist good os"
    and run: "seedcrl_run lib os k c out now w = (r, w')" and s: "stays hist good w0 w"
  shows "stays hist good w0 w'"
proof -
  have crl: "tame hist good (CreateRevocationList lib None l x (EcdsaSigner lib ec))" for l x ec
    by (rule tame_cryptoD(3) [OF lib]) (simp_all add: tame_cryptoD(4) [OF lib])
  have key: "tame hist good (seedcrl_loadKey lib os p)" for p
    by (rule tame_same_world [OF tame_osD(4) [OF os, of p]])
       (simp add: seedcrl_loadKey_def split: prod.split sum.split option.split)
  have cert: "tame hist good (seedcrl_loadCert lib os p)" for p
    by (rule tame_same_world [OF tame_osD(4) [OF os, of p]])
       (simp add: seedcrl_loadCert_def split: prod.split sum.split option.split)
  note step = preservesD [OF tame_preserves [OF key]] preservesD [OF tame_preserves [OF cert]]
    preservesD [OF tame_preserves [OF crl]] preservesD [OF tame_preserves [OF tame_osD(5) [OF os]]]
  show ?thesis
    using run s by (auto simp: seedcrl_run_def split: prod.splits sum.splits dest!: step)
qed

text \<open>
  Any run of a command in the repository, with any environment, to any exit status, and honest changes by others.
\<close>

inductive deployed :: "'w http_lib \<Rightarrow> string \<Rightarrow> ('w \<Rightarrow> string \<Rightarrow> version list) \<Rightarrow> ('w \<Rightarrow> bool) \<Rightarrow> 'w \<Rightarrow> 'w \<Rightarrow> bool"
  for http repo hist good where
  issuer: "Getenv os ''GITHUB_REPOSITORY'' = repo \<Longrightarrow> tame_crypto hist good lib \<Longrightarrow> tame_os hist good os \<Longrightarrow>
    tame hist good clock \<Longrightarrow> dates_ok lib clock \<Longrightarrow> CmdIssuer.main lib xml http os clock w = Some (status, w') \<Longrightarrow>
    deployed http repo hist good w w'"
| revoker: "Getenv os ''GITHUB_REPOSITORY'' = repo \<Longrightarrow> tame_os hist good os \<Longrightarrow>
    revoker_main lib http os clock w = (status, w') \<Longrightarrow> deployed http repo hist good w w'"
| operator: "Getenv os ''GITHUB_REPOSITORY'' = repo \<Longrightarrow> (\<And>req. request_of os = Inr req \<Longrightarrow> operator_ok req) \<Longrightarrow>
    privrevoke_main http os clock w = (status, w') \<Longrightarrow> deployed http repo hist good w w'"
| crlgen: "Getenv os ''GITHUB_REPOSITORY'' = repo \<Longrightarrow> tame_crypto hist good lib \<Longrightarrow> tame_os hist good os \<Longrightarrow> tame_dir hist good fs \<Longrightarrow>
    tame hist good clock \<Longrightarrow> CmdCrlgen.main srt lib http fs os clock w = (status, w') \<Longrightarrow> deployed http repo hist good w w'"
| seedcrl: "tame_crypto hist good lib \<Longrightarrow> tame_os hist good os \<Longrightarrow> tame hist good clock \<Longrightarrow>
    seedcrl_main lib os clock k c out w = (status, w') \<Longrightarrow> deployed http repo hist good w w'"
| others: "good w' \<Longrightarrow> honest hist w w' \<Longrightarrow> deployed http repo hist good w w'"

inductive_cases deployedE: "deployed http repo hist good w w'"

lemma deployed_stays:
  assumes api: "honest_api http (client_for repo) hist good" and s: "stays hist good w0 w" and step: "deployed http repo hist good w w'"
  shows "stays hist good w0 w'"
  using step
proof (rule deployedE)
  fix os :: "'a os_lib" and lib :: "'a crypto_lib" and clock xml status
  assume "Getenv os ''GITHUB_REPOSITORY'' = repo" "tame_crypto hist good lib" "tame_os hist good os" "tame hist good clock" "dates_ok lib clock"
    "CmdIssuer.main lib xml http os clock w = Some (status, w')"
  then show ?thesis using issuer_run_stays [OF api] s by (auto simp: CmdIssuer.main_def)
next
  fix os :: "'a os_lib" and lib :: "'a crypto_lib" and clock status
  assume "Getenv os ''GITHUB_REPOSITORY'' = repo" "tame_os hist good os" "revoker_main lib http os clock w = (status, w')"
  then show ?thesis
    using revoker_run_stays [OF api _ _ _ s] by (cases "revoker_run lib http os clock w") (auto simp: revoker_main_def)
next
  fix os :: "'a os_lib" and clock status
  assume "Getenv os ''GITHUB_REPOSITORY'' = repo" "\<And>req. request_of os = Inr req \<Longrightarrow> operator_ok req"
    "privrevoke_main http os clock w = (status, w')"
  then show ?thesis
    using privrevoke_run_stays [OF api _ _ _ s] by (cases "privrevoke_run http os clock w") (auto simp: privrevoke_main_def)
next
  fix os :: "'a os_lib" and lib :: "'a crypto_lib" and fs srt clock status
  assume "Getenv os ''GITHUB_REPOSITORY'' = repo" "tame_crypto hist good lib" "tame_os hist good os" "tame_dir hist good fs" "tame hist good clock"
    "CmdCrlgen.main srt lib http fs os clock w = (status, w')"
  then show ?thesis
    using crlgen_run_stays [OF api _ _ _ _ _ _ s] by (cases "CmdCrlgen.run srt lib http fs os clock w") (auto simp: CmdCrlgen.main_def)
next
  fix os :: "'a os_lib" and lib :: "'a crypto_lib" and clock k c out status
  assume lib: "tame_crypto hist good lib" and os: "tame_os hist good os" and clock: "tame hist good clock"
    and run: "seedcrl_main lib os clock k c out w = (status, w')"
  obtain now w1 where clk: "clock w = (now, w1)" by (metis surj_pair)
  have s1: "stays hist good w0 w1" by (rule preservesD [OF tame_preserves [OF clock] clk s])
  obtain r w2 where r: "seedcrl_run lib os k c out now w1 = (r, w2)" by (metis surj_pair)
  have "w' = w \<or> w' = w2" using run clk r by (auto simp: seedcrl_main_def split: if_splits)
  then show ?thesis using s seedcrl_run_stays [OF lib os r s1] by blast
next
  assume "good w'" "honest hist w w'"
  then show ?thesis
    using s honest_all_sound [of hist w w'] honest_trans [of hist w0 w w'] by (simp add: stays_def)
qed

section \<open>Property\<close>

text \<open>C7: The registry outlives every deployment: from ledger files that are well formed, runs of issuer, revoker, privrevoke, crlgen and seedcrl follow
  each other in a repository, in any order and number, each with its own environment, signer and
  requests and to any exit status, while others write registry steps only, during every request
  and between the runs. The clock and the certificates have dates in years of four digits, the
  libraries, the processes and the files of a run leave the ledgers alone, and a
  date that the operator of privrevoke gives lies in such a year too (a later one is written and
  makes the ledger unreadable: a finding of its own). Then each ledger file only gains versions,
  each a well-formed ledger one registry step from the version below it, so that no owner, no
  certificate and no revocation is ever lost. The calls of a run may be interleaved with those of
  another, whose writes are such steps again.\<close>
theorem deployment_keeps_the_registry:
  assumes "honest_api http (client_for repo) hist good" and "good w" and "all_sound hist w"
    and "(deployed http repo hist good)\<^sup>*\<^sup>* w w'"
  shows "kept_honest hist w w'"
proof -
  from assms(4) have "stays hist good w w'"
    by (induction rule: rtranclp_induct) (blast intro: stays_start assms(2,3) deployed_stays [OF assms(1)])+
  then show ?thesis by (rule stays_kept [OF assms(3)])
qed

end
