(* ===== verification/Progress.thy ===== *)
theory Progress imports RestStore CmdRevoker begin

text \<open>
  Progress among other writers. On a GitHub that answers, a retry loop gives up only after others have
  written the file at least as often as it tried: when all writers are these bots, one of them
  always gets on. The first version of a file is the exception: GitHub does not call it a conflict
  that the file is there already, and so the loop ends with the first write of another.
\<close>

section \<open>A GitHub that answers\<close>

text \<open>A version other than \<open>p\<close> was the latest at some time between two worlds.\<close>

definition overtaken :: "string \<Rightarrow> string \<Rightarrow> version list \<Rightarrow> version list \<Rightarrow> bool" where
  "overtaken a p before after \<longleftrightarrow>
     (\<exists>vs. (honest_write a)\<^sup>*\<^sup>* before vs \<and> (honest_write a)\<^sup>*\<^sup>* vs after \<and> p \<noteq> current_sha vs)"

locale answering_files = honest_files +
  assumes get_answers: "good w \<Longrightarrow> GetLedger gh a w = (Inl e, w') \<Longrightarrow> errors_is e ErrNotFound"
    and put_answers: "good w \<Longrightarrow> known_sha (hist w a) p \<Longrightarrow> PutLedger gh a c p m w = (Inl e, w') \<Longrightarrow>
      (p \<noteq> [] \<longrightarrow> errors_is e ErrConflict) \<and> honest hist w w' \<and> overtaken a p (hist w a) (hist w' a)"

text \<open>The writes of others without which \<open>n\<close> rounds do not fail.\<close>

definition rounds :: "version list \<Rightarrow> nat \<Rightarrow> nat" where
  "rounds vs n = (if vs = [] then min n 1 else n)"

lemma rounds_simps [simp]: "rounds vs 0 = 0" "vs \<noteq> [] \<Longrightarrow> rounds vs n = n" "rounds vs n \<le> n"
  by (simp_all add: rounds_def)

lemma overtaken_longer:
  assumes "overtaken a (current_sha before) before after"
  shows "length before < length after"
proof -
  obtain vs where vs: "suffix before vs" "suffix vs after" "current_sha before \<noteq> current_sha vs"
    using assms honest_suffix unfolding overtaken_def by blast
  obtain new where "vs = new @ before" using vs(1) by (auto simp: suffix_def)
  then have "length before < length vs" using vs(3) by (cases new) auto
  then show ?thesis using suffix_length_le [OF vs(2)] by simp
qed

lemma overtaken_later: "(honest_write a)\<^sup>*\<^sup>* vs0 vs \<Longrightarrow> overtaken a p vs vs' \<Longrightarrow> overtaken a p vs0 vs'"
  unfolding overtaken_def by (meson rtranclp_trans)

lemma stays_longer: "stays hist good w w' \<Longrightarrow> length (hist w a) \<le> length (hist w' a)"
  using honest_extends [of hist w w'] by (simp add: stays_def extends_def suffix_length_le)

lemma stays_within: "stays hist good w0 w1 \<Longrightarrow> honest hist w1 w2 \<Longrightarrow> good w2 \<Longrightarrow> stays hist good w1 w2"
  using honest_all_sound [of hist w1 w2] by (simp add: stays_def)

text \<open>Honest histories grow by one version at a time.\<close>

lemma honest_below:
  assumes "(honest_write a)\<^sup>*\<^sup>* vs (v # older)" "vs \<noteq> v # older"
  shows "(honest_write a)\<^sup>*\<^sup>* vs older \<and> honest_write a older (v # older)"
  using assms by (cases rule: rtranclp.cases) (auto elim!: honest_writeE intro: honest_write)

text \<open>A ledger as it is now.\<close>

definition up_to_date :: "version list \<Rightarrow> ledger option \<Rightarrow> string \<Rightarrow> bool" where
  "up_to_date vs ex sha \<longleftrightarrow> was_read vs ex sha \<and> ledger_of vs = ex \<and> sha = current_sha vs"

lemma sound_up_to_date: "sound a vs \<Longrightarrow> up_to_date vs (ledger_of vs) (current_sha vs)"
  by (cases vs) (auto simp: up_to_date_def was_read_def ledger_of_def current_sha_def sound_def)

context answering_files begin

lemma get_latest:
  assumes s: "stays hist good w0 w" and get: "GetLedger gh a w = (r, w')"
  shows "stays hist good w0 w' \<and>
    (case r of Inl e \<Rightarrow> errors_is e ErrNotFound \<and> up_to_date (hist w' a) None []
     | Inr (data, sha) \<Rightarrow> \<exists>l. Ledger.Parse data = Inr l \<and> up_to_date (hist w' a) (Some l) sha)"
proof -
  have s': "stays hist good w0 w'" by (rule preservesD [OF tame_preserves [OF get_tame] get s])
  have w: "good w" and so: "sound a (hist w' a)" using s s' by (simp_all add: stays_def all_sound_def)
  show ?thesis
  proof (cases r)
    case (Inl e)
    then have e: "errors_is e ErrNotFound" using get_answers [OF w] get by blast
    have "hist w' a = []" by (rule get_missing [OF w get [unfolded Inl] e])
    then show ?thesis using s' e Inl by (simp add: up_to_date_def was_read_def ledger_of_def current_sha_def)
  next
    case (Inr cs)
    obtain data sha where cs: "cs = (data, sha)" by (cases cs)
    obtain older where "hist w' a = (data, sha) # older" using get_found [OF w get [unfolded Inr cs]] by blast
    then show ?thesis
      using s' so Inr cs by (auto simp: up_to_date_def was_read_def ledger_of_def current_sha_def sound_def)
  qed
qed

lemma load_latest:
  assumes "stays hist good w0 w" "GH d = gh" "Enroll.loadLedger d a w = (r, w')"
  shows "\<exists>ex sha. r = Inr (ex, sha) \<and> up_to_date (hist w' a) ex sha \<and> stays hist good w0 w'"
proof -
  obtain gr where g: "GetLedger gh a w = (gr, w')"
    using assms(2,3) by (auto simp: Enroll.loadLedger_def split: prod.splits sum.splits if_splits)
  show ?thesis
    using get_latest [OF assms(1) g] assms(2,3) g by (cases gr) (auto simp: Enroll.loadLedger_def split: prod.splits)
qed

lemma revoke_load_latest:
  assumes "stays hist good w0 w" "Revoke.loadLedger gh a w = (r, w')"
  shows "\<exists>ex sha. r = Inr (ex, sha) \<and> up_to_date (hist w' a) ex sha \<and> stays hist good w0 w'"
proof -
  obtain gr where g: "GetLedger gh a w = (gr, w')"
    using assms(2) by (auto simp: Revoke.loadLedger_def split: prod.splits sum.splits if_splits)
  show ?thesis
    using get_latest [OF assms(1) g] assms(2) g by (cases gr) (auto simp: Revoke.loadLedger_def split: prod.splits)
qed

text \<open>A write that fails, of a ledger that was the latest at some time before, was overtaken.\<close>

lemma put_overtaken:
  assumes s: "stays hist good w0 w" and w0: "good w0" and cur: "up_to_date (hist w0 a) ex sha"
    and put: "PutLedger gh a c sha m w = (Inl e, w')"
  shows "(hist w0 a \<noteq> [] \<longrightarrow> errors_is e ErrConflict) \<and> stays hist good w w' \<and> length (hist w0 a) < length (hist w' a)"
proof -
  have w: "good w" and h: "(honest_write a)\<^sup>*\<^sup>* (hist w0 a) (hist w a)" using s by (simp_all add: stays_def honest_def)
  have "was_read (hist w a) ex sha"
    using cur s was_read_extends [of hist w0 a ex sha w] honest_extends [of hist w0 w] unfolding up_to_date_def stays_def by blast
  then have p: "known_sha (hist w a) sha" by (rule was_read_known)
  have "sha \<noteq> []" if ne: "hist w0 a \<noteq> []"
  proof (cases "hist w0 a")
    case (Cons v older)
    then have "(fst v, snd v) \<in> set (hist w0 a)" by simp
    from sha_nonempty [OF w0 this] show ?thesis using cur Cons by (simp add: up_to_date_def current_sha_def split: prod.splits)
  qed (use ne in simp)
  note named = this
  note o = put_answers [OF w p put]
  then have "overtaken a (current_sha (hist w0 a)) (hist w0 a) (hist w' a)"
    using cur overtaken_later [OF h] by (simp add: up_to_date_def)
  then have "length (hist w0 a) < length (hist w' a)" by (rule overtaken_longer)
  then show ?thesis using o named put_keeps [OF w put] stays_within [OF s] by blast
qed

end

section \<open>The loops\<close>

lemma stored_cert_serial: "Serial (stored_cert c) = to_valid (Serial c)"
  by (simp add: stored_cert_def)

lemma stored_status: "to_valid StatusRevoked = StatusRevoked"
  by (simp add: StatusRevoked_def is_ascii_def)

text \<open>An entry that is found stays found while the ledger grows.\<close>

definition finds :: "find_func \<Rightarrow> bool" where
  "finds fnd \<longleftrightarrow> (\<forall>l idx. fnd (Some l) = Some idx \<longrightarrow> idx < length (certs l)) \<and>
     (\<forall>l l' idx. fnd (Some l) = Some idx \<longrightarrow> grows_to l l' \<longrightarrow> (\<exists>idx'. fnd (Some l') = Some idx'))"

lemma find_index_grows:
  assumes "find_index p xs = Some i" "length xs \<le> length ys" "\<And>k. k < length xs \<Longrightarrow> p (xs ! k) = p (ys ! k)"
  shows "find_index p ys = Some i"
  using assms by (auto simp: find_index_Some)

lemma grown_found:
  assumes "grows_to l l'"
  shows "findBySerial (Some l) s = Some i \<Longrightarrow> findBySerial (Some l') s = Some i"
    and "findByFingerprint (Some l) s = Some i \<Longrightarrow> findByFingerprint (Some l') s = Some i"
  using assms find_index_grows [of _ "certs l" i "certs l'"]
  by (simp_all add: findBySerial_def findByFingerprint_def grows_to_def same_identity_def)

lemma found_index:
  "findBySerial (Some l) s = Some i \<Longrightarrow> i < length (certs l) \<and> Serial (certs l ! i) = s"
  "findByFingerprint (Some l) s = Some i \<Longrightarrow> i < length (certs l)"
  by (auto simp: findBySerial_def findByFingerprint_def find_index_Some)

lemma finders [simp]:
  "finds (\<lambda>l. findBySerial l s)" "finds (\<lambda>l. findByFingerprint l s)"
  unfolding finds_def using grown_found found_index by blast+

context answering_files begin

text \<open>The ledger was the latest in a world \<open>w0\<close> before the loop, of which the writes count.\<close>

lemma commit_gives_way:
  assumes "stays hist good w0 w" and "good w0" and d: "GH d = gh" and "up_to_date (hist w0 a) ex sha"
    and "commit_loop d a repo e now n lc ex sha w = (Inl err, w')"
  shows "length (hist w0 a) + rounds (hist w0 a) n \<le> length (hist w' a)"
  using assms(1,2,4,5)
proof (induction n arbitrary: lc ex sha w w0)
  case 0
  then show ?case using stays_longer [of hist good w0 w a] by (simp add: Let_def)
next
  case (Suc n)
  obtain data where data: "Marshal (next_ledger a repo now e ex) = Inr data" by (simp add: Marshal_def)
  obtain ur w1 where put: "PutLedger gh a data sha (issue_message a) w = (ur, w1)" by (metis surj_pair)
  then obtain er where er: "ur = Inl er" using Suc.prems(4) data d by (cases ur) auto
  note o = put_overtaken [OF Suc.prems(1-3) put [unfolded er]]
  obtain lr w2 where load: "Enroll.loadLedger d a w1 = (lr, w2)" by (metis surj_pair)
  obtain ex2 sha2 where l: "lr = Inr (ex2, sha2)" "up_to_date (hist w2 a) ex2 sha2" "stays hist good w w2"
    using load_latest [OF _ d load] o by blast
  have grown: "stays hist good w1 w2" using load_latest [OF staysD(3) d load, of w] o by blast
  show ?case
  proof (cases "errors_is er ErrConflict")
    case True
    then have "commit_loop d a repo e now n (Some er) ex2 sha2 w2 = (Inl err, w')"
      using Suc.prems(4) data put d er load l(1) by simp
    from Suc.IH [OF staysD(3,1) [OF l(3)] l(2) this] show ?thesis
      using o stays_longer [OF grown, of a] by (cases "hist w2 a = []") (auto simp: rounds_def)
  next
    case False
    then have "w' = w1" using Suc.prems(4) data put d er by auto
    then show ?thesis using o False by (auto simp: rounds_def)
  qed
qed

lemma apply_gives_way:
  assumes "stays hist good w0 w" and "good w0" and fnd: "finds fnd" and "up_to_date (hist w0 a) (Some l) sha" and "fnd (Some l) = Some idx"
    and "apply_loop gh a fnd rv n lc (Some l) sha w = (Inl err, w')"
  shows "length (hist w0 a) + n \<le> length (hist w' a)"
  using assms(1,2,4-6)
proof (induction n arbitrary: lc l idx sha w w0)
  case 0
  then show ?case using stays_longer [of hist good w0 w a] by (simp add: Let_def)
next
  case (Suc n)
  obtain data where data: "Marshal (flip_at idx rv l) = Inr data" by (simp add: Marshal_def)
  obtain ur w1 where put: "PutLedger gh a data sha (revoke_message (Serial (certs l ! idx)) a (RevActor rv)) w = (ur, w1)"
    by (metis surj_pair)
  then obtain er where er: "ur = Inl er" using Suc.prems(4,5) data by (cases ur) (auto simp: Let_def)
  have at: "ledger_of (hist w0 a) = Some l" using Suc.prems(3) by (simp add: up_to_date_def)
  then have "hist w0 a \<noteq> []" by (auto simp: ledger_of_def)
  then have o: "errors_is er ErrConflict" "stays hist good w w1" "length (hist w0 a) < length (hist w1 a)"
    using put_overtaken [OF Suc.prems(1-3) put [unfolded er]] by simp_all
  obtain lr w2 where load: "Revoke.loadLedger gh a w1 = (lr, w2)" by (metis surj_pair)
  obtain ex2 sha2 where l2: "lr = Inr (ex2, sha2)" "up_to_date (hist w2 a) ex2 sha2" "stays hist good w w2"
    using revoke_load_latest [OF _ load] o by blast
  obtain l' where l': "ledger_of (hist w2 a) = Some l'" "grows_to l l'"
    using stays_trans [OF Suc.prems(1) l2(3)] at honest_grows unfolding stays_def honest_def by blast
  then have ex2: "ex2 = Some l'" using l2(2) by (simp add: up_to_date_def)
  obtain idx' where "fnd (Some l') = Some idx'" using fnd Suc.prems(4) l'(2) unfolding finds_def by blast
  moreover have "apply_loop gh a fnd rv n (Some er) (Some l') sha2 w2 = (Inl err, w')"
    using Suc.prems(4,5) data put er load l2(1) o ex2 by (simp add: Let_def)
  moreover have "stays hist good w1 w2"
    using revoke_load_latest [OF staysD(3) load, of w] o by blast
  ultimately show ?case
    using Suc.IH [OF staysD(3,1) [OF l2(3)] l2(2) [unfolded ex2]] o stays_longer [of hist good w1 w2 a] by fastforce
qed

text \<open>What a successful flip leaves: the chosen entry of the latest ledger, revoked as asked.\<close>

lemma apply_flips:
  assumes s: "stays hist good w w" and rv: "year_ok (RevFrom rv)" and read: "was_read (hist w a) ex sha"
    and run: "apply_loop gh a (\<lambda>l. findBySerial l serial) rv n lc ex sha w = (Inr u, w')"
  shows "\<exists>l' i. ledger_of (hist w' a) = Some l' \<and> i < length (certs l') \<and> Serial (certs l' ! i) = serial \<and>
    Status (certs l' ! i) = StatusRevoked \<and> RevokedFrom (certs l' ! i) = Some (whole (RevFrom rv))"
proof -
  obtain data t older l i where top: "hist w' a = (data, t) # older" "latest older (Some l)" "suffix (hist w a) older"
    and i: "findBySerial (Some l) serial = Some i" and data: "Marshal (flip_at i rv l) = Inr data"
    using apply_on_top [OF staysD(1) [OF s] read run] unfolding wrote_on_top_def by blast
  have s': "stays hist good w w'"
    by (rule apply_stays [OF s rv _ read run]) (simp add: findBySerial_def find_index_Some)
  have ne: "hist w a \<noteq> hist w' a"
  proof
    assume "hist w a = hist w' a"
    then show False using top(3) top(1) by (auto simp: suffix_def)
  qed
  moreover have "(honest_write a)\<^sup>*\<^sup>* (hist w a) ((data, t) # older)"
    using s' top(1) unfolding stays_def honest_def by metis
  ultimately have "(honest_write a)\<^sup>*\<^sup>* (hist w a) older" using honest_below top(1) by metis
  then have l: "well_formed a l"
    using honest_sound sound_ledger latest_ledger_of [OF top(2)] staysD(2) [OF s] unfolding all_sound_def by blast
  have idx: "i < length (certs l)" "Serial (certs l ! i) = serial" using found_index(1) [OF i] by auto
  have "Ledger.Parse data = Inr (stored (flip_at i rv l))"
    using flip_storable [OF l idx(1) rv] Parse_Marshal_stored [OF _ _ data] by blast
  then have "ledger_of (hist w' a) = Some (stored (flip_at i rv l))" using top(1) by (simp add: ledger_of_def)
  moreover have "to_valid (Serial (certs l ! i)) = Serial (certs l ! i)"
    using well_formed_stored [OF l] idx(1) stored_cert_serial by (metis certs_stored nth_map)
  ultimately show ?thesis
    using idx by (auto simp: certs_flip flip_cert_def stored_cert_def stored_status intro!: exI [of _ i])
qed

text \<open>A whole run of the operator.\<close>

lemma operator_gets_on:
  assumes s: "stays hist good w w" and d: "PrivGH d = gh" and ok: "operator_ok req" "check_request req = None"
    and led: "ledger_of (hist w (PrivAppID req)) = Some l" and i: "findBySerial (Some l) (trim_space (PrivSerial req)) = Some i"
    and t: "resolve_from (PrivRevokedFrom req) (NotBefore (certs l ! i)) = Inr t"
    and run: "PrivilegedProcess d req w = (r, w')"
  shows "case r of Inl e \<Rightarrow> length (hist w (PrivAppID req)) + Revoke.maxLedgerRetries \<le> length (hist w' (PrivAppID req))
    | Inr u \<Rightarrow> \<exists>l' i. ledger_of (hist w' (PrivAppID req)) = Some l' \<and> i < length (certs l') \<and>
        Serial (certs l' ! i) = trim_space (PrivSerial req) \<and> Status (certs l' ! i) = StatusRevoked \<and>
        RevokedFrom (certs l' ! i) = Some (whole t)"
proof -
  let ?a = "PrivAppID req" and ?s = "trim_space (PrivSerial req)"
  obtain lr w1 where load: "Revoke.loadLedger gh ?a w = (lr, w1)" by (metis surj_pair)
  obtain ex sha where l1: "lr = Inr (ex, sha)" "up_to_date (hist w1 ?a) ex sha" "stays hist good w w1"
    using revoke_load_latest [OF s load] by blast
  obtain l' where l': "ledger_of (hist w1 ?a) = Some l'" "grows_to l l'"
    using l1(3) led honest_grows unfolding stays_def honest_def by blast
  then have ex: "ex = Some l'" using l1(2) by (simp add: up_to_date_def)
  have i': "findBySerial (Some l') ?s = Some i" by (rule grown_found(1) [OF l'(2) i])
  have nb: "NotBefore (certs l' ! i) = NotBefore (certs l ! i)"
    using l'(2) found_index(1) [OF i] by (simp add: grows_to_def same_identity_def)
  let ?rv = "\<lparr>RevReason = PrivReason req, RevFrom = t, RevActor = PrivActor req\<rparr>"
  obtain ar w2 where ap: "apply_loop gh ?a (\<lambda>lg. findBySerial lg ?s) ?rv Revoke.maxLedgerRetries None (Some l') sha w1 = (ar, w2)"
    by (metis surj_pair)
  have r: "w' = w2" "r = (case ar of Inl e \<Rightarrow> Inl e | Inr x \<Rightarrow> Inr ())"
    using run load l1(1) ex i' nb t ok(2) ap d
    by (auto simp: PrivilegedProcess_def applyRevocation_def Let_def split: sum.splits)
  have s1: "stays hist good w1 w1" by (rule staysD(3) [OF l1(3)])
  show ?thesis
  proof (cases ar)
    case (Inl e)
    have "length (hist w1 ?a) + Revoke.maxLedgerRetries \<le> length (hist w2 ?a)"
      by (rule apply_gives_way [OF s1 staysD(1) [OF s1] _ l1(2) [unfolded ex] i' ap [unfolded Inl]]) simp
    then show ?thesis using r Inl stays_longer [OF l1(3), of ?a] by simp
  next
    case (Inr x)
    have wf: "well_formed ?a l'" using s1 l'(1) sound_ledger by (auto simp: stays_def all_sound_def)
    have "year_ok t"
      using t ok(1) nb well_formed_entry [OF wf] found_index(1) [OF i']
      by (auto simp: resolve_from_def operator_ok_def cert_storable_def split: option.splits if_splits)
    then show ?thesis
      using apply_flips [OF s1 _ _ ap [unfolded Inr]] l1(2) r Inr ex unfolding up_to_date_def by auto
  qed
qed

end

section \<open>The REST client\<close>

text \<open>
  The API is up: every request for a ledger file is answered, a read with the file or with 404, a write with
  success or, when the version that it names was overtaken, with 409 and no effect; a write that
  names none, of a file that is there, may be answered with 422 instead.
\<close>

definition answering_api ::
  "'w http_lib \<Rightarrow> rest_client \<Rightarrow> ('w \<Rightarrow> string \<Rightarrow> version list) \<Rightarrow> ('w \<Rightarrow> bool) \<Rightarrow> bool" where
  "answering_api http c hist good \<longleftrightarrow>
     (\<forall>a. BadUrl http (ledger_url c a) = None) \<and>
     (\<forall>w rq a r w'. good w \<longrightarrow> RoundTrip http rq w = (r, w') \<longrightarrow> ReqMethod rq = ''GET'' \<longrightarrow> ReqUrl rq = ledger_url c a \<longrightarrow>
        (\<exists>resp. r = Inr resp \<and> (success resp \<or> StatusCode resp = 404))) \<and>
     (\<forall>w rq a ct p r w'. good w \<longrightarrow> RoundTrip http rq w = (r, w') \<longrightarrow>
        ReqMethod rq = ''PUT'' \<longrightarrow> ReqUrl rq = ledger_url c a \<longrightarrow> asks_write rq ct p \<longrightarrow>
        (\<exists>resp. r = Inr resp \<and> (success resp \<or>
           (StatusCode resp = 409 \<or> StatusCode resp = 422 \<and> p = []) \<and>
           honest hist w w' \<and> overtaken a p (hist w a) (hist w' a))))"

lemma answering_apiD:
  assumes "answering_api http c hist good"
  shows "BadUrl http (ledger_url c a) = None"
    and "good w \<Longrightarrow> RoundTrip http rq w = (r, w') \<Longrightarrow> ReqMethod rq = ''GET'' \<Longrightarrow> ReqUrl rq = ledger_url c a \<Longrightarrow>
      \<exists>resp. r = Inr resp \<and> (success resp \<or> StatusCode resp = 404)"
    and "good w \<Longrightarrow> RoundTrip http rq w = (r, w') \<Longrightarrow> ReqMethod rq = ''PUT'' \<Longrightarrow> ReqUrl rq = ledger_url c a \<Longrightarrow> asks_write rq ct p \<Longrightarrow>
      \<exists>resp. r = Inr resp \<and> (success resp \<or>
        (StatusCode resp = 409 \<or> StatusCode resp = 422 \<and> p = []) \<and> honest hist w w' \<and> overtaken a p (hist w a) (hist w' a))"
  using assms unfolding answering_api_def by (blast, metis, metis)

lemma rest_get_answers:
  assumes api: "contents_api http c hist good" and up: "answering_api http c hist good" and w: "good w"
    and get: "rest_GetLedger http c a w = (Inl e, w')"
  shows "errors_is e ErrNotFound"
proof -
  let ?path = "contents_path (CfgRepo (cfg c)) (ledger_path a)" and ?out = "\<lparr>RespContent = [], RespSHA = []\<rparr>"
  let ?rq = "request c ''GET'' ?path None"
  obtain rr w1 where rt: "RoundTrip http ?rq w = (rr, w1)" by (metis surj_pair)
  obtain resp where rr: "rr = Inr resp" "success resp \<or> StatusCode resp = 404"
    using answering_apiD(2) [OF up w rt] by (auto simp: ledger_url_path)
  note bad = answering_apiD(1) [OF up, of a]
  show ?thesis
  proof (cases "success resp")
    case False
    then show ?thesis
      using get bad rt rr by (auto simp: rest_GetLedger_def getContents_def do_request_def ledger_url_path status_error_def)
  next
    case True
    have "answers_read resp (hist w1 a)"
      by (rule contents_apiD(3) [OF api w rt [unfolded rr] True]) (simp_all add: ledger_url_path)
    then obtain enc ct s where d: "Option.bind (parse_whole (RespBody resp)) decode_contents = Some \<lparr>RespContent = enc, RespSHA = s\<rparr>"
      "filter (\<lambda>ch. ch \<noteq> CHR 0x0A) enc = b64_encode ct"
      unfolding answers_read_def by blast
    then have "RespBody resp \<noteq> []" by (auto simp: parse_whole_Nil)
    then have "do_request http c ''GET'' ?path None (Some decode_contents) ?out w = (Inr \<lparr>RespContent = enc, RespSHA = s\<rparr>, w1)"
      using rt rr(1) True d(1) bad by (auto simp: do_request_Inr ledger_url_path decode_into_def)
    then show ?thesis using get d(2) by (simp add: rest_GetLedger_def getContents_def b64_decode_encode)
  qed
qed

lemma rest_put_answers:
  assumes api: "contents_api http c hist good" and up: "answering_api http c hist good" and w: "good w" and p: "known_sha (hist w a) p"
    and put: "rest_PutLedger http c a ct p m w = (Inl e, w')"
  shows "(p \<noteq> [] \<longrightarrow> errors_is e ErrConflict) \<and> honest hist w w' \<and> overtaken a p (hist w a) (hist w' a)"
proof -
  let ?path = "contents_path (CfgRepo (cfg c)) (ledger_path a)"
  let ?rq = "request c ''PUT'' ?path (Some (put_body ct p m))"
  obtain rr w1 where rt: "RoundTrip http ?rq w = (rr, w1)" by (metis surj_pair)
  have "to_valid p = p" by (rule known_sha_valid [OF contents_apiD(1) [OF api w] p])
  then have ask: "asks_write ?rq ct p" using put_asks_write [of c _ ct p m] by simp
  obtain resp where rr: "rr = Inr resp" "success resp \<or>
      (StatusCode resp = 409 \<or> StatusCode resp = 422 \<and> p = []) \<and> honest hist w w1 \<and> overtaken a p (hist w a) (hist w1 a)"
    using answering_apiD(3) [OF up w rt _ _ ask, of a] by (auto simp: ledger_url_path)
  have run: "do_request http c ''PUT'' ?path (Some (put_body ct p m)) None () w = (Inl e, w')"
    using put by (simp add: rest_PutLedger_def putContents_def)
  have "\<not> success resp"
  proof
    assume "success resp"
    then have "do_request http c ''PUT'' ?path (Some (put_body ct p m)) None () w = (Inr (), w1)"
      using rt rr(1) answering_apiD(1) [OF up, of a] by (auto simp: do_request_Inr ledger_url_path decode_into_def)
    then show False using run by simp
  qed
  moreover from this obtain e0 where e0: "status_error ''PUT'' ?path resp = Some e0"
    using status_error_None [of "''PUT''" ?path resp] by (cases "status_error ''PUT'' ?path resp") auto
  ultimately show ?thesis
    using run rt rr answering_apiD(1) [OF up, of a] status_error_Some [OF e0]
    by (auto simp: do_request_def ledger_url_path)
qed

lemma rest_answering_files:
  assumes "honest_api http c hist good" "answering_api http c hist good"
  shows "answering_files (rest_github http c) hist good"
  by (rule answering_files.intro [OF rest_honest_files [OF assms(1)]], unfold_locales, unfold rest_github_simps)
     (blast intro: rest_get_answers [OF honest_apiD(1) [OF assms(1)] assms(2)]
        dest: rest_put_answers [OF honest_apiD(1) [OF assms(1)] assms(2)])+

section \<open>Properties\<close>

text \<open>C10: The retry loops are lock-free: over the REST client and an API that answers, a loop that starts from
  the current ledger and gives up after \<open>n\<close> rounds has seen at least \<open>n\<close> versions written by others
  meanwhile, or, where there was no ledger yet, one; so when all writers are such loops, one of them
  gets on. It holds for the entry of an issuer and for a revocation by serial number or by
  fingerprint, whose target never vanishes.\<close>
theorem retry_loops_are_lock_free:
  assumes "honest_api http c hist good" and "answering_api http c hist good" and "good w" and "all_sound hist w"
    and "GH d = rest_github http c" and "fnd \<in> {(\<lambda>l. findBySerial l key), (\<lambda>l. findByFingerprint l key)}"
  shows "(case commit_loop d a repo entry now n None (ledger_of (hist w a)) (current_sha (hist w a)) w of
       (Inr u, w') \<Rightarrow> True
     | (Inl e, w') \<Rightarrow> length (hist w a) + (if hist w a = [] then min n 1 else n) \<le> length (hist w' a)) \<and>
    (case fnd (ledger_of (hist w a)) of None \<Rightarrow> True | Some i \<Rightarrow>
      (case apply_loop (rest_github http c) a fnd rv n None (ledger_of (hist w a)) (current_sha (hist w a)) w of
         (Inr serial, w') \<Rightarrow> True | (Inl e, w') \<Rightarrow> length (hist w a) + n \<le> length (hist w' a)))"
proof -
  note files = rest_answering_files [OF assms(1,2)]
  have s: "stays hist good w w" and cur: "up_to_date (hist w a) (ledger_of (hist w a)) (current_sha (hist w a))"
    using assms(3,4) sound_up_to_date [of a] by (simp_all add: stays_def all_sound_def)
  have fnd: "finds fnd" "fnd None = None" using assms(6) finders by (blast, auto simp: findBySerial_def findByFingerprint_def)
  show ?thesis
  proof (intro conjI)
    show "case commit_loop d a repo entry now n None (ledger_of (hist w a)) (current_sha (hist w a)) w of
        (Inr u, w') \<Rightarrow> True
      | (Inl e, w') \<Rightarrow> length (hist w a) + (if hist w a = [] then min n 1 else n) \<le> length (hist w' a)"
      using answering_files.commit_gives_way [OF files s assms(3,5) cur, of repo entry now n None]
      unfolding rounds_def by (auto split: prod.split sum.split)
    show "case fnd (ledger_of (hist w a)) of None \<Rightarrow> True | Some i \<Rightarrow>
        (case apply_loop (rest_github http c) a fnd rv n None (ledger_of (hist w a)) (current_sha (hist w a)) w of
           (Inr serial, w') \<Rightarrow> True | (Inl e, w') \<Rightarrow> length (hist w a) + n \<le> length (hist w' a))"
    proof (cases "ledger_of (hist w a)")
      case (Some l)
      show ?thesis
      proof (cases "fnd (Some l)")
        case (Some i)
        then show ?thesis
          using answering_files.apply_gives_way [OF files s assms(3) fnd(1) cur [unfolded \<open>ledger_of (hist w a) = Some l\<close>] Some]
            \<open>ledger_of (hist w a) = Some l\<close>
          by (auto split: prod.split sum.split)
      qed (simp add: \<open>ledger_of (hist w a) = Some l\<close>)
    qed (simp add: fnd(2))
  qed
qed

text \<open>C12: A privileged revocation on a GitHub that answers ends well or gives way: with an environment that
  configures the client and complete inputs, a serial of the ledger, a date that is not before the
  issue of the certificate and lies, read in UTC, in a year of four digits (a later one is accepted
  by the code and makes the ledger unreadable: a finding of its own), over well-formed ledger files and among
  others who write registry steps only, \<open>privrevoke\<close> exits with status 0 and leaves that certificate revoked from that date
  in the latest ledger, or that ledger has gained at least five versions during the run.\<close>
theorem privrevoke_gets_on:
  assumes "honest_api http c hist good" and "answering_api http c hist good" and "good w" and "all_sound hist w"
    and "RestClient.New (revoker_config_of os) = Inr c" and "request_of os = Inr req"
    and "check_request req = None" and "operator_ok req" and "ledger_of (hist w (PrivAppID req)) = Some l"
    and "findBySerial (Some l) (trim_space (PrivSerial req)) = Some i"
    and "resolve_from (PrivRevokedFrom req) (NotBefore (certs l ! i)) = Inr t"
  shows "case privrevoke_main http os clock w of (status, w') \<Rightarrow>
    if status = 0
    then \<exists>l' i. ledger_of (hist w' (PrivAppID req)) = Some l' \<and> i < length (certs l') \<and>
      Serial (certs l' ! i) = trim_space (PrivSerial req) \<and> Status (certs l' ! i) = StatusRevoked \<and>
      RevokedFrom (certs l' ! i) = Some (whole t)
    else length (hist w (PrivAppID req)) + 5 \<le> length (hist w' (PrivAppID req))"
proof -
  let ?d = "\<lparr>PrivGH = rest_github http c, PrivClock = clock\<rparr>"
  obtain r w' where run: "PrivilegedProcess ?d req w = (r, w')" by (metis surj_pair)
  have "privrevoke_main http os clock w = (if isl r then 1 else 0, w')"
    using run assms(5,6) by (simp add: privrevoke_main_def privrevoke_run_def)
  moreover have "stays hist good w w" using assms(3,4) by (simp add: stays_def)
  ultimately show ?thesis
    using answering_files.operator_gets_on [OF rest_answering_files [OF assms(1,2)] _ _ assms(8,7,9-11) run]
    by (cases r) (simp_all add: Revoke.maxLedgerRetries_def)
qed

end
