(* ===== verification/Counting.thy ===== *)
theory Counting imports Progress begin

text \<open>
  The writes of a run and those of others. A counter that only observes, \<open>own w a\<close>, is the number of
  writes of the ledger \<open>a\<close> that were acknowledged to this run: the versions beyond them are of others.
\<close>

section \<open>Whose versions\<close>

definition by_others :: "('w \<Rightarrow> string \<Rightarrow> version list) \<Rightarrow> ('w \<Rightarrow> string \<Rightarrow> nat) \<Rightarrow> 'w \<Rightarrow> 'w \<Rightarrow> string \<Rightarrow> int" where
  "by_others hist own w w' a =
     (int (length (hist w' a)) - int (length (hist w a))) - (int (own w' a) - int (own w a))"

lemma by_others_trans: "by_others hist own w w2 a = by_others hist own w w1 a + by_others hist own w1 w2 a"
  by (simp add: by_others_def)

lemma by_others_same [simp]: "by_others hist own w w a = 0"
  by (simp add: by_others_def)

text \<open>Worlds in which the counter has a certain value, and those that are as late as a first one.\<close>

definition counting :: "('w \<Rightarrow> bool) \<Rightarrow> ('w \<Rightarrow> string \<Rightarrow> nat) \<Rightarrow> (string \<Rightarrow> nat) \<Rightarrow> 'w \<Rightarrow> bool" where
  "counting good own k w \<longleftrightarrow> good w \<and> own w = k"

definition since :: "('w \<Rightarrow> string \<Rightarrow> version list) \<Rightarrow> ('w \<Rightarrow> string \<Rightarrow> nat) \<Rightarrow> ('w \<Rightarrow> bool) \<Rightarrow> 'w \<Rightarrow> 'w \<Rightarrow> bool" where
  "since hist own good start w \<longleftrightarrow> good w \<and> (\<forall>a. 0 \<le> by_others hist own start w a)"

lemma since_good: "since hist own good start w \<Longrightarrow> good w"
  by (simp add: since_def)

lemma honest_longer: "honest hist w w' \<Longrightarrow> length (hist w a) \<le> length (hist w' a)"
  using honest_extends [of hist w w'] by (simp add: extends_def suffix_length_le)

lemma since_step:
  assumes "since hist own good start w" "good w'" "\<And>a. own w' a + length (hist w a) \<le> own w a + length (hist w' a)"
  shows "since hist own good start w'"
  unfolding since_def
proof (intro conjI allI)
  show "0 \<le> by_others hist own start w' a" for a
    using assms(1) assms(3) [of a] by_others_trans [of hist own start w' a w] unfolding since_def by_others_def
    by (smt (verit) of_nat_add of_nat_mono)
qed (rule assms(2))

lemma since_later: "honest hist w w' \<Longrightarrow> own w' = own w \<Longrightarrow> since hist own good start w \<Longrightarrow> good w' \<Longrightarrow> since hist own good start w'"
  by (erule since_step) (simp_all add: honest_longer)

text \<open>A call that leaves the counter alone.\<close>

lemma tame_counting:
  assumes "\<And>k. tame hist (counting good own k) f"
  shows "tame hist good f" and "tame hist (since hist own good start) f"
    and "f w = (r, w') \<Longrightarrow> good w \<Longrightarrow> own w' = own w" and "tame hist (counting (since hist own good start) own k) f"
proof -
  have step: "good w' \<and> honest hist w w' \<and> own w' = own w" if "f w = (r, w')" "good w" for w r w'
    using assms [of "own w"] that unfolding tame_def counting_def by blast
  show "tame hist good f" using step unfolding tame_def by blast
  show later: "tame hist (since hist own good start) f"
    unfolding tame_def
  proof (intro allI impI)
    fix w r w' assume w: "since hist own good start w" and f: "f w = (r, w')"
    then have "good w" by (simp add: since_def)
    from step [OF f this] show "since hist own good start w' \<and> honest hist w w'" using since_later [OF _ _ w] by blast
  qed
  show "f w = (r, w') \<Longrightarrow> good w \<Longrightarrow> own w' = own w" using step by blast
  show "tame hist (counting (since hist own good start) own k) f"
    using later step unfolding tame_def counting_def by (metis since_def)
qed

lemma stays_counting:
  assumes "stays hist (counting good own k) w0 w"
  shows "stays hist good w0 w" "own w = k"
  using assms by (simp_all add: stays_def counting_def)

lemma counting_start: "stays hist good w0 w \<Longrightarrow> stays hist (counting good own (own w)) w w"
  by (simp add: stays_def counting_def)

section \<open>A GitHub whose acknowledgements are counted\<close>

locale counted_files = answering_files +
  fixes own
  assumes calls_count: "ledger_view gh (counting good own k)"
    and put_count: "good w \<Longrightarrow> PutLedger gh a c p m w = (ur, w') \<Longrightarrow>
      (\<forall>b. own w' b + length (hist w b) \<le> own w b + length (hist w' b)) \<and> (isl ur \<longrightarrow> own w' = own w)"
begin

lemmas begun_good = since_good [of hist own good]

lemma counted_tame: "tame hist good f \<Longrightarrow> (\<And>k. preserves (counting good own k) f) \<Longrightarrow> tame hist (counting good own k) f"
  unfolding tame_def by (metis counting_def preservesD)

lemmas counted_calls = ledger_view.own_keeps [OF calls_count] ledger_view.post_keeps [OF calls_count]
  ledger_view.labels_keep [OF calls_count] ledger_view.close_keeps [OF calls_count] ledger_view.file_keeps [OF calls_count]
  ledger_view.access_keeps [OF calls_count] ledger_view.get_keeps [OF calls_count]

text \<open>Its calls keep the worlds since a first one, so that they satisfy the same contracts.\<close>

lemma since_tame: "tame hist good f \<Longrightarrow> (\<And>k. preserves (counting good own k) f) \<Longrightarrow> tame hist (since hist own good start) f"
  by (rule tame_counting(2) [OF counted_tame])

lemma since_put:
  assumes "since hist own good start w" "PutLedger gh a c p m w = (ur, w')"
  shows "since hist own good start w' \<and> extends hist w w'"
  using put_keeps [OF begun_good [OF assms(1)] assms(2)] put_count [OF begun_good [OF assms(1)] assms(2)]
    since_step [OF assms(1), of w'] by simp

lemma since_answering: "answering_files gh hist (since hist own good start)"
proof (rule answering_files.intro, rule honest_files.intro, rule ledger_files.intro)
  note get = since_tame [OF get_tame counted_calls(7)]
  fix w a r w' assume w: "since hist own good start w" and g: "GetLedger gh a w = (r, w')"
  then show "since hist own good start w' \<and> extends hist w w'"
    using get [of start a] get_keeps [OF begun_good g] unfolding tame_def by blast
next
  fix w a c s w' assume "since hist own good start w" "GetLedger gh a w = (Inr (c, s), w')"
  then show "\<exists>older. hist w' a = (c, s) # older" by (rule get_found [OF begun_good])
next
  fix w a c p m ur w' assume "since hist own good start w" "PutLedger gh a c p m w = (ur, w')"
  then show "since hist own good start w' \<and> extends hist w w'" by (rule since_put)
next
  fix w a p c m u w'
  assume "since hist own good start w" "known_sha (hist w a) p" "PutLedger gh a c p m w = (Inr u, w')"
  then show "\<exists>s older. hist w' a = (c, s) # older \<and> suffix (hist w a) older \<and> p = current_sha older"
    by (rule put_done [OF begun_good])
next
  fix w c s a c' assume "since hist own good start w" "(c, s) \<in> set (hist w a)" "(c', s) \<in> set (hist w a)"
  then show "c = c'" by (rule sha_content [OF begun_good])
next
  fix w c s a assume "since hist own good start w" "(c, s) \<in> set (hist w a)"
  then show "s \<noteq> []" by (rule sha_nonempty [OF begun_good])
next
  show "honest_files_axioms gh hist (since hist own good start)"
  proof
    show "hist w' a = []" if "since hist own good start w" "GetLedger gh a w = (Inl e, w')" "errors_is e ErrNotFound" for w a e w'
      by (rule get_missing [OF begun_good [OF that(1)] that(2,3)])
    show "may_land a c p (hist w a) (hist w' a) \<and> (\<forall>b. b \<noteq> a \<longrightarrow> (honest_write b)\<^sup>*\<^sup>* (hist w b) (hist w' b))"
      if "since hist own good start w" "known_sha (hist w a) p" "PutLedger gh a c p m w = (ur, w')" for w a p c m ur w'
      by (rule put_honest [OF begun_good [OF that(1)] that(2,3)])
  qed (rule since_tame; rule own_tame post_tame labels_tame close_tame file_tame access_tame get_tame counted_calls)+
next
  show "answering_files_axioms gh hist (since hist own good start)"
  proof
    show "errors_is e ErrNotFound" if "since hist own good start w" "GetLedger gh a w = (Inl e, w')" for w a e w'
      by (rule get_answers [OF begun_good [OF that(1)] that(2)])
    show "(p \<noteq> [] \<longrightarrow> errors_is e ErrConflict) \<and> honest hist w w' \<and> overtaken a p (hist w a) (hist w' a)"
      if "since hist own good start w" "known_sha (hist w a) p" "PutLedger gh a c p m w = (Inl e, w')" for w a p c m e w'
      by (rule put_answers [OF begun_good [OF that(1)] that(2,3)])
  qed
qed

section \<open>A loop that fails has written nothing\<close>

lemma commit_fails_own:
  assumes d: "GH d = gh"
  shows "commit_loop d a repo e now n lc ex sha w = (Inl err, w') \<Longrightarrow> good w \<Longrightarrow> own w' = own w"
proof (induction n arbitrary: lc ex sha w)
  case 0
  then show ?case by (simp add: Let_def)
next
  case (Suc n)
  obtain data where data: "Marshal (next_ledger a repo now e ex) = Inr data" by (simp add: Marshal_def)
  obtain ur w1 where put: "PutLedger gh a data sha (issue_message a) w = (ur, w1)" by (metis surj_pair)
  then obtain er where er: "ur = Inl er" using Suc.prems(1) data d by (cases ur) auto
  have 1: "good w1" "own w1 = own w" using put_keeps [OF Suc.prems(2) put] put_count [OF Suc.prems(2) put] er by simp_all
  show ?case
  proof (cases "errors_is er ErrConflict")
    case False
    then show ?thesis using Suc.prems(1) data put d er 1 by simp
  next
    case True
    obtain lr w2 where load: "Enroll.loadLedger d a w1 = (lr, w2)" by (metis surj_pair)
    have "counting good own (own w1) w2"
      by (rule ledger_view.loadLedger_keeps [OF calls_count d load]) (simp add: counting_def 1)
    then have 2: "good w2" "own w2 = own w" using 1 by (simp_all add: counting_def)
    show ?thesis
    proof (cases lr)
      case (Inl e2)
      then show ?thesis using Suc.prems(1) data put d er load True 2 by simp
    next
      case (Inr es)
      obtain ex2 sha2 where es: "es = (ex2, sha2)" by (cases es)
      have "commit_loop d a repo e now n (Some er) ex2 sha2 w2 = (Inl err, w')"
        using Suc.prems(1) data put d er load True Inr es by simp
      from Suc.IH [OF this 2(1)] show ?thesis using 2(2) by simp
    qed
  qed
qed

lemma apply_fails_own: "apply_loop gh a fnd rv n lc ex sha w = (Inl err, w') \<Longrightarrow> good w \<Longrightarrow> own w' = own w"
proof (induction n arbitrary: lc ex sha w)
  case 0
  then show ?case by (simp add: Let_def)
next
  case (Suc n)
  show ?case
  proof (cases "\<exists>idx l. fnd ex = Some idx \<and> ex = Some l")
    case False
    then show ?thesis using Suc.prems(1) by (cases "fnd ex"; cases ex) auto
  next
    case True
    then obtain idx l where fl: "fnd ex = Some idx" "ex = Some l" by blast
    obtain data where data: "Marshal (flip_at idx rv l) = Inr data" by (simp add: Marshal_def)
    obtain ur w1 where put: "PutLedger gh a data sha (revoke_message (Serial (certs l ! idx)) a (RevActor rv)) w = (ur, w1)"
      by (metis surj_pair)
    then obtain er where er: "ur = Inl er" using Suc.prems(1) data fl by (cases ur) (auto simp: Let_def)
    have 1: "good w1" "own w1 = own w" using put_keeps [OF Suc.prems(2) put] put_count [OF Suc.prems(2) put] er by simp_all
    show ?thesis
    proof (cases "errors_is er ErrConflict")
      case False
      then show ?thesis using Suc.prems(1) data put er fl 1 by (simp add: Let_def)
    next
      case conflict: True
      obtain lr w2 where load: "Revoke.loadLedger gh a w1 = (lr, w2)" by (metis surj_pair)
      have "counting good own (own w1) w2"
        by (rule ledger_view.revoke_load_keeps [OF calls_count load]) (simp add: counting_def 1)
      then have 2: "good w2" "own w2 = own w" using 1 by (simp_all add: counting_def)
      show ?thesis
      proof (cases lr)
        case (Inl e2)
        then show ?thesis using Suc.prems(1) data put er load conflict fl 2 by (simp add: Let_def)
      next
        case (Inr es)
        obtain ex2 sha2 where es: "es = (ex2, sha2)" by (cases es)
        have "apply_loop gh a fnd rv n (Some er) ex2 sha2 w2 = (Inl err, w')"
          using Suc.prems(1) data put er load conflict fl Inr es by (simp add: Let_def)
        from Suc.IH [OF this 2(1)] show ?thesis using 2(2) by simp
      qed
    qed
  qed
qed

end

end
