(* ===== verification/Availability.thy ===== *)
theory Availability imports Counting begin

text \<open>
  Whole polls on a GitHub that is up: with a random source, a signer and a verifier that work, nothing
  but contention makes a poll fail, whatever the issue says and whatever others write meanwhile.
\<close>

section \<open>What may happen\<close>

text \<open>What others have written when a retry loop gave up: at least as many versions of some ledger as it asks for.\<close>

definition gave_way ::
  "('w \<Rightarrow> string \<Rightarrow> version list) \<Rightarrow> ('w \<Rightarrow> string \<Rightarrow> nat) \<Rightarrow> (version list \<Rightarrow> nat) \<Rightarrow> 'w \<Rightarrow> 'w \<Rightarrow> bool" where
  "gave_way hist own n w w' \<longleftrightarrow> (\<exists>a. int (n (hist w a)) \<le> by_others hist own w w' a)"

definition first_or_five :: "version list \<Rightarrow> nat" where
  "first_or_five vs = (if vs = [] then 1 else 5)"

lemma rounds_five: "rounds vs 5 = first_or_five vs"
  by (simp add: rounds_def first_or_five_def)

lemma gave_way_loop:
  assumes "0 \<le> by_others hist own start w a" "own w' = own w" "length (hist w a) + k \<le> length (hist w' a)" "n (hist start a) \<le> k"
  shows "gave_way hist own n start w'"
proof -
  have "int k \<le> by_others hist own w w' a" using assms(2,3) by (simp add: by_others_def)
  then have "int (n (hist start a)) \<le> by_others hist own start w' a"
    using assms(1,4) by_others_trans [of hist own start w' a w] by simp
  then show ?thesis unfolding gave_way_def ..
qed

lemma ends_well: "(\<And>e w'. x = (Inl e, w') \<Longrightarrow> False) \<Longrightarrow> \<exists>r w'. x = (r, w') \<and> (isl r \<longrightarrow> P w')"
  by (cases x) (auto simp: isl_def)

text \<open>A source that delivers bytes, and not zeros for ever.\<close>

fun zero_bytes :: "'w reader \<Rightarrow> nat \<Rightarrow> 'w \<Rightarrow> bool" where
  "zero_bytes rd 0 w = True"
| "zero_bytes rd (Suc k) w = (case rd w of (Inl e, w1) \<Rightarrow> False | (Inr c, w1) \<Rightarrow> byte c = 0 \<and> zero_bytes rd k w1)"

definition delivers :: "('w \<Rightarrow> bool) \<Rightarrow> 'w reader \<Rightarrow> bool" where
  "delivers good rd \<longleftrightarrow> (\<forall>w. good w \<longrightarrow> (\<exists>c w1. rd w = (Inr c, w1)) \<and> (\<exists>k. \<not> zero_bytes rd k w))"

lemma delivers_mono: "delivers good rd \<Longrightarrow> (\<And>w. good' w \<Longrightarrow> good w) \<Longrightarrow> delivers good' rd"
  unfolding delivers_def by blast

lemma bytes_value_zero: "bytes_value bs = 0 \<longleftrightarrow> list_all (\<lambda>c. byte c = 0) bs"
  by (induction bs rule: rev_induct) auto

lemma read_more_delivers:
  assumes rd: "delivers good rd" "preserves good rd"
  shows "good w \<Longrightarrow> \<exists>bs w1. read_more rd n acc w = (Inr (rev acc @ bs), w1) \<and> good w1 \<and>
    (list_all (\<lambda>c. byte c = 0) bs \<longrightarrow> (\<forall>k. zero_bytes rd (n + k) w = zero_bytes rd k w1))"
proof (induction n arbitrary: acc w)
  case (Suc n)
  obtain c w1 where c: "rd w = (Inr c, w1)" using rd(1) Suc.prems unfolding delivers_def by blast
  have "good w1" by (rule preservesD [OF rd(2) c Suc.prems])
  from Suc.IH [OF this, of "c # acc"] obtain bs w2 where r: "read_more rd n (c # acc) w1 = (Inr (rev (c # acc) @ bs), w2)" "good w2"
    "list_all (\<lambda>c. byte c = 0) bs \<Longrightarrow> zero_bytes rd (n + k) w1 = zero_bytes rd k w2" for k
    by blast
  then show ?case by (intro exI [of _ "c # bs"] exI [of _ w2]) (simp add: c)
qed simp

lemma read_full_delivers:
  assumes "delivers good rd" "preserves good rd" "good w"
  shows "\<exists>bs w1. read_full rd n w = (Inr bs, w1) \<and> good w1 \<and>
    (bytes_value bs = 0 \<longrightarrow> (\<forall>k. zero_bytes rd (n + k) w = zero_bytes rd k w1))"
  using read_more_delivers [OF assms, of n "[]"] by (auto simp: read_full_def bytes_value_zero)

lemma zero_bytes_fewer: "zero_bytes rd k w \<Longrightarrow> j \<le> k \<Longrightarrow> zero_bytes rd j w"
proof (induction k arbitrary: j w)
  case (Suc k)
  then show ?case by (cases j) (auto split: prod.splits sum.splits)
qed simp

lemma draws_deliver:
  assumes rd: "delivers good rd" "preserves good rd"
  shows "\<not> zero_bytes rd k w \<Longrightarrow> good w \<Longrightarrow> \<exists>n w1. randomSerial rd w = Some (Inr n, w1)"
proof (induction k arbitrary: w rule: less_induct)
  case (less k)
  obtain bs w1 where r: "read_full rd 16 w = (Inr bs, w1)" "good w1"
    "bytes_value bs = 0 \<longrightarrow> (\<forall>j. zero_bytes rd (16 + j) w = zero_bytes rd j w1)"
    using read_full_delivers [OF rd less.prems(2), of 16] by (elim exE conjE) (rule that)
  have draw: "rand_int_128 rd w = (Inr (bytes_value bs), w1)" using r(1) by (simp add: rand_int_128_def)
  show ?case
  proof (cases "bytes_value bs = 0")
    case False
    then show ?thesis by (subst randomSerial.simps) (simp add: draw)
  next
    case True
    have "\<not> k \<le> 16"
    proof
      assume "k \<le> 16"
      moreover have "zero_bytes rd 16 w" using spec [OF mp [OF r(3) True], of 0] by simp
      ultimately show False using zero_bytes_fewer [of rd 16 w k] less.prems(1) by simp
    qed
    then have k: "k - 16 < k" "16 + (k - 16) = k" by simp_all
    have "\<not> zero_bytes rd (k - 16) w1" using spec [OF mp [OF r(3) True], of "k - 16"] k(2) less.prems(1) by simp
    from less.IH [OF k(1) this r(2)] show ?thesis by (subst randomSerial.simps) (simp add: draw True)
  qed
qed

lemma serial_delivered: "delivers good rd \<Longrightarrow> preserves good rd \<Longrightarrow> good w \<Longrightarrow> \<exists>n w1. randomSerial rd w = Some (Inr n, w1)"
  using draws_deliver [of good rd] unfolding delivers_def by blast

text \<open>A signer that signs a leaf for every key that a CSR may have.\<close>

definition signs :: "('w \<Rightarrow> bool) \<Rightarrow> 'w crypto_lib \<Rightarrow> 'w signer \<Rightarrow> bool" where
  "signs good lib s \<longleftrightarrow> IssuerCertificate s \<noteq> None \<and>
     (\<forall>w t p. good w \<longrightarrow> 0 < XSerial t \<longrightarrow> allowed_key p \<longrightarrow>
        (\<exists>der leaf w'. Sign s t p w = (Inr der, w') \<and> ParseCertificate lib der = Inr leaf))"

lemma signs_mono: "signs good lib sg \<Longrightarrow> (\<And>w. good' w \<Longrightarrow> good w) \<Longrightarrow> signs good' lib sg"
  unfolding signs_def by blast

text \<open>
  A machine that runs openssl: there is room for a temporary file, the program is there to be started, and
  when it ends well it has written the file of the signer.
\<close>

definition runs_openssl :: "('w \<Rightarrow> bool) \<Rightarrow> 'w os_lib \<Rightarrow> bool" where
  "runs_openssl good os \<longleftrightarrow>
     (\<forall>w p. good w \<longrightarrow> (\<exists>path w1. CreateTemp os p w = (Inr path, w1))) \<and>
     (\<forall>w path input out err e w1. good w \<longrightarrow> RunCommand os (openssl_args path) input w \<noteq> ((RunError e, out, err), w1)) \<and>
     (\<forall>w path input out err w1. good w \<longrightarrow> RunCommand os (openssl_args path) input w = ((RunOk, out, err), w1) \<longrightarrow>
        (\<exists>data w2. ReadFile os path w1 = (Inr data, w2)))"

text \<open>Then a verification fails only because the request is no valid CMS.\<close>

lemma openssl_refuses:
  assumes os: "runs_openssl good os" and temp: "\<And>p. preserves good (CreateTemp os p)" and w: "good w"
    and run: "openssl_Verify lib os b w = (Inl e, w1)"
  shows "errors_is e ErrInvalidCMS"
proof -
  obtain path w2 where t: "CreateTemp os ''cms-signer-*.pem'' w = (Inr path, w2)"
    using os w unfolding runs_openssl_def by blast
  have w2: "good w2" by (rule preservesD [OF temp t w])
  obtain st out err w3 where c: "RunCommand os (openssl_args path) b w2 = ((st, out, err), w3)" by (metis surj_pair)
  have r: "fst (openssl_run lib os path b w2) = Inl e"
    using run t by (auto simp: openssl_Verify_def split: prod.splits)
  show ?thesis
  proof (cases st)
    case RunOk
    then obtain data w4 where "ReadFile os path w3 = (Inr data, w4)" using os w2 c unfolding runs_openssl_def by blast
    then show ?thesis using r c RunOk by (auto simp: openssl_run_def split: sum.splits)
  next
    case ExitError
    then show ?thesis using r c by (auto simp: openssl_run_def)
  next
    case (RunError e2)
    then show ?thesis using os w2 c unfolding runs_openssl_def by blast
  qed
qed

definition verifies :: "('w \<Rightarrow> bool) \<Rightarrow> 'w verifier \<Rightarrow> bool" where
  "verifies good v \<longleftrightarrow> (\<forall>w b e w'. good w \<longrightarrow> Verify v b w = (Inl e, w') \<longrightarrow> errors_is e ErrInvalidCMS)"

lemma verifies_mono: "verifies good v \<Longrightarrow> (\<And>w. good' w \<Longrightarrow> good w) \<Longrightarrow> verifies good' v"
  unfolding verifies_def by blast

lemma openssl_verifies: "runs_openssl good os \<Longrightarrow> (\<And>p. preserves good (CreateTemp os p)) \<Longrightarrow> verifies good (openssl_verifier lib os)"
  using openssl_refuses [of good os] by (simp add: verifies_def openssl_verifier_def)

section \<open>A GitHub that is up\<close>

text \<open>
  A form may name a repository with characters that GitHub's names do not have and that change the meaning
  of the URL they are put into; what GitHub answers to such a request is left open.
\<close>

definition plain_slug :: "string \<Rightarrow> bool" where
  "plain_slug rp \<longleftrightarrow> list_all (\<lambda>ch. is_lower ch \<or> is_upper ch \<or> is_digit ch \<or> ch \<in> set ''-_./'') rp"

definition plain_form :: "issue \<Rightarrow> bool" where
  "plain_form iss \<longleftrightarrow> (case EnrollForm.parseForm (IssueBody iss) of Inl e \<Rightarrow> True | Inr f \<Rightarrow> plain_slug (FormRepo f))"

lemma tame_good: "tame hist good f \<Longrightarrow> preserves good f"
  by (rule preservesI) (simp add: tame_def)

locale up_files = answering_files +
  assumes own_up: "OwnComments gh i w = (Inl e, w') \<Longrightarrow> good w \<Longrightarrow> False"
    and post_up: "PostComment gh i b w = (Inl e, w') \<Longrightarrow> good w \<Longrightarrow> False"
    and labels_up: "SetLabels gh i ls rs w = (Inl e, w') \<Longrightarrow> good w \<Longrightarrow> False"
    and close_up: "CloseIssue gh i w = (Inl e, w') \<Longrightarrow> good w \<Longrightarrow> False"
    and access_up: "RepoAccessible gh rp w = (Inl e, w') \<Longrightarrow> good w \<Longrightarrow> plain_slug rp \<Longrightarrow> False"
    and file_up: "GetFile gh rp p w = (Inl e, w') \<Longrightarrow> good w \<Longrightarrow> plain_slug rp \<Longrightarrow> p \<in> {infoPath, FilePath} \<Longrightarrow> errors_is e ErrNotFound"
begin

lemma ups:
  "OwnComments gh i w = (Inl e, w') \<Longrightarrow> stays hist good w0 w \<Longrightarrow> False"
  "PostComment gh i b w = (Inl e, w') \<Longrightarrow> stays hist good w0 w \<Longrightarrow> False"
  "SetLabels gh i ls rs w = (Inl e, w') \<Longrightarrow> stays hist good w0 w \<Longrightarrow> False"
  "CloseIssue gh i w = (Inl e, w') \<Longrightarrow> stays hist good w0 w \<Longrightarrow> False"
  "RepoAccessible gh rp w = (Inl e, w') \<Longrightarrow> stays hist good w0 w \<Longrightarrow> plain_slug rp \<Longrightarrow> False"
  by (auto simp: stays_def dest: own_up post_up labels_up close_up access_up)

lemma terminal_up:
  assumes "GH d = gh" "Enroll.terminal d iss l c w = (Inl e, w')" "stays hist good w0 w"
  shows False
  using assms(2,3) unfolding Enroll.terminal_def assms(1) by (auto split: prod.splits sum.splits dest: ups view.op_keeps)

lemma revoke_terminal_up:
  assumes "RevGH d = gh" "Revoke.terminal d iss l c w = (Inl e, w')" "stays hist good w0 w"
  shows False
  using assms(2,3) unfolding Revoke.terminal_def assms(1) by (auto split: prod.splits sum.splits dest: ups view.op_keeps)

lemma deliver_up:
  assumes "GH d = gh" "Enroll.deliver d iss a der ic w = (Inl e, w')" "stays hist good w0 w"
  shows False
  using assms(2,3) unfolding Enroll.deliver_def assms(1) by (auto simp: Let_def split: prod.splits sum.splits dest: ups view.op_keeps)

lemma revoke_deliver_up:
  assumes "RevGH d = gh" "Revoke.deliver d iss b w = (Inl e, w')" "stays hist good w0 w"
  shows False
  using assms(2,3) unfolding Revoke.deliver_def assms(1) by (auto split: prod.splits sum.splits dest: ups view.op_keeps)

lemma already_up:
  assumes "RevGH d = gh" "already_revoked d iss w = (Inl e, w')" "stays hist good w0 w"
  shows False
  using assms(2,3) unfolding already_revoked_def assms(1)
  by (auto split: prod.splits sum.splits dest: ups revoke_terminal_up [OF assms(1)] view.revoke_terminal_keeps [OF assms(1)])

lemma info_not_found_up:
  assumes "GH d = gh" "info_not_found d iss rp w = (Inl e, w')" "stays hist good w0 w" "plain_slug rp"
  shows False
  using assms(2-) unfolding info_not_found_def assms(1)
  by (auto split: prod.splits sum.splits if_splits dest: ups view.op_keeps terminal_up [OF assms(1)])

lemma priorChallenge_up:
  assumes "GH d = gh" "priorChallenge d n w = (Inl e, w')" "stays hist good w0 w"
  shows False
  using assms(2,3) unfolding priorChallenge_def assms(1) by (auto split: prod.splits sum.splits dest: ups)

lemma postChallenge_up:
  assumes d: "GH d = gh" "tame hist good (Rand d)" "delivers good (Rand d)"
    and run: "postChallenge lib d n w = (Inl e, w')" and s: "stays hist good w0 w"
  shows False
proof -
  obtain bs w1 where r: "read_full (Rand d) nonceBytes w = (Inr bs, w1)"
    using read_full_delivers [OF d(3) tame_good [OF d(2)] staysD(1) [OF s]] by blast
  have "stays hist good w0 w1" by (rule read_full_preserves [OF tame_preserves [OF d(2)] r s])
  then show ?thesis
    using run r unfolding postChallenge_def Generate_def d(1)
    by (auto simp: Let_def split: prod.splits sum.splits dest: ups view.op_keeps)
qed

end

text \<open>Counted, and counted since a first world.\<close>

locale counted_up = up_files + counted_files

locale begun_files = counted_up +
  fixes start
  assumes since_start: "good w \<Longrightarrow> 0 \<le> by_others hist own start w a"

context counted_up begin

lemma since_count: "tame hist good f \<Longrightarrow> (\<And>k. preserves (counting good own k) f) \<Longrightarrow> preserves (counting (since hist own good start) own k) f"
proof (rule preservesI)
  fix w r w' assume f: "tame hist good f" "\<And>k. preserves (counting good own k) f"
    and run: "f w = (r, w')" and w: "counting (since hist own good start) own k w"
  have "counting good own k w'" by (rule preservesD [OF f(2) run]) (use w in \<open>simp add: counting_def since_def\<close>)
  moreover have "since hist own good start w'" by (rule preservesD [OF tame_good [OF since_tame [OF f]] run]) (use w in \<open>simp add: counting_def\<close>)
  ultimately show "counting (since hist own good start) own k w'" by (simp add: counting_def)
qed

lemma since_up: "up_files gh hist (since hist own good start)"
  by (rule up_files.intro [OF since_answering], unfold_locales)
     (blast dest: begun_good own_up post_up labels_up close_up access_up file_up)+

lemma since_counted: "counted_files gh hist (since hist own good start) own"
proof (rule counted_files.intro [OF since_answering], rule counted_files_axioms.intro)
  note c = counted_calls
  show "ledger_view gh (counting (since hist own good start) own k)" for k
    by (rule ledger_view.intro; rule since_count) (rule own_tame post_tame labels_tame close_tame file_tame access_tame get_tame c)+
  show "(\<forall>b. own w' b + length (hist w b) \<le> own w b + length (hist w' b)) \<and> (isl ur \<longrightarrow> own w' = own w)"
    if "since hist own good start w" "PutLedger gh a ct p m w = (ur, w')" for w a ct p m ur w'
    by (rule put_count [OF begun_good [OF that(1)] that(2)])
qed

lemma begun: "begun_files gh hist (since hist own good start) own start"
  by (rule begun_files.intro [OF counted_up.intro [OF since_up since_counted]], unfold_locales) (simp add: since_def)

end

lemma tame_issuer_good:
  assumes "\<And>k. tame_issuer hist (counting good own k) gh d"
  shows "GH d = gh" "tame hist good (Clock d)" "tame hist good (Rand d)" "tame hist good (Sign (Signer d) t p)"
  using tame_issuerD(1) [OF assms] tame_counting(1) [of hist good own, OF tame_issuerD(2) [OF assms]]
    tame_counting(1) [of hist good own, OF tame_issuerD(3) [OF assms]] tame_counting(1) [of hist good own, OF tame_issuerD(4) [OF assms]]
  by blast+

lemma first_or_five_mono: "stays hist good w w' \<Longrightarrow> first_or_five (hist w a) \<le> first_or_five (hist w' a)"
  using stays_longer [of hist good w w' a] by (auto simp: first_or_five_def)

context counted_up begin

text \<open>The issuer.\<close>

lemma issue_gives_way:
  assumes s: "stays hist good w0 w" and cur: "up_to_date (hist w a) ex sha"
    and dd: "\<And>k. tame_issuer hist (counting good own k) gh d"
    and ok: "outside_ok lib d iss" and a: "Valid a" and key: "allowed_key pub" and open_a: "unreserved (hist w a)"
    and works: "delivers good (Rand d)" "signs good lib (Signer d)"
  shows "\<exists>r w'. issueCert lib d iss f a pub ex sha w = Some (r, w') \<and>
    (isl r \<longrightarrow> own w' = own w \<and> length (hist w a) + rounds (hist w a) 5 \<le> length (hist w' a))"
proof -
  let ?I = "counting good own (own w)"
  note d = tame_issuerD [OF dd [of "own w"]]
  note clock = preservesD [OF tame_preserves [OF d(2)]] and sign = preservesD [OF tame_preserves [OF d(4)]]
  note kept = stays_counting(1)
  obtain ic where ic: "IssuerCertificate (Signer d) = Some ic" using works(2) by (auto simp: signs_def)
  let ?inp = "\<lambda>now. \<lparr>InAppID = a, InOwner = ownerOf (FormRepo f), InOrigin = OriginGitHub, InPublicKey = pub,
    InNotBefore = now, InIssuer = IssuerCertificate (Signer d)\<rparr>"
  obtain now w1 where clk: "Clock d w = (now, w1)" by (metis surj_pair)
  have s1: "stays hist ?I w w1" by (rule clock [OF clk counting_start [OF s]])
  obtain n w2 where draw: "randomSerial (Rand d) w1 = Some (Inr n, w2)"
    using serial_delivered [OF works(1) tame_good [OF tame_issuer_good(3) [OF dd]] staysD(1) [OF kept [OF s1]]] by blast
  let ?t = "leaf_template (?inp now) ic n"
  have "pub \<noteq> None" using key by (cases pub) (simp_all add: allowed_key_def)
  then have leaf: "Leaf (Rand d) (?inp now) w1 = Some (Inr ?t, w2)" using draw a ic by (simp add: Leaf_Inr)
  have s2: "stays hist ?I w w2" by (rule Leaf_preserves [OF tame_preserves [OF d(3)] leaf s1])
  have "0 < XSerial ?t" using randomSerial_range [OF draw] by (simp add: leaf_template_def Let_def)
  then obtain der lf w3 where sg: "Sign (Signer d) ?t pub w2 = (Inr der, w3)" "ParseCertificate lib der = Inr lf"
    using works(2) key staysD(1) [OF kept [OF s2]] unfolding signs_def by blast
  have s3: "stays hist ?I w w3" by (rule sign [OF sg(1) s2])
  let ?e = "ledger_entry lib iss lf der"
  obtain t w4 where clk2: "Clock d w3 = (t, w4)" by (metis surj_pair)
  note s4 = stays_counting [OF clock [OF clk2 s3]]
  obtain cr w5 where loop: "commit_loop d a (FormRepo f) ?e t Enroll.maxLedgerRetries None ex sha w4 = (cr, w5)" by (metis surj_pair)
  have commit: "commitLedger d a (FormRepo f) ?e ex sha w3 = (cr, w5)" using loop clk2 by (simp add: commitLedger_def)
  show ?thesis
  proof (cases cr)
    case (Inl e)
    then show ?thesis
      using commit_gives_way [OF s4(1) staysD(1) [OF s] d(1) cur loop [unfolded Inl]] clk leaf sg commit
        commit_fails_own [OF d(1) loop [unfolded Inl] staysD(1) [OF s4(1)]] s4(2)
      by (simp add: issueCert_def Let_def Enroll.maxLedgerRetries_def)
  next
    case (Inr u)
    have t: "year_ok t" using ok clk2 unfolding outside_ok_def by (metis fst_conv)
    have old: "was_read (hist w4 a) ex sha" "unreserved (hist w4 a)"
      using s4(1) cur open_a honest_unreserved [of a "hist w a" "hist w4 a"] was_read_extends [of hist w a ex sha w4] honest_extends [of hist w w4]
      unfolding stays_def honest_def up_to_date_def by blast+
    have s5: "stays hist good w w5"
      by (rule commit_stays [OF s4(1) d(1) a t entry_storable [OF ok sg(2)] _ old loop]) (simp add: ledger_entry_def)
    obtain dr w6 where dl: "Enroll.deliver d iss a der (Some ic) w5 = (dr, w6)" by (metis surj_pair)
    then have "\<not> isl dr" by (auto simp: isl_def dest: deliver_up [OF d(1) _ s5])
    then show ?thesis using clk leaf sg commit Inr dl ic by (simp add: issueCert_def Let_def)
  qed
qed

end

context begun_files begin

lemma decide_gives_way:
  assumes s: "stays hist good start w" and dd: "\<And>k. tame_issuer hist (counting good own k) gh d"
    and ok: "outside_ok lib d iss" and a: "Valid a" and key: "allowed_key (ReqPublicKey req)"
    and works: "delivers good (Rand d)" "signs good lib (Signer d)"
  shows "\<exists>r w'. decide_and_issue lib d iss f req a w = Some (r, w') \<and> (isl r \<longrightarrow> gave_way hist own first_or_five start w')"
proof -
  note gh = tame_issuer_good(1) [OF dd]
  obtain lr w1 where load: "Enroll.loadLedger d a w = (lr, w1)" by (metis surj_pair)
  obtain ex sha where l: "lr = Inr (ex, sha)" "up_to_date (hist w1 a) ex sha" "stays hist good start w1"
    using load_latest [OF s gh load] by blast
  show ?thesis
  proof (cases "Decide ex (FormRepo f) \<in> {DecisionNewClaim, DecisionAllowed}")
    case True
    have led: "ledger_of (hist w1 a) = ex" using l(2) by (simp add: up_to_date_def)
    have "unreserved (hist w1 a)" unfolding unreserved_def led using True accepted_not_reserved by blast
    from issue_gives_way [OF l(3,2) dd ok a key this works]
    obtain r w' where i: "issueCert lib d iss f a (ReqPublicKey req) ex sha w1 = Some (r, w')"
      "isl r \<Longrightarrow> own w' = own w1 \<and> length (hist w1 a) + rounds (hist w1 a) 5 \<le> length (hist w' a)" by blast
    have "decide_and_issue lib d iss f req a w = Some (r, w')" using True load l(1) i(1) by (auto simp: decide_and_issue_def)
    moreover have "gave_way hist own first_or_five start w'" if "isl r"
      by (rule gave_way_loop [OF since_start [OF staysD(1) [OF l(3)]] conjunct1 [OF i(2) [OF that]] conjunct2 [OF i(2) [OF that]]])
         (use first_or_five_mono [OF l(3)] in \<open>simp add: rounds_five\<close>)
    ultimately show ?thesis by blast
  next
    case False
    then obtain msg where m: "decide_and_issue lib d iss f req a w = Some (Enroll.terminal d iss LabelRejected msg w1)"
      using load l(1) by (cases "Decide ex (FormRepo f)") (auto simp: decide_and_issue_def)
    show ?thesis unfolding m option.inject by (rule ends_well) (rule terminal_up [OF gh _ l(3)])
  qed
qed

lemma challenge_gives_way:
  assumes s: "stays hist good start w" and slug: "plain_slug (FormRepo f)" and dd: "\<And>k. tame_issuer hist (counting good own k) gh d"
    and ok: "outside_ok lib d iss" and a: "Valid a" and key: "allowed_key (ReqPublicKey req)"
    and works: "delivers good (Rand d)" "signs good lib (Signer d)"
  shows "\<exists>r w'. challenge_phase lib d iss f req a w = Some (r, w') \<and> (isl r \<longrightarrow> gave_way hist own first_or_five start w')"
proof -
  note d = tame_issuer_good [OF dd]
  obtain pr w1 where prior: "priorChallenge d (Number iss) w = (pr, w1)" by (metis surj_pair)
  have s1: "stays hist good start w1" by (rule view.priorChallenge_keeps [OF d(1) prior s])
  obtain np where pr: "pr = Inr np" using priorChallenge_up [OF d(1) _ s] prior by (cases pr) auto
  show ?thesis
  proof (cases np)
    case None
    then have m: "challenge_phase lib d iss f req a w = Some (postChallenge lib d (Number iss) w1)"
      using prior pr by (simp add: challenge_phase_def)
    show ?thesis unfolding m option.inject by (rule ends_well) (rule postChallenge_up [OF d(1,3) works(1) _ s1])
  next
    case (Some nt)
    obtain nonce posted where nt: "nt = (nonce, posted)" by (cases nt)
    obtain now w2 where clk: "Clock d w1 = (now, w2)" by (metis surj_pair)
    have s2: "stays hist good start w2" by (rule preservesD [OF tame_preserves [OF d(2)] clk s1])
    note run = prior pr Some nt clk
    show ?thesis
    proof (cases "Expired posted now")
      case True
      then have m: "challenge_phase lib d iss f req a w = Some (Enroll.terminal d iss LabelExpired msg_expired w2)"
        using run by (simp add: challenge_phase_def)
      show ?thesis unfolding m option.inject by (rule ends_well) (rule terminal_up [OF d(1) _ s2])
    next
      case False
      obtain fr w3 where got: "GetFile gh (FormRepo f) FilePath w2 = (fr, w3)" by (metis surj_pair)
      have s3: "stays hist good start w3" by (rule preservesD [OF tame_preserves [OF file_tame] got s2])
      show ?thesis
      proof (cases "\<exists>got sha. fr = Inr (got, sha) \<and> Match nonce got")
        case True
        then have "challenge_phase lib d iss f req a w = decide_and_issue lib d iss f req a w3"
          using run False got d(1) by (auto simp: challenge_phase_def)
        then show ?thesis using decide_gives_way [OF s3 dd ok a key works] by simp
      next
        case unmatched: False
        then have "challenge_phase lib d iss f req a w = Some (Inr (), w3)"
          using run False got d(1) file_up [of _ FilePath w2 _ w3] staysD(1) [OF s2] slug
          by (cases fr) (auto simp: challenge_phase_def)
        then show ?thesis by simp
      qed
    qed
  qed
qed

theorem issuer_gives_way:
  assumes s: "stays hist good start w" and dd: "\<And>k. tame_issuer hist (counting good own k) gh d" and ok: "outside_ok lib d iss"
    and slug: "plain_form iss" and works: "delivers good (Rand d)" "signs good lib (Signer d)"
  shows "\<exists>r w'. Enroll.Process lib xml d iss w = Some (r, w') \<and> (isl r \<longrightarrow> gave_way hist own first_or_five start w')"
proof -
  note gh = tame_issuer_good(1) [OF dd]
  have ends: "\<exists>r w'. Enroll.terminal d iss l msg v = (r, w') \<and> (isl r \<longrightarrow> gave_way hist own first_or_five start w')"
    if "stays hist good start v" for l msg v
    by (rule ends_well) (rule terminal_up [OF gh _ that])
  have lost: "\<exists>r w'. info_not_found d iss rp v = (r, w') \<and> (isl r \<longrightarrow> gave_way hist own first_or_five start w')"
    if "stays hist good start v" "plain_slug rp" for rp v
    by (rule ends_well) (rule info_not_found_up [OF gh _ that])
  have info: "stays hist good start w1 \<and> (\<forall>e. fr = Inl e \<longrightarrow> errors_is e ErrNotFound)"
    if "GetFile gh rp infoPath w = (fr, w1)" "plain_slug rp" for rp fr w1
    using preservesD [OF tame_preserves [OF file_tame] that(1) s] file_up [of rp infoPath w _ w1] staysD(1) [OF s] that by auto
  note phase = challenge_gives_way [OF _ _ dd ok _ _ works]
  show ?thesis
    using s slug unfolding Enroll.Process_def gh
    by (auto simp: plain_form_def ValidateStrict_def csr_Parse_Inr split: prod.split sum.split if_splits intro!: ends lost phase dest!: info)
qed

text \<open>Whatever a form says, the pipeline ends.\<close>

lemma issue_returns:
  assumes s: "stays hist good w0 w" and d: "tame hist good (Clock d)" "tame hist good (Rand d)" and rd: "delivers good (Rand d)"
  shows "issueCert lib d iss f a pub ex sha w \<noteq> None"
proof -
  obtain now w1 where clk: "Clock d w = (now, w1)" by (metis surj_pair)
  have w1: "good w1" by (rule preservesD [OF tame_good [OF d(1)] clk staysD(1) [OF s]])
  obtain n w2 where "randomSerial (Rand d) w1 = Some (Inr n, w2)"
    using serial_delivered [OF rd tame_good [OF d(2)] w1] by blast
  then show ?thesis using clk by (auto simp: issueCert_def Leaf_def Let_def split: option.split sum.split)
qed

lemma challenge_returns:
  assumes s: "stays hist good w0 w" and gh: "GH d = gh" and d: "tame hist good (Clock d)" "tame hist good (Rand d)"
    and rd: "delivers good (Rand d)"
  shows "challenge_phase lib d iss f req a w \<noteq> None"
proof -
  have decide: "decide_and_issue lib d iss f req a v \<noteq> None" if v: "stays hist good w0 v" for v
  proof -
    obtain lr w1 where load: "Enroll.loadLedger d a v = (lr, w1)" by (metis surj_pair)
    have "stays hist good w0 w1" by (rule view.loadLedger_keeps [OF gh load v])
    from issue_returns [OF this d rd] show ?thesis
      using load by (auto simp: decide_and_issue_def split: sum.split decision.split)
  qed
  obtain pr w1 where prior: "priorChallenge d (Number iss) w = (pr, w1)" by (metis surj_pair)
  have s1: "stays hist good w0 w1" by (rule view.priorChallenge_keeps [OF gh prior s])
  obtain now w2 where clk: "Clock d w1 = (now, w2)" by (metis surj_pair)
  have s2: "stays hist good w0 w2" by (rule preservesD [OF tame_preserves [OF d(1)] clk s1])
  obtain fr w3 where got: "GetFile gh (FormRepo f) FilePath w2 = (fr, w3)" by (metis surj_pair)
  have s3: "stays hist good w0 w3" by (rule preservesD [OF tame_preserves [OF file_tame] got s2])
  show ?thesis
    using prior clk got gh decide [OF s3] by (auto simp: challenge_phase_def split: sum.split option.split)
qed

lemma issuer_returns:
  assumes s: "stays hist good w0 w" and gh: "GH d = gh" and d: "tame hist good (Clock d)" "tame hist good (Rand d)"
    and rd: "delivers good (Rand d)"
  shows "Enroll.Process lib xml d iss w \<noteq> None"
proof -
  have got: "stays hist good w0 w1" if "GetFile gh rp infoPath w = (fr, w1)" for rp fr w1
    by (rule preservesD [OF tame_preserves [OF file_tame] that s])
  show ?thesis
    unfolding Enroll.Process_def gh
    by (auto split: sum.split prod.split dest!: got challenge_returns [OF _ gh d rd])
qed

text \<open>The revoker.\<close>

lemma match_gives_way:
  assumes s: "stays hist good start w" and d: "RevGH d = gh" and run: "match_and_revoke lib d iss vres a w = (Inl e, w')"
  shows "gave_way hist own (\<lambda>vs. 5) start w'"
proof -
  let ?fp = "Fingerprint lib (Raw (SignerCert vres))"
  obtain lr w1 where load: "Revoke.loadLedger gh a w = (lr, w1)" by (metis surj_pair)
  obtain ex sha where l: "lr = Inr (ex, sha)" "up_to_date (hist w1 a) ex sha" "stays hist good start w1"
    using revoke_load_latest [OF s load] by blast
  show ?thesis
  proof (cases "\<exists>idx lg. findByFingerprint ex ?fp = Some idx \<and> ex = Some lg \<and> Status (certs lg ! idx) \<noteq> StatusRevoked")
    case False
    then show ?thesis
      using run load l(1) d
      by (cases "findByFingerprint ex ?fp"; cases ex)
         (auto simp: match_and_revoke_def Let_def split: if_splits dest: revoke_terminal_up [OF d _ l(3)] already_up [OF d _ l(3)])
  next
    case True
    then obtain idx lg where f: "findByFingerprint (Some lg) ?fp = Some idx" "ex = Some lg" "Status (certs lg ! idx) \<noteq> StatusRevoked" by blast
    let ?rv = "\<lparr>RevReason = ''self-service'', RevFrom = NotBefore (certs lg ! idx), RevActor = []\<rparr>"
    obtain ar w2 where ap: "apply_loop gh a (\<lambda>lg. findByFingerprint lg ?fp) ?rv Revoke.maxLedgerRetries None (Some lg) sha w1 = (ar, w2)"
      by (metis surj_pair)
    note s1 = staysD(3,1) [OF l(3)]
    show ?thesis
    proof (cases ar)
      case (Inl e2)
      then have w2: "w' = w2" using run load l(1) f d ap by (simp add: match_and_revoke_def Let_def applyRevocation_def)
      have more: "length (hist w1 a) + Revoke.maxLedgerRetries \<le> length (hist w2 a)"
        by (rule apply_gives_way [OF s1 _ l(2) [unfolded f(2)] f(1) ap [unfolded Inl]]) simp
      show ?thesis
        unfolding w2
        by (rule gave_way_loop [OF since_start [OF s1(2)] apply_fails_own [OF ap [unfolded Inl] s1(2)] more])
           (simp add: Revoke.maxLedgerRetries_def)
    next
      case (Inr serial)
      have led: "ledger_of (hist w1 a) = Some lg" using l(2) f(2) by (simp add: up_to_date_def)
      have wf: "well_formed a lg" using staysD(2) [OF l(3)] led sound_ledger by (auto simp: all_sound_def)
      have "year_ok (NotBefore (certs lg ! idx))"
        using well_formed_entry [OF wf] found_index(2) [OF f(1)] by (simp add: cert_storable_def)
      then have "stays hist good start w2"
        by (intro apply_stays [OF l(3) _ _ _ ap]) (use l(2) f(2) in \<open>auto simp: up_to_date_def dest: found_index(2)\<close>)
      then have False
        using run load l(1) f d ap Inr revoke_deliver_up [OF d]
        by (auto simp: match_and_revoke_def Let_def applyRevocation_def)
      then show ?thesis ..
    qed
  qed
qed

theorem revoker_gives_way:
  assumes s: "stays hist good start w" and d: "tame_revoker hist good gh d" and works: "verifies good (RevVerifier d)"
    and run: "Revoke.Process lib d iss w = (Inl e, w')"
  shows "gave_way hist own (\<lambda>vs. 5) start w'"
proof -
  have gh: "RevGH d = gh" and v: "preserves (stays hist good start) (Verify (RevVerifier d) b)" for b
    using d tame_preserves [of hist good "Verify (RevVerifier d) b"] by (auto simp: tame_revoker_def)
  have bad: "errors_is er ErrInvalidCMS" if "Verify (RevVerifier d) b w = (Inl er, w1)" for b er w1
    using works staysD(1) [OF s] that unfolding verifies_def by blast
  then show ?thesis
    using run s unfolding Revoke.Process_def
    by (auto split: prod.splits sum.splits if_splits dest: bad revoke_terminal_up [OF gh] preservesD [OF v] intro: match_gives_way [OF _ gh])
qed

end

end
