(* ===== verification/BusyGithub.thy ===== *)
theory BusyGithub imports HonestStore begin

text \<open>
  The in-memory GitHub among other writers who act before every call, each by a strategy of its own
  that sees all the files: the provider of the contract of honest files.
\<close>

section \<open>The world\<close>

type_synonym strategy = "(string \<Rightarrow> version list) \<Rightarrow> (string \<times> string) option"

record busy =
  Store :: shared
  Calls :: nat
  Others :: "nat \<Rightarrow> strategy list"

definition busy_hist :: "busy \<Rightarrow> string \<Rightarrow> version list" where
  "busy_hist w = History (Store w)"

definition act :: "strategy \<Rightarrow> shared \<Rightarrow> shared" where
  "act st s = (case st (History s) of None \<Rightarrow> s | Some ac \<Rightarrow> foreign_write ac s)"

text \<open>What the others do before a call, and a call.\<close>

definition others_act :: "busy \<Rightarrow> busy" where
  "others_act w = w\<lparr>Store := fold act (Others w (Calls w)) (Store w), Calls := Suc (Calls w)\<rparr>"

definition busy_call :: "(shared \<Rightarrow> 'a \<times> shared) \<Rightarrow> busy \<Rightarrow> 'a \<times> busy" where
  "busy_call f w = (let w1 = others_act w in case f (Store w1) of (r, s) \<Rightarrow> (r, w1\<lparr>Store := s\<rparr>))"

definition busy_github :: "busy github" where
  "busy_github =
     \<lparr>ListOpenCertRequests = busy_call (ListOpenCertRequests shared_github),
      ListOpenRevocationRequests = busy_call (ListOpenRevocationRequests shared_github),
      OwnComments = (\<lambda>i. busy_call (OwnComments shared_github i)),
      PostComment = (\<lambda>i b. busy_call (PostComment shared_github i b)),
      SetLabels = (\<lambda>i a r. busy_call (SetLabels shared_github i a r)),
      CloseIssue = (\<lambda>i. busy_call (CloseIssue shared_github i)),
      GetFile = (\<lambda>r p. busy_call (GetFile shared_github r p)),
      RepoAccessible = (\<lambda>r. busy_call (RepoAccessible shared_github r)),
      GetLedger = (\<lambda>a. busy_call (GetLedger shared_github a)),
      PutLedger = (\<lambda>a ct p m. busy_call (PutLedger shared_github a ct p m)),
      PutFile = (\<lambda>r f ct p m. busy_call (PutFile shared_github r f ct p m))\<rparr>"

text \<open>A strategy that writes registry steps only.\<close>

definition honest_strategy :: "strategy \<Rightarrow> bool" where
  "honest_strategy st \<longleftrightarrow>
     (\<forall>h a c s. st h = Some (a, c) \<longrightarrow> honest_write a (h a) ((c, s) # h a))"

definition busy_good :: "busy \<Rightarrow> bool" where
  "busy_good w \<longleftrightarrow> consistent (Store w) \<and> Pending (Store w) = [] \<and>
     (\<forall>n. \<forall>st \<in> set (Others w n). honest_strategy st)"

section \<open>The contract holds\<close>

lemma foreign_write_history: "\<exists>sha. History (foreign_write (a, c) s) = (History s)(a := (c, sha) # History s a)"
  by (intro exI [of _ "sha_name (Suc (nextSHA (Client s)))"])
     (simp add: foreign_write_def SetLedger_def mintSHA_def Let_def record_version_def)

lemma act_keeps:
  assumes "consistent s" "honest_strategy st"
  shows "consistent (act st s) \<and> Pending (act st s) = Pending s \<and>
    (\<forall>b. (honest_write b)\<^sup>*\<^sup>* (History s b) (History (act st s) b))"
proof (cases "st (History s)")
  case (Some ac)
  obtain a c where ac: "ac = (a, c)" by (cases ac)
  obtain sha where h: "History (foreign_write (a, c) s) = (History s)(a := (c, sha) # History s a)"
    using foreign_write_history by blast
  have "honest_write a (History s a) ((c, sha) # History s a)"
    using assms(2) Some ac unfolding honest_strategy_def by blast
  then show ?thesis
    using foreign_write_keeps [OF assms(1), of ac] Some ac h by (auto simp: act_def)
qed (use assms in \<open>simp add: act_def\<close>)

lemma acts_keep:
  "consistent s \<Longrightarrow> \<forall>st \<in> set sts. honest_strategy st \<Longrightarrow>
     consistent (fold act sts s) \<and> Pending (fold act sts s) = Pending s \<and>
     (\<forall>b. (honest_write b)\<^sup>*\<^sup>* (History s b) (History (fold act sts s) b))"
proof (induction sts arbitrary: s)
  case (Cons st sts)
  have 1: "consistent (act st s)" "Pending (act st s) = Pending s" "\<And>b. (honest_write b)\<^sup>*\<^sup>* (History s b) (History (act st s) b)"
    using act_keeps [OF Cons.prems(1)] Cons.prems(2) by auto
  from Cons.IH [OF 1(1)] Cons.prems(2)
  show ?case using 1 by (auto intro: rtranclp_trans [OF 1(3)])
qed simp

lemma others_keep:
  assumes "busy_good w"
  shows "busy_good (others_act w)" "honest busy_hist w (others_act w)"
  using acts_keep [of "Store w" "Others w (Calls w)"] assms
  by (simp_all add: busy_good_def others_act_def honest_def busy_hist_def)

text \<open>A call of which only the part of others is visible in the files.\<close>

lemma busy_call_tame:
  assumes "\<And>s r s'. consistent s \<Longrightarrow> Pending s = [] \<Longrightarrow> f s = (r, s') \<Longrightarrow>
    consistent s' \<and> Pending s' = [] \<and> History s' = History s"
  shows "tame busy_hist busy_good (busy_call f)"
  unfolding tame_def
proof (intro allI impI)
  fix w r w' assume w: "busy_good w" and run: "busy_call f w = (r, w')"
  let ?w1 = "others_act w"
  obtain s' where f: "f (Store ?w1) = (r, s')" "w' = ?w1\<lparr>Store := s'\<rparr>"
    using run by (auto simp: busy_call_def Let_def split: prod.splits)
  have "consistent (Store ?w1)" "Pending (Store ?w1) = []" using others_keep(1) [OF w] by (simp_all add: busy_good_def)
  from assms [OF this f(1)]
  show "busy_good w' \<and> honest busy_hist w w'"
    using others_keep [OF w] f(2) by (simp add: busy_good_def honest_def busy_hist_def)
qed

lemma interfere_idle: "Pending s = [] \<Longrightarrow> interfere s = s"
  by (simp add: interfere_def)

lemma lift_client_idle:
  assumes "\<And>c. Ledgers (snd (f c)) = Ledgers c \<and> nextSHA (snd (f c)) = nextSHA c"
  shows "consistent s \<Longrightarrow> Pending s = [] \<Longrightarrow> lift_client f s = (r, s') \<Longrightarrow>
    consistent s' \<and> Pending s' = [] \<and> History s' = History s"
  using assms [of "Client s"] consistent_same_ledgers [of s "snd (f (Client s))"]
  by (auto simp: lift_client_def split: prod.splits)

lemma get_idle:
  "Pending s = [] \<Longrightarrow> shared_GetLedger a s = (r, s') \<Longrightarrow> s' = s"
  by (auto simp: shared_GetLedger_def interfere_idle lift_client_def fake_GetLedger_def split: option.splits)

text \<open>A write, seen in the files.\<close>

lemma put_idle:
  assumes s: "consistent s" "Pending s = []" and put: "shared_PutLedger a ct p m s = (r, s')"
  shows "consistent s' \<and> Pending s' = [] \<and> (\<forall>b. b \<noteq> a \<longrightarrow> History s' b = History s b) \<and>
    (case r of Inl e \<Rightarrow> History s' a = History s a
     | Inr u \<Rightarrow> \<exists>sha. History s' a = (ct, sha) # History s a \<and> p = current_sha (History s a))"
proof -
  have c: "consistent s'" and top: "\<And>u. r = Inr u \<Longrightarrow> \<exists>sha. History s' a = (ct, sha) # History s a \<and> p = current_sha (History s a)"
    using put_world [OF s(1) put] s(2) by (auto simp: interfere_idle)
  have "Pending s' = [] \<and> (\<forall>b. b \<noteq> a \<longrightarrow> History s' b = History s b) \<and> (isl r \<longrightarrow> History s' a = History s a)"
    using put s(2)
    by (auto simp: shared_PutLedger_def interfere_idle Let_def fake_PutLedger_def record_version_def
        split: prod.splits sum.splits option.splits)
  then show ?thesis using c top by (cases r) auto
qed

lemma others_suffix: "busy_good w \<Longrightarrow> extends busy_hist w (others_act w)"
  using others_keep(2) by (rule honest_extends)

lemma busy_put:
  assumes w: "busy_good w" and put: "PutLedger busy_github a ct p m w = (r, w')"
  shows "busy_good w' \<and> (\<forall>b. b \<noteq> a \<longrightarrow> busy_hist w' b = busy_hist (others_act w) b) \<and>
    (case r of Inl e \<Rightarrow> busy_hist w' a = busy_hist (others_act w) a
     | Inr u \<Rightarrow> \<exists>sha. busy_hist w' a = (ct, sha) # busy_hist (others_act w) a \<and> p = current_sha (busy_hist (others_act w) a))"
proof -
  let ?w1 = "others_act w"
  have w1: "consistent (Store ?w1)" "Pending (Store ?w1) = []" using others_keep(1) [OF w] by (simp_all add: busy_good_def)
  obtain s' where f: "shared_PutLedger a ct p m (Store ?w1) = (r, s')" "w' = ?w1\<lparr>Store := s'\<rparr>"
    using put by (auto simp: busy_github_def shared_github_def busy_call_def Let_def split: prod.splits)
  from put_idle [OF w1 f(1)] show ?thesis
    using others_keep(1) [OF w] f(2) by (auto simp: busy_good_def busy_hist_def split: sum.splits)
qed

lemma busy_get:
  assumes w: "busy_good w" and get: "GetLedger busy_github a w = (r, w')"
  shows "w' = others_act w \<and>
    (case r of Inl e \<Rightarrow> busy_hist w' a = [] | Inr (c, s) \<Rightarrow> \<exists>older. busy_hist w' a = (c, s) # older)"
proof -
  let ?w1 = "others_act w"
  have w1: "consistent (Store ?w1)" "Pending (Store ?w1) = []" using others_keep(1) [OF w] by (simp_all add: busy_good_def)
  obtain s' where f: "shared_GetLedger a (Store ?w1) = (r, s')" "w' = ?w1\<lparr>Store := s'\<rparr>"
    using get by (auto simp: busy_github_def shared_github_def busy_call_def Let_def split: prod.splits)
  have s': "s' = Store ?w1" by (rule get_idle [OF w1(2) f(1)])
  have "head_is (Ledgers (Client (Store ?w1)) a) (History (Store ?w1) a)" using w1(1) by (simp add: consistent_def)
  then show ?thesis
    using f s' w1(2)
    by (auto simp: busy_hist_def shared_GetLedger_def interfere_idle lift_client_def fake_GetLedger_def split: option.splits)
qed

lemma busy_extends:
  assumes w: "busy_good w" and put: "PutLedger busy_github a ct p m w = (r, w')"
  shows "extends busy_hist w w'"
proof -
  have "suffix (busy_hist (others_act w) b) (busy_hist w' b)" for b
    using busy_put [OF w put] by (cases "b = a"; cases r) (auto simp: suffix_def)
  then show ?thesis using others_suffix [OF w] unfolding extends_def using suffix_order.trans by blast
qed

lemma busy_ledger_files: "ledger_files busy_github busy_hist busy_good"
proof unfold_locales
  fix w a r w' assume w: "busy_good w" and "GetLedger busy_github a w = (r, w')"
  then have "w' = others_act w" using busy_get by blast
  then show "busy_good w' \<and> extends busy_hist w w'" using others_keep(1) [OF w] others_suffix [OF w] by simp
next
  fix w a c s w' assume "busy_good w" "GetLedger busy_github a w = (Inr (c, s), w')"
  from busy_get [OF this] show "\<exists>older. busy_hist w' a = (c, s) # older" by auto
next
  fix w a c p m r w' assume w: "busy_good w" and put: "PutLedger busy_github a c p m w = (r, w')"
  show "busy_good w' \<and> extends busy_hist w w'" using busy_put [OF w put] busy_extends [OF w put] by blast
next
  fix w a p c m u w' assume w: "busy_good w" and put: "PutLedger busy_github a c p m w = (Inr u, w')"
  show "\<exists>s older. busy_hist w' a = (c, s) # older \<and> suffix (busy_hist w a) older \<and> p = current_sha older"
    using busy_put [OF w put] others_suffix [OF w] by (auto simp: extends_def)
next
  fix w c s a c' assume "busy_good w" "(c, s) \<in> set (busy_hist w a)" "(c', s) \<in> set (busy_hist w a)"
  then show "c = c'" using sha_content_shared by (simp add: busy_good_def busy_hist_def) blast
next
  fix w c s a assume "busy_good w" "(c, s) \<in> set (busy_hist w a)"
  then show "s \<noteq> []" using sha_nonempty_shared by (simp add: busy_good_def busy_hist_def) blast
qed

interpretation busy_files: honest_files busy_github busy_hist busy_good
proof (rule honest_files.intro [OF busy_ledger_files], unfold_locales)
  note idle = busy_call_tame [OF lift_client_idle]
  show "tame busy_hist busy_good (OwnComments busy_github i)" for i
    unfolding busy_github_def shared_github_def by (simp, rule idle) (auto simp: fake_OwnComments_def split: option.splits)
  show "tame busy_hist busy_good (PostComment busy_github i b)" for i b
    unfolding busy_github_def shared_github_def by (simp, rule idle) (auto simp: fake_PostComment_def split: option.splits)
  show "tame busy_hist busy_good (SetLabels busy_github i ls rs)" for i ls rs
    unfolding busy_github_def shared_github_def by (simp, rule idle) (auto simp: fake_SetLabels_def split: option.splits)
  show "tame busy_hist busy_good (CloseIssue busy_github i)" for i
    unfolding busy_github_def shared_github_def by (simp, rule idle) (auto simp: fake_CloseIssue_def split: option.splits)
  show "tame busy_hist busy_good (GetFile busy_github rp p)" for rp p
    unfolding busy_github_def shared_github_def by (simp, rule idle) (auto simp: fake_GetFile_def split: option.splits)
  show "tame busy_hist busy_good (RepoAccessible busy_github rp)" for rp
    unfolding busy_github_def shared_github_def by (simp, rule idle) (auto simp: fake_RepoAccessible_def split: option.splits)
  show "tame busy_hist busy_good (GetLedger busy_github a)" for a
    unfolding tame_def using busy_get others_keep by blast
  show "busy_hist w' a = []" if "busy_good w" "GetLedger busy_github a w = (Inl e, w')" "errors_is e ErrNotFound" for w a e w'
    using busy_get [OF that(1,2)] by auto
  show "may_land a c p (busy_hist w a) (busy_hist w' a) \<and> (\<forall>b. b \<noteq> a \<longrightarrow> (honest_write b)\<^sup>*\<^sup>* (busy_hist w b) (busy_hist w' b))"
    if w: "busy_good w" and put: "PutLedger busy_github a c p m w = (ur, w')" for w a p c m ur w'
  proof -
    have o: "(honest_write b)\<^sup>*\<^sup>* (busy_hist w b) (busy_hist (others_act w) b)" for b
      using others_keep(2) [OF w] by (simp add: honest_def)
    show ?thesis
      using busy_put [OF w put] o by (cases ur) (auto simp: may_land_def)
  qed
qed

section \<open>Property\<close>

text \<open>C8: Bots interleaved call by call keep the registry: with any number of issuers, revokers and operators
  over one GitHub whose files other writers change before every single call, as long as those write
  registry steps only, every run of polls in every order turns each ledger file into one with more
  versions, each one registry step from the version below it, and nothing of the ledger is lost.\<close>
theorem interleaved_bots_keep_the_registry:
  assumes "busy_good w" and "all_sound busy_hist w" and "(concurrent busy_github busy_hist busy_good)\<^sup>*\<^sup>* w w'"
  shows "kept_honest busy_hist w w'"
  using busy_files.concurrent_stays [OF assms] stays_kept [OF assms(2)] by blast

end
