(* ===== verification/BusyProgress.thy ===== *)
theory BusyProgress imports Availability BusyGithub begin

text \<open>
  The in-memory GitHub among other writers answers every request, unless a test has asked it to fail
  the next write: the provider of the contract of files that answer.
\<close>

section \<open>No failure is injected\<close>

definition quiet :: "busy \<Rightarrow> bool" where
  "quiet w \<longleftrightarrow> \<not> FailNextPutWithConflict (Client (Store w))"

definition quiet_good :: "busy \<Rightarrow> bool" where
  "quiet_good w \<longleftrightarrow> busy_good w \<and> quiet w"

lemma quiet_goodD [dest]: "quiet_good w \<Longrightarrow> busy_good w" "quiet_good w \<Longrightarrow> quiet w"
  by (simp_all add: quiet_good_def)

lemma tame_quiet: "tame hist busy_good f \<Longrightarrow> preserves quiet f \<Longrightarrow> tame hist quiet_good f"
  unfolding tame_def quiet_good_def by (metis preservesD)

lemma acts_quiet: "FailNextPutWithConflict (Client (fold act sts s)) = FailNextPutWithConflict (Client s)"
  by (induction sts arbitrary: s) (simp_all add: act_def split: option.split)

lemma others_quiet [simp]: "quiet (others_act w) = quiet w"
  by (simp add: quiet_def others_act_def acts_quiet)

lemma busy_call_quiet:
  assumes "\<And>s r s'. Pending s = [] \<Longrightarrow> f s = (r, s') \<Longrightarrow> \<not> FailNextPutWithConflict (Client s) \<Longrightarrow> \<not> FailNextPutWithConflict (Client s')"
  shows "quiet_good w \<Longrightarrow> busy_call f w = (r, w') \<Longrightarrow> quiet w'"
  using others_quiet [of w] others_keep(1) [of w] assms [of "Store (others_act w)"]
  by (auto simp: busy_call_def Let_def quiet_def busy_good_def split: prod.splits)

lemma client_call_quiet:
  assumes "\<And>c. FailNextPutWithConflict (snd (f c)) = FailNextPutWithConflict c"
  shows "preserves quiet (busy_call (lift_client f))"
proof (rule preservesI)
  fix w r w' assume run: "busy_call (lift_client f) w = (r, w')" and w: "quiet w"
  let ?c = "Client (Store (others_act w))"
  have "Client (Store w') = snd (f ?c)"
    using run by (auto simp: busy_call_def lift_client_def Let_def split: prod.splits)
  then show "quiet w'" using assms [of ?c] others_quiet [of w] w by (simp add: quiet_def)
qed

lemma client_calls_quiet:
  "preserves quiet (OwnComments busy_github i)" "preserves quiet (PostComment busy_github i b)"
  "preserves quiet (SetLabels busy_github i ls rs)" "preserves quiet (CloseIssue busy_github i)"
  "preserves quiet (GetFile busy_github rp p)" "preserves quiet (RepoAccessible busy_github rp)"
  unfolding busy_github_def shared_github_def github.simps
  by (rule client_call_quiet; simp add: fake_OwnComments_def fake_PostComment_def fake_SetLabels_def fake_CloseIssue_def
      fake_GetFile_def fake_RepoAccessible_def split: option.split)+

lemma get_quiet:
  assumes "quiet_good w" "GetLedger busy_github a w = (r, w')"
  shows "quiet_good w'"
  using busy_get [of w a r w'] others_keep(1) [of w] assms by (auto simp: quiet_good_def)

lemma fake_put_quiet:
  "fake_PutLedger a ct p m c = (r, c') \<Longrightarrow> \<not> FailNextPutWithConflict c \<Longrightarrow> \<not> FailNextPutWithConflict c'"
  by (auto simp: fake_PutLedger_def checkPrevSHA_def mintSHA_def Let_def split: option.splits if_splits)

lemma put_quiet:
  assumes "quiet_good w" "PutLedger busy_github a ct p m w = (r, w')"
  shows "quiet_good w'"
proof -
  have "quiet w'"
  proof (rule busy_call_quiet [OF _ assms(1)])
    show "busy_call (shared_PutLedger a ct p m) w = (r, w')" using assms(2) by (simp add: busy_github_def shared_github_def)
  next
    fix s r s' assume "Pending s = []" "shared_PutLedger a ct p m s = (r, s')" "\<not> FailNextPutWithConflict (Client s)"
    then show "\<not> FailNextPutWithConflict (Client s')"
      using fake_put_quiet [of a ct p m "Client s"]
      by (auto simp: shared_PutLedger_def interfere_idle record_version_def Let_def split: prod.splits sum.splits option.splits)
  qed
  then show ?thesis using busy_put [of w a ct p m r w'] assms by (auto simp: quiet_good_def)
qed

text \<open>A write that is refused names a version that is not the latest.\<close>

lemma put_refused:
  assumes w: "quiet_good w" and put: "PutLedger busy_github a ct p m w = (Inl e, w')"
  shows "e = ErrConflict \<and> busy_hist w' = busy_hist (others_act w) \<and> p \<noteq> current_sha (busy_hist (others_act w) a)"
proof -
  let ?s = "Store (others_act w)"
  have s: "consistent ?s" "Pending ?s = []" "\<not> FailNextPutWithConflict (Client ?s)"
    using others_keep(1) [of w] others_quiet [of w] w by (auto simp: busy_good_def quiet_def)
  obtain c where c: "fake_PutLedger a ct p m (Client ?s) = (Inl e, c)" "w' = (others_act w)\<lparr>Store := ?s\<lparr>Client := c\<rparr>\<rparr>"
    using put s(2)
    by (auto simp: busy_github_def shared_github_def busy_call_def shared_PutLedger_def interfere_idle Let_def split: prod.splits sum.splits)
  have "head_is (Ledgers (Client ?s) a) (History ?s a)" using s(1) by (simp add: consistent_def)
  then show ?thesis
    using c s(3)
    by (auto simp: fake_PutLedger_def checkPrevSHA_def mintSHA_def Let_def busy_hist_def current_sha_def split: option.splits if_splits)
qed

interpretation quiet_files: answering_files busy_github busy_hist quiet_good
proof (rule answering_files.intro, rule honest_files.intro, rule ledger_files.intro)
  fix w a r w' assume "quiet_good w" "GetLedger busy_github a w = (r, w')"
  then show "quiet_good w' \<and> extends busy_hist w w'" using get_quiet busy_files.get_keeps by blast
next
  fix w a c s w' assume "quiet_good w" "GetLedger busy_github a w = (Inr (c, s), w')"
  then show "\<exists>older. busy_hist w' a = (c, s) # older" using busy_files.get_found by blast
next
  fix w a c p m ur w' assume "quiet_good w" "PutLedger busy_github a c p m w = (ur, w')"
  then show "quiet_good w' \<and> extends busy_hist w w'" using put_quiet busy_files.put_keeps by blast
next
  fix w a p c m u w' assume "quiet_good w" "known_sha (busy_hist w a) p" "PutLedger busy_github a c p m w = (Inr u, w')"
  then show "\<exists>s older. busy_hist w' a = (c, s) # older \<and> suffix (busy_hist w a) older \<and> p = current_sha older"
    using busy_files.put_done by blast
next
  fix w c s a c' assume "quiet_good w" "(c, s) \<in> set (busy_hist w a)" "(c', s) \<in> set (busy_hist w a)"
  then show "c = c'" using busy_files.sha_content by blast
next
  fix w c s a assume "quiet_good w" "(c, s) \<in> set (busy_hist w a)"
  then show "s \<noteq> []" using busy_files.sha_nonempty by blast
next
  show "honest_files_axioms busy_github busy_hist quiet_good"
  proof (unfold_locales)
    show "tame busy_hist quiet_good (GetLedger busy_github a)" for a
      using busy_files.get_tame [of a] get_quiet unfolding tame_def by blast
    show "busy_hist w' a = []" if "quiet_good w" "GetLedger busy_github a w = (Inl e, w')" "errors_is e ErrNotFound" for w a e w'
      using busy_files.get_missing that by blast
    show "may_land a c p (busy_hist w a) (busy_hist w' a) \<and> (\<forall>b. b \<noteq> a \<longrightarrow> (honest_write b)\<^sup>*\<^sup>* (busy_hist w b) (busy_hist w' b))"
      if "quiet_good w" "known_sha (busy_hist w a) p" "PutLedger busy_github a c p m w = (ur, w')" for w a p c m ur w'
      using busy_files.put_honest that by blast
  qed (rule tame_quiet; rule client_calls_quiet busy_files.own_tame busy_files.post_tame busy_files.labels_tame
      busy_files.close_tame busy_files.file_tame busy_files.access_tame)+
next
  show "answering_files_axioms busy_github busy_hist quiet_good"
  proof
    fix w a e w' assume w: "quiet_good w" and get: "GetLedger busy_github a w = (Inl e, w')"
    then show "errors_is e ErrNotFound"
      using others_keep(1) [of w]
      by (auto simp: busy_github_def shared_github_def busy_call_def shared_GetLedger_def lift_client_def fake_GetLedger_def
          Let_def split: prod.splits option.splits)
  next
    fix w a p c m e w' assume w: "quiet_good w" and put: "PutLedger busy_github a c p m w = (Inl e, w')"
    note refused = put_refused [OF w put]
    have "honest busy_hist w (others_act w)" by (rule others_keep(2) [OF quiet_goodD(1) [OF w]])
    then have "honest busy_hist w w'" "(honest_write a)\<^sup>*\<^sup>* (busy_hist w a) (busy_hist (others_act w) a)"
      using refused by (simp_all add: honest_def)
    then show "(p \<noteq> [] \<longrightarrow> errors_is e ErrConflict) \<and> honest busy_hist w w' \<and> overtaken a p (busy_hist w a) (busy_hist w' a)"
      using refused by (auto simp: overtaken_def)
  qed
qed

lemma client_call_up:
  assumes "\<And>c. \<not> isl (fst (f c))"
  shows "busy_call (lift_client f) w = (Inl e, w') \<Longrightarrow> False"
  using assms by (auto simp: busy_call_def lift_client_def Let_def split: prod.splits) (metis fst_conv sum.disc(1))+

interpretation quiet_up: up_files busy_github busy_hist quiet_good
proof
  fix rp p w e w' assume "GetFile busy_github rp p w = (Inl e, w')"
  then show "errors_is e ErrNotFound"
    by (auto simp: busy_github_def shared_github_def busy_call_def lift_client_def fake_GetFile_def Let_def
        split: prod.splits option.splits if_splits)
qed (auto simp: busy_github_def shared_github_def fake_OwnComments_def fake_PostComment_def fake_SetLabels_def fake_CloseIssue_def
      fake_RepoAccessible_def dest: client_call_up [rotated])

section \<open>A tally of the acknowledged writes\<close>

text \<open>
  Any GitHub with a tally beside it, of which its answers are independent. With it the counter of the writes
  of a run is a part of the world.
\<close>

definition tallied :: "('w \<Rightarrow> 'a \<times> 'w) \<Rightarrow> 'w \<times> 'c \<Rightarrow> 'a \<times> 'w \<times> 'c" where
  "tallied f wn = (case f (fst wn) of (r, w') \<Rightarrow> (r, w', snd wn))"

definition tallied_put :: "string \<Rightarrow> ('w \<Rightarrow> unit result \<times> 'w) \<Rightarrow> 'w \<times> (string \<Rightarrow> nat) \<Rightarrow> unit result \<times> 'w \<times> (string \<Rightarrow> nat)" where
  "tallied_put a f wn = (case f (fst wn) of
     (Inl e, w') \<Rightarrow> (Inl e, w', snd wn)
   | (Inr u, w') \<Rightarrow> (Inr u, w', (snd wn)(a := Suc (snd wn a))))"

definition tallied_github :: "'w github \<Rightarrow> ('w \<times> (string \<Rightarrow> nat)) github" where
  "tallied_github gh =
     \<lparr>ListOpenCertRequests = tallied (ListOpenCertRequests gh), ListOpenRevocationRequests = tallied (ListOpenRevocationRequests gh),
      OwnComments = (\<lambda>i. tallied (OwnComments gh i)), PostComment = (\<lambda>i b. tallied (PostComment gh i b)),
      SetLabels = (\<lambda>i ls rs. tallied (SetLabels gh i ls rs)), CloseIssue = (\<lambda>i. tallied (CloseIssue gh i)),
      GetFile = (\<lambda>rp p. tallied (GetFile gh rp p)), RepoAccessible = (\<lambda>rp. tallied (RepoAccessible gh rp)),
      GetLedger = (\<lambda>a. tallied (GetLedger gh a)), PutLedger = (\<lambda>a c p m. tallied_put a (PutLedger gh a c p m)),
      PutFile = (\<lambda>rp p c sha m. tallied (PutFile gh rp p c sha m))\<rparr>"

lemma tallied_run: "tallied f wn = (r, wn') \<longleftrightarrow> f (fst wn) = (r, fst wn') \<and> snd wn' = snd wn"
  by (cases wn'; cases "f (fst wn)") (auto simp: tallied_def)

lemma tallied_put_run:
  "tallied_put a f wn = (r, wn') \<longleftrightarrow> f (fst wn) = (r, fst wn') \<and>
     snd wn' = (if isl r then snd wn else (snd wn)(a := Suc (snd wn a)))"
  by (cases wn'; cases "f (fst wn)"; cases "fst (f (fst wn))") (auto simp: tallied_put_def)

lemma tallied_tame: "tame hist good f \<Longrightarrow> tame (\<lambda>wn. hist (fst wn)) (\<lambda>wn. good (fst wn)) (tallied f)"
  unfolding tame_def tallied_run honest_def by blast

lemma tallied_count: "tame hist good f \<Longrightarrow> preserves (counting (\<lambda>wn. good (fst wn)) snd k) (tallied f)"
  unfolding tame_def by (rule preservesI) (auto simp: tallied_run counting_def)

lemma tallied_simps:
  "OwnComments (tallied_github gh) i = tallied (OwnComments gh i)" "PostComment (tallied_github gh) i b = tallied (PostComment gh i b)"
  "SetLabels (tallied_github gh) i ls rs = tallied (SetLabels gh i ls rs)" "CloseIssue (tallied_github gh) i = tallied (CloseIssue gh i)"
  "GetFile (tallied_github gh) rp p = tallied (GetFile gh rp p)" "RepoAccessible (tallied_github gh) rp = tallied (RepoAccessible gh rp)"
  "GetLedger (tallied_github gh) a = tallied (GetLedger gh a)" "PutLedger (tallied_github gh) a c p m = tallied_put a (PutLedger gh a c p m)"
  by (simp_all add: tallied_github_def)

lemmas tallied_runs = tallied_simps tallied_run tallied_put_run

lemma tallied_worlds:
  "extends (\<lambda>wn. hist (fst wn)) wn wn' = extends hist (fst wn) (fst wn')" "honest (\<lambda>wn. hist (fst wn)) wn wn' = honest hist (fst wn) (fst wn')"
  by (simp_all add: extends_def honest_def)

context up_files begin

lemma tallied_files: "ledger_files (tallied_github gh) (\<lambda>wn. hist (fst wn)) (\<lambda>wn. good (fst wn))"
  by unfold_locales
     (auto simp: tallied_runs tallied_worlds dest: get_keeps get_found put_keeps put_done sha_content sha_nonempty)

lemma tallied_honest: "honest_files (tallied_github gh) (\<lambda>wn. hist (fst wn)) (\<lambda>wn. good (fst wn))"
proof (rule honest_files.intro [OF tallied_files], unfold_locales)
  fix wn a e wn' assume "good (fst wn)" "GetLedger (tallied_github gh) a wn = (Inl e, wn')" "errors_is e ErrNotFound"
  then show "hist (fst wn') a = []" using get_missing by (simp add: tallied_runs)
next
  fix wn a p c m ur wn'
  assume "good (fst wn)" "known_sha (hist (fst wn) a) p" "PutLedger (tallied_github gh) a c p m wn = (ur, wn')"
  then show "may_land a c p (hist (fst wn) a) (hist (fst wn') a) \<and>
      (\<forall>b. b \<noteq> a \<longrightarrow> (honest_write b)\<^sup>*\<^sup>* (hist (fst wn) b) (hist (fst wn') b))"
    using put_honest unfolding tallied_runs by blast
qed (unfold tallied_simps, (rule tallied_tame, rule own_tame post_tame labels_tame close_tame file_tame access_tame get_tame)+)

lemma tallied_answers: "answering_files (tallied_github gh) (\<lambda>wn. hist (fst wn)) (\<lambda>wn. good (fst wn))"
  by (rule answering_files.intro [OF tallied_honest], unfold_locales)
     (auto simp: tallied_runs tallied_worlds dest: get_answers put_answers)

lemma tallied_counted:
  assumes grows: "\<And>w a c p m u w'. good w \<Longrightarrow> PutLedger gh a c p m w = (Inr u, w') \<Longrightarrow> length (hist w a) < length (hist w' a)"
  shows "counted_up (tallied_github gh) (\<lambda>wn. hist (fst wn)) (\<lambda>wn. good (fst wn)) snd"
proof (rule counted_up.intro)
  show "up_files (tallied_github gh) (\<lambda>wn. hist (fst wn)) (\<lambda>wn. good (fst wn))"
    by (rule up_files.intro [OF tallied_answers], unfold_locales)
       (auto simp: tallied_runs dest: own_up post_up labels_up close_up access_up file_up)
  show "counted_files (tallied_github gh) (\<lambda>wn. hist (fst wn)) (\<lambda>wn. good (fst wn)) snd"
  proof (rule counted_files.intro [OF tallied_answers], rule counted_files_axioms.intro)
    show "ledger_view (tallied_github gh) (counting (\<lambda>wn. good (fst wn)) snd k)" for k
      by (rule ledger_view.intro; unfold tallied_simps; rule tallied_count)
         (rule own_tame post_tame labels_tame close_tame file_tame access_tame get_tame)+
    fix wn a c p m ur wn' assume g: "good (fst wn)" and "PutLedger (tallied_github gh) a c p m wn = (ur, wn')"
    then have put: "PutLedger gh a c p m (fst wn) = (ur, fst wn')"
      and tally: "snd wn' = (if isl ur then snd wn else (snd wn)(a := Suc (snd wn a)))"
      by (simp_all add: tallied_runs)
    have "length (hist (fst wn) b) \<le> length (hist (fst wn') b)" for b
      using put_keeps [OF g put] by (simp add: extends_def suffix_length_le)
    moreover have "length (hist (fst wn) a) < length (hist (fst wn') a)" if "\<not> isl ur"
      using grows [OF g, of a c p m] put that by (cases ur) auto
    ultimately show "(\<forall>b. snd wn' b + length (hist (fst wn) b) \<le> snd wn b + length (hist (fst wn') b)) \<and> (isl ur \<longrightarrow> snd wn' = snd wn)"
      using tally by (auto simp: Suc_le_eq)
  qed
qed

end

lemma busy_grows:
  assumes "quiet_good w" "PutLedger busy_github a c p m w = (Inr u, w')"
  shows "length (busy_hist w a) < length (busy_hist w' a)"
proof -
  have w: "busy_good w" by (rule quiet_goodD(1) [OF assms(1)])
  have "suffix (busy_hist w a) (busy_hist (others_act w) a)" using others_suffix [OF w] by (simp add: extends_def)
  then have "length (busy_hist w a) \<le> length (busy_hist (others_act w) a)" by (rule suffix_length_le)
  moreover obtain sha where "busy_hist w' a = (c, sha) # busy_hist (others_act w) a" using busy_put [OF w assms(2)] by auto
  ultimately show ?thesis by simp
qed

interpretation tallied_up: counted_up "tallied_github busy_github" "\<lambda>wn. busy_hist (fst wn)" "\<lambda>wn. quiet_good (fst wn)" snd
  by (rule quiet_up.tallied_counted) (rule busy_grows)

interpretation tallied_begun: begun_files "tallied_github busy_github" "\<lambda>wn. busy_hist (fst wn)"
    "since (\<lambda>wn. busy_hist (fst wn)) snd (\<lambda>wn. quiet_good (fst wn)) start" snd start for start
  by (rule tallied_up.begun)

end
