(* ===== verification/LateDates.thy ===== *)
theory LateDates imports StoredLedger Enroll RevokeSafety Crl begin

text \<open>
  A date of the operator that no ledger file can hold. RFC 3339 has years of four digits, but with an
  offset the last hours of the year 9999 are in the year 10000 of UTC.
\<close>

lemma flip_does_not_fit:
  assumes "idx < length (certs l)" "\<not> year_ok (RevFrom rv)"
  shows "\<not> dates_fit (flip_at idx rv l)"
proof -
  have "certs (flip_at idx rv l) ! idx \<in> set (certs (flip_at idx rv l))"
    using assms(1) by (simp add: certs_flip set_update_memI)
  moreover have "\<not> cert_dates_fit (certs (flip_at idx rv l) ! idx)"
    using assms by (simp add: certs_flip flip_cert_def cert_dates_fit_def)
  ultimately show ?thesis by (auto simp: dates_fit_def list_all_iff)
qed

text \<open>A file that the parser refuses stops the load of the whole directory.\<close>

lemma load_paths_refused:
  assumes "\<And>v. fst (ReadFile os p v) = Inr data" "Ledger.Parse data = Inl e"
  shows "p \<in> set ps \<Longrightarrow> isl (fst (load_paths os ps ls v))"
proof (induction ps arbitrary: ls v)
  case (Cons q ps)
  obtain r v1 where r: "ReadFile os q v = (r, v1)" by (metis surj_pair)
  show ?case
  proof (cases "Load (\<lambda>path. r) q")
    case (Inr l)
    have "r = Inr data" if "q = p" using assms(1) [of v] r that by simp
    then have "q \<noteq> p" using assms(2) Inr by (auto simp: Load_def)
    then have "p \<in> set ps" using Cons.prems by auto
    then show ?thesis using Cons.IH r Inr by simp
  qed (simp add: r)
qed simp

section \<open>Property\<close>

text \<open>C17: A date of the operator past the year 9999 of UTC locks the appId: \<open>privrevoke\<close> accepts the
  date, which RFC 3339 can write with an offset, and writes it; from then on the ledger is refused
  by the issuer, by both revocations, and by \<open>crlgen\<close>, which lists no certificate of any ledger as
  long as that file is among those it reads.\<close>
theorem late_date_locks_the_app:
  assumes "findBySerial (Some l) serial = Some idx" and "NotBefore (certs l ! idx) \<le> t" and "\<not> year_ok t"
    and "Marshal (flip_at idx \<lparr>RevReason = reason, RevFrom = t, RevActor = actor\<rparr> l) = Inr data"
    and "GetLedger gh a w = (Inr (data, sha), w1)" and "GH d = gh"
    and "p \<in> set ps" and "\<And>v. fst (ReadFile os p v) = Inr data"
  shows "resolve_from (Some t) (NotBefore (certs l ! idx)) = Inr t \<and> isl (fst (Enroll.loadLedger d a w)) \<and>
    isl (fst (Revoke.loadLedger gh a w)) \<and> isl (fst (load_paths os ps [] v))"
proof -
  have "idx < length (certs l)" using assms(1) by (simp add: findBySerial_def find_index_Some)
  then obtain e where e: "Ledger.Parse data = Inl e"
    using Parse_late [OF flip_does_not_fit assms(4)] assms(3) by auto
  show ?thesis
  proof (intro conjI)
    show "isl (fst (load_paths os ps [] v))" by (rule load_paths_refused [OF assms(8) e assms(7)])
  qed (use assms(2,5,6) e in \<open>simp_all add: resolve_from_def Enroll.loadLedger_def Revoke.loadLedger_def\<close>)
qed

end
