(* ===== verification/WitnessesStore.thy ===== *)
theory WitnessesStore imports WitnessesServices Deployment BusyProgress LateDates begin

text \<open>
  Concrete worlds for the properties of the pipelines among other writers: a small server that keeps
  the promises of the Contents API, and a GitHub on which somebody else revokes at every call.
\<close>

section \<open>A server\<close>

type_synonym server = "string \<Rightarrow> version list"

fun numbered :: "version list \<Rightarrow> bool" where
  "numbered [] = True"
| "numbered ((c, s) # vs) = (s = sha_name (Suc (length vs)) \<and> numbered vs)"

definition reply :: "int \<Rightarrow> string \<Rightarrow> go_error + http_response" where
  "reply code body = Inr \<lparr>StatusCode = code, StatusText = show_int code, RespBody = body\<rparr>"

definition serve_put :: "string \<Rightarrow> string \<Rightarrow> server \<Rightarrow> (go_error + http_response) \<times> server" where
  "serve_put u text w =
     (case Option.bind (parse_whole text) decode_contents of
        None \<Rightarrow> (reply 400 [], w)
      | Some r \<Rightarrow>
          (case b64_decode (RespContent r) of
             None \<Rightarrow> (reply 422 [], w)
           | Some ct \<Rightarrow>
               if RespSHA r = current_sha (w u)
               then (reply 201 [], w(u := (ct, sha_name (Suc (length (w u)))) # w u))
               else (reply (if RespSHA r = [] then 422 else 409) [], w)))"

text \<open>The one issue that is open.\<close>

definition ex_open :: json where
  "ex_open = JObj [(''number'', JNum ''1''), (''body'', JStr ''please''), (''user'', JObj [(''login'', JStr ''dev''), (''id'', JNum ''7'')])]"

definition serve :: "http_request \<Rightarrow> (server, http_response) io" where
  "serve rq w =
     (if ReqMethod rq = ''GET'' then
        (if suffix ''/comments?per_page=100'' (ReqUrl rq) then (reply 200 (compact_json (JArr [])), w)
         else if suffix ''&per_page=100'' (ReqUrl rq) then (reply 200 (compact_json (JArr [ex_open])), w)
         else case w (ReqUrl rq) of
           [] \<Rightarrow> (reply 404 [], w)
         | (ct, s) # older \<Rightarrow> (reply 200 (compact_json (put_body ct s [])), w))
      else if ReqMethod rq = ''PUT'' then
        (case ReqBody rq of None \<Rightarrow> (reply 400 [], w) | Some text \<Rightarrow> serve_put (ReqUrl rq) text w)
      else (reply 200 [], w))"

definition ex_server :: "server http_lib" where
  "ex_server = \<lparr>BadUrl = (\<lambda>u. None), RoundTrip = serve\<rparr>"

definition ex_good :: "server \<Rightarrow> bool" where
  "ex_good w \<longleftrightarrow> (\<forall>u. numbered (w u))"

definition ex_hist :: "server \<Rightarrow> string \<Rightarrow> version list" where
  "ex_hist w a = w (ledger_url ex_rest a)"

lemma ledger_url_last: "last (ledger_url c a) = CHR ''n''"
  by (simp add: ledger_url_def contents_path_def ledger_path_def trim_prefix_def)

lemma ledger_not_paged [simp]:
  "\<not> suffix ''/comments?per_page=100'' (ledger_url c a)" "\<not> suffix ''&per_page=100'' (ledger_url c a)"
  using ledger_url_last [of c a] by (auto simp: suffix_def)

lemma success_reply [simp]: "success \<lparr>StatusCode = code, StatusText = t, RespBody = b\<rparr> \<longleftrightarrow> 200 \<le> code \<and> code < 300"
  by (simp add: success_def)

lemma numbered_sha: "numbered vs \<Longrightarrow> (c, s) \<in> set vs \<Longrightarrow> \<exists>k. 0 < k \<and> k \<le> length vs \<and> s = sha_name k"
  by (induction vs) (auto intro: le_SucI)

lemma numbered_content: "numbered vs \<Longrightarrow> (c, s) \<in> set vs \<Longrightarrow> (c', s) \<in> set vs \<Longrightarrow> c = c'"
proof (induction vs)
  case (Cons v vs)
  then show ?case using numbered_sha [of vs] by (cases v) fastforce
qed simp

lemma utf8_sha_name: "utf8_valid (sha_name k)"
proof (rule utf8_valid_ascii)
  show "list_all is_ascii (sha_name k)"
    using digits_ascii [OF show_nat_digits [of k]] by (simp add: sha_name_def is_ascii_def)
qed

lemma numbered_shas: "numbered vs \<Longrightarrow> shas_ok vs"
  using numbered_sha numbered_content by (fastforce simp: shas_ok_def utf8_sha_name)

text \<open>A write either adds the version that it asks for on top of the one it names, or changes nothing.\<close>

lemma serve_put_cases:
  assumes "serve_put u text w = (r, w')"
  shows "(\<exists>resp. r = Inr resp \<and> \<not> success resp) \<and> w' = w \<or>
    (\<exists>d ct. Option.bind (parse_whole text) decode_contents = Some d \<and> b64_decode (RespContent d) = Some ct \<and>
       RespSHA d = current_sha (w u) \<and> w' = w(u := (ct, sha_name (Suc (length (w u)))) # w u) \<and> (\<exists>resp. r = Inr resp))"
  using assms by (auto simp: serve_put_def reply_def split: option.splits if_splits)

lemma serve_cases:
  assumes "serve rq w = (r, w')"
  shows "w' = w \<and> (\<exists>resp. r = Inr resp \<and> (ReqMethod rq = ''PUT'' \<longrightarrow> \<not> success resp)) \<or>
    ReqMethod rq = ''PUT'' \<and>
    (\<exists>text d ct resp. ReqBody rq = Some text \<and> Option.bind (parse_whole text) decode_contents = Some d \<and> b64_decode (RespContent d) = Some ct \<and>
       RespSHA d = current_sha (w (ReqUrl rq)) \<and>
       w' = w(ReqUrl rq := (ct, sha_name (Suc (length (w (ReqUrl rq))))) # w (ReqUrl rq)) \<and> r = Inr resp)"
  using assms
  by (auto simp: serve_def reply_def split: if_splits option.splits list.splits dest!: serve_put_cases)

lemma ledger_url_inject [simp]: "ledger_url ex_rest a = ledger_url ex_rest b \<longleftrightarrow> a = b"
  by (simp add: ledger_url_def contents_path_def ledger_path_def trim_prefix_def)

lemma serve_keeps: "ex_good w \<Longrightarrow> serve rq w = (r, w') \<Longrightarrow> ex_good w' \<and> extends ex_hist w w'"
  by (drule serve_cases) (auto simp: ex_good_def extends_def ex_hist_def suffix_ConsI)

lemma serve_get:
  assumes w: "ex_good w" and run: "serve rq w = (Inr resp, w')" "ReqMethod rq = ''GET''" "ReqUrl rq = ledger_url ex_rest a"
  shows "(success resp \<longrightarrow> answers_read resp (ex_hist w' a)) \<and> (StatusCode resp = 404 \<longrightarrow> ex_hist w' a = [])"
proof (cases "w (ReqUrl rq)")
  case Nil
  then show ?thesis using run by (auto simp: serve_def reply_def ex_hist_def)
next
  case (Cons v older)
  obtain ct s where v: "v = (ct, s)" by (cases v)
  have "numbered ((ct, s) # older)" using w Cons v unfolding ex_good_def by metis
  then have "to_valid s = s" by (simp add: to_valid_id utf8_sha_name)
  moreover have "filter (\<lambda>ch. ch \<noteq> CHR 0x0A) (b64_encode ct) = b64_encode ct"
    using b64_encode_bytes [of ct] by (auto simp: list_all_iff b64_byte_neq intro!: filter_True)
  ultimately show ?thesis
    using run Cons v parse_put_body [of ct s "[]"] decode_put_body [of ct s "[]"]
    by (auto simp: serve_def reply_def ex_hist_def answers_read_def)
qed

lemma serve_write:
  assumes "serve rq w = (r, w')" "ReqMethod rq = ''PUT''" "ReqUrl rq = ledger_url ex_rest a" "asks_write rq ct p"
  shows "w' = w \<and> (\<exists>resp. r = Inr resp \<and> \<not> success resp) \<or>
    p = current_sha (ex_hist w a) \<and> w' = w(ledger_url ex_rest a := (ct, sha_name (Suc (length (ex_hist w a)))) # ex_hist w a)"
  using serve_cases [OF assms(1)] assms(2-4) by (auto simp: asks_write_def ex_hist_def)

lemma ex_contents_api: "contents_api ex_server ex_rest ex_hist ex_good"
  unfolding contents_api_def
proof (intro conjI allI impI)
  show "shas_ok (ex_hist w a)" if "ex_good w" for w a
    using that numbered_shas by (simp add: ex_good_def ex_hist_def)
  show "\<exists>s older. ex_hist w' a = (ct, s) # older \<and> suffix (ex_hist w a) older \<and> p = current_sha older"
    if "RoundTrip ex_server rq w = (Inr resp, w')" "success resp" "ReqMethod rq = ''PUT''"
      "ReqUrl rq = ledger_url ex_rest a" "asks_write rq ct p" for w rq a ct p resp w'
    using that serve_write [of rq w "Inr resp" w' a ct p] by (auto simp: ex_server_def ex_hist_def)
qed (use serve_keeps serve_get in \<open>fastforce simp: ex_server_def\<close>)+

lemma ex_honest_api: "honest_api ex_server ex_rest ex_hist ex_good"
  unfolding honest_api_def
proof (intro conjI allI impI)
  show "honest ex_hist w w'" if "RoundTrip ex_server rq w = (r, w')" "ReqMethod rq \<noteq> ''PUT'' \<or> ReqUrl rq \<notin> range (ledger_url ex_rest)" for w rq r w'
  proof -
    have "ex_hist w' = ex_hist w"
      using that serve_cases [of rq w r w'] by (auto simp: ex_server_def ex_hist_def fun_eq_iff) (metis rangeI)
    then show ?thesis by (simp add: honest_def)
  qed
  fix w rq a ct p r w'
  assume w: "RoundTrip ex_server rq w = (r, w')" "ReqMethod rq = ''PUT''" "ReqUrl rq = ledger_url ex_rest a" "asks_write rq ct p"
  have d: "w' = w \<or> (\<exists>s. p = current_sha (ex_hist w a) \<and> w' = w(ledger_url ex_rest a := (ct, s) # ex_hist w a))"
    using serve_write [of rq w r w' a ct p] w by (auto simp: ex_server_def)
  then show "may_land a ct p (ex_hist w a) (ex_hist w' a)"
    unfolding may_land_def by (intro exI [of _ "ex_hist w a"]) (auto simp: ex_hist_def)
  show "(honest_write b)\<^sup>*\<^sup>* (ex_hist w b) (ex_hist w' b)" if "b \<noteq> a" for b
    using d that by (auto simp: ex_hist_def)
next
  show "ex_hist w' a = []" if "ex_good w" "RoundTrip ex_server rq w = (Inr resp, w')" "StatusCode resp = 404"
    "ReqMethod rq = ''GET''" "ReqUrl rq = ledger_url ex_rest a" for w rq a resp w'
    using that serve_get [of w rq resp w' a] by (simp add: ex_server_def)
  show "\<not> errors_is e ErrNotFound" if "RoundTrip ex_server rq w = (Inl e, w')" for w rq e w'
    using that serve_cases [of rq w "Inl e" w'] by (auto simp: ex_server_def)
qed (simp_all add: ex_contents_api, simp add: ex_server_def)

section \<open>The production client\<close>

lemma ex_rest_put:
  assumes "utf8_valid s" "s = current_sha (w (ledger_url ex_rest a))"
  shows "rest_PutLedger ex_server ex_rest a ct s m w =
    (Inr (), w(ledger_url ex_rest a := (ct, sha_name (Suc (length (w (ledger_url ex_rest a))))) # w (ledger_url ex_rest a)))"
  using parse_put_body [of ct s m] decode_put_body [of ct s "to_valid m"] assms
  by (simp add: rest_PutLedger_def putContents_def do_request_def ex_server_def serve_def serve_put_def reply_def
      b64_decode_encode status_error_def decode_into_def ledger_url_path to_valid_id)

lemma ex_rest_get:
  assumes "utf8_valid s" "w (ledger_url ex_rest a) = (ct, s) # older"
  shows "rest_GetLedger ex_server ex_rest a w = (Inr (ct, s), w)"
proof -
  have "filter (\<lambda>ch. ch \<noteq> CHR 0x0A) (b64_encode ct) = b64_encode ct"
    using b64_encode_bytes [of ct] by (auto simp: list_all_iff b64_byte_neq intro!: filter_True)
  moreover have "compact_json (put_body ct s []) \<noteq> []"
    using parse_put_body [of ct s "[]"] by (auto simp: parse_whole_Nil)
  ultimately show ?thesis
    using parse_put_body [of ct s "[]"] decode_put_body [of ct s "[]"] assms
    by (simp add: rest_GetLedger_def getContents_def do_request_def ex_server_def serve_def reply_def
        b64_decode_encode status_error_def decode_into_def ledger_url_path to_valid_id)
qed

theorem production_loses_no_update_witness:
  "\<exists>w' data s. commit_loop (ex_deps (rest_github ex_server ex_rest)) ''acme'' ''o/app'' ex_entry 0 (Suc 4) None None [] (\<lambda>u. []) = (Inr (), w') \<and>
     ex_hist w' ''acme'' = [(data, s)] \<and> Marshal (next_ledger ''acme'' ''o/app'' 0 ex_entry None) = Inr data"
proof -
  note gh = ex_deps_GH [of "rest_github ex_server ex_rest"]
  obtain data where data: "Marshal (next_ledger ''acme'' ''o/app'' 0 ex_entry None) = Inr data" by (simp add: Marshal_def)
  let ?w' = "(\<lambda>u. [])(ledger_url ex_rest ''acme'' := [(data, sha_name 1)])"
  have run: "commit_loop (ex_deps (rest_github ex_server ex_rest)) ''acme'' ''o/app'' ex_entry 0 (Suc 4) None None [] (\<lambda>u. []) = (Inr (), ?w')"
    unfolding commit_loop.simps(2) data by (simp add: gh ex_rest_put current_sha_def)
  have "ex_good (\<lambda>u. [])" "was_read (ex_hist (\<lambda>u. []) ''acme'') None []" by (simp_all add: ex_good_def was_read_def)
  from production_loses_no_update [OF ex_contents_api this gh, where repo = "''o/app''" and entry = ex_entry and now = 0 and
      n = "Suc 4" and lc = None, THEN conjunct1]
  obtain data' s older ex' where h: "ex_hist ?w' ''acme'' = (data', s) # older" "latest older ex'"
    "Marshal (next_ledger ''acme'' ''o/app'' 0 ex_entry ex') = Inr data'"
    unfolding run by auto
  then have "older = []" by (simp add: ex_hist_def)
  then show ?thesis using run h by (auto simp: latest_def)
qed

definition ex_operator :: privileged_request where
  "ex_operator = \<lparr>PrivAppID = ''acme'', PrivSerial = ''0x1f'', PrivReason = ''lost key'', PrivRevokedFrom = None, PrivActor = ''op''\<rparr>"

lemma ex_operator_ok: "operator_ok ex_operator"
  by (simp add: operator_ok_def ex_operator_def)

definition ex_filed :: server where
  "ex_filed = (\<lambda>u. if u = ledger_url ex_rest ''acme'' then [(ex_text, sha_name 1)] else [])"

lemma ex_well_formed: "well_formed ''acme'' ex_ledger"
  using ex_ledger_ok by (simp add: well_formed_def) (simp add: ex_ledger_def)

lemma ex_text_sound: "sound ''acme'' [(ex_text, s)]"
  using Parse_ex ex_well_formed by (simp add: sound_def)

text \<open>The workflow of the operator runs: it reads the ledger, writes the revocation and ends with status 0.\<close>

text \<open>Its environment, with the date that the operator gives, if any.\<close>

definition ex_env :: "string \<Rightarrow> server os_lib" where
  "ex_env from =
     \<lparr>CreateTemp = (\<lambda>p w. (Inl (Errorf []), w)), RemoveFile = (\<lambda>p w. w), RunCommand = (\<lambda>c s w. ((RunOk, [], []), w)),
      ReadFile = (\<lambda>p w. (Inl (Errorf []), w)), WriteFile = (\<lambda>p d w. (Inl (Errorf []), w)), MkdirAll = (\<lambda>p w. (Inr (), w)),
      Getenv = (\<lambda>n. case map_of [(''GITHUB_TOKEN'', ''t''), (''ISSUER_BOT_LOGIN'', ''bot''), (''GITHUB_REPOSITORY'', ''o/r''),
        (''APP_ID'', ''acme''), (''SERIAL'', ''0x1f''), (''REASON'', ''lost key''), (''ACTOR'', ''op''),
        (''REVOKED_FROM'', from)] n of None \<Rightarrow> [] | Some v \<Rightarrow> v)\<rparr>"

lemma ex_env_inputs:
  "RestClient.New (revoker_config_of (ex_env from)) = Inr ex_rest" "Getenv (ex_env from) ''GITHUB_REPOSITORY'' = ''o/r''"
  "request_of (ex_env []) = Inr ex_operator"
  "from \<noteq> [] \<Longrightarrow> parse_rfc3339 from = Some t \<Longrightarrow> request_of (ex_env from) = Inr (ex_operator\<lparr>PrivRevokedFrom := Some t\<rparr>)"
  by (simp_all add: ex_env_def revoker_config_of_def RestClient.New_def ex_rest_def defaultAPIBase_def trim_right_byte_def
      request_of_def ex_operator_def)

lemma ex_client_for: "ledger_url ex_rest = ledger_url (client_for ''o/r'')"
  by (simp add: fun_eq_iff ledger_url_def ex_rest_def client_for_def)

definition ex_revoked :: "time \<Rightarrow> revocation" where
  "ex_revoked t = \<lparr>RevReason = ''lost key'', RevFrom = t, RevActor = ''op''\<rparr>"

lemma ex_found: "findBySerial (Some ex_ledger) ''0x1f'' = Some 0" "NotBefore (certs ex_ledger ! 0) = 0"
  by (simp_all add: findBySerial_def ex_ledger_def certs_def ex_entry_def)

lemma ex_privrevoke:
  assumes req: "request_of (ex_env from) = Inr (ex_operator\<lparr>PrivRevokedFrom := dt\<rparr>)" and t: "resolve_from dt 0 = Inr t"
    and m: "Marshal (flip_at 0 (ex_revoked t) ex_ledger) = Inr data"
  shows "privrevoke_main ex_server (ex_env from) (\<lambda>w. (0, w)) ex_filed =
    (0, ex_filed(ledger_url ex_rest ''acme'' := [(data, sha_name 2), (ex_text, sha_name 1)]))"
proof -
  have at: "ex_filed (ledger_url ex_rest ''acme'') = [(ex_text, sha_name 1)]" by (simp add: ex_filed_def)
  have get: "Revoke.loadLedger (rest_github ex_server ex_rest) ''acme'' ex_filed = (Inr (Some ex_ledger, sha_name 1), ex_filed)"
    by (simp add: Revoke.loadLedger_def ex_rest_get [where w = ex_filed, OF utf8_sha_name at] Parse_ex)
  have put: "rest_PutLedger ex_server ex_rest ''acme'' data (sha_name 1) msg ex_filed =
      (Inr (), ex_filed(ledger_url ex_rest ''acme'' := [(data, sha_name 2), (ex_text, sha_name 1)]))" for msg
    using ex_rest_put [OF utf8_sha_name, of 1 ex_filed "''acme''" data msg]
    by (simp add: at current_sha_def numeral_2_eq_2)
  have "check_request (ex_operator\<lparr>PrivRevokedFrom := dt\<rparr>) = check_request ex_operator"
    by (cases "Valid (PrivAppID ex_operator)") (simp_all add: check_request_def ValidateStrict_def)
  moreover have "check_request ex_operator = None" "trim_space ''0x1f'' = ''0x1f''" by code_simp+
  ultimately have "PrivilegedProcess \<lparr>PrivGH = rest_github ex_server ex_rest, PrivClock = (\<lambda>w. (0, w))\<rparr> (ex_operator\<lparr>PrivRevokedFrom := dt\<rparr>) ex_filed =
      (Inr (), ex_filed(ledger_url ex_rest ''acme'' := [(data, sha_name 2), (ex_text, sha_name 1)]))"
    using get ex_found t m put
    by (simp add: PrivilegedProcess_def ex_operator_def applyRevocation_def maxLedgerRetries_def numeral_eq_Suc
        ex_revoked_def Let_def)
  then show ?thesis by (simp add: privrevoke_main_def privrevoke_run_def ex_env_inputs(1) req)
qed

theorem deployment_keeps_the_registry_witness:
  "\<exists>data w'. privrevoke_main ex_server (ex_env []) (\<lambda>w. (0, w)) ex_filed = (0, w') \<and>
     Marshal (flip_at 0 (ex_revoked 0) ex_ledger) = Inr data \<and>
     ex_hist w' ''acme'' = [(data, sha_name 2), (ex_text, sha_name 1)] \<and> kept_honest ex_hist ex_filed w'"
proof -
  obtain data where m: "Marshal (flip_at 0 (ex_revoked 0) ex_ledger) = Inr data" by (simp add: Marshal_def)
  have "request_of (ex_env []) = Inr (ex_operator\<lparr>PrivRevokedFrom := None\<rparr>)" by (simp add: ex_env_inputs(3)) (simp add: ex_operator_def)
  note run = ex_privrevoke [OF this _ m, unfolded resolve_from_def option.case, OF refl]
  let ?w' = "ex_filed(ledger_url ex_rest ''acme'' := [(data, sha_name 2), (ex_text, sha_name 1)])"
  have d: "deployed ex_server ''o/r'' ex_hist ex_good ex_filed ?w'"
    by (rule deployed.operator [OF ex_env_inputs(2) _ run]) (simp add: ex_env_inputs(3) ex_operator_ok)
  have api: "honest_api ex_server (client_for ''o/r'') ex_hist ex_good"
    using ex_honest_api honest_api_url [OF ex_client_for, of ex_server ex_hist ex_good] by simp
  have "ex_good ex_filed" "all_sound ex_hist ex_filed"
    using ex_text_sound by (auto simp: ex_good_def ex_filed_def all_sound_def ex_hist_def) (simp add: sound_def)
  moreover have "(deployed ex_server ''o/r'' ex_hist ex_good)\<^sup>*\<^sup>* ex_filed ?w'" using d by blast
  ultimately have "kept_honest ex_hist ex_filed ?w'" using deployment_keeps_the_registry [OF api] by blast
  then show ?thesis using run m by (intro exI conjI) (assumption | simp add: ex_hist_def)+
qed

text \<open>A date of the last hour of 9999, west of Greenwich.\<close>

definition ex_late :: string where
  "ex_late = ''9999-12-31T23:59:59-01:00''"

lemma ex_late_date:
  "parse_rfc3339 ex_late = Some (time_of 9999 12 31 23 59 3659 0)"
  "0 \<le> time_of 9999 12 31 23 59 3659 0" "\<not> year_ok (time_of 9999 12 31 23 59 3659 0)"
proof -
  note date = time_of_def days_of_date_def days_before_year_def days_before_month_def month_lengths_def is_leap_def
    epoch_days_def nanosecond_per_second_def
  show "parse_rfc3339 ex_late = Some (time_of 9999 12 31 23 59 3659 0)"
    by (simp add: parse_rfc3339_def ex_late_def is_digit_def digit_val_def get_zone_def days_in_def month_lengths_def)
  show "0 \<le> time_of 9999 12 31 23 59 3659 0" by (simp add: date)
  show "\<not> year_ok (time_of 9999 12 31 23 59 3659 0)"
    by (simp add: year_ok_def year_of_def year_of_days_def time_unix_def date Let_def year_from.simps)
qed

theorem late_date_locks_the_app_witness:
  "\<exists>data w'. privrevoke_main ex_server (ex_env ex_late) (\<lambda>w. (0, w)) ex_filed = (0, w') \<and>
     ex_hist w' ''acme'' = [(data, sha_name 2), (ex_text, sha_name 1)] \<and>
     isl (fst (Enroll.loadLedger (ex_deps (rest_github ex_server ex_rest)) ''acme'' w')) \<and>
     isl (fst (load_paths (ex_env []\<lparr>ReadFile := (\<lambda>p w. (Inr data, w))\<rparr>) [''ledger/acme.json''] [] w'))"
proof -
  obtain t where t: "parse_rfc3339 ex_late = Some t" "0 \<le> t" "\<not> year_ok t" using ex_late_date by blast
  obtain data where m: "Marshal (flip_at 0 (ex_revoked t) ex_ledger) = Inr data" by (simp add: Marshal_def)
  have req: "request_of (ex_env ex_late) = Inr (ex_operator\<lparr>PrivRevokedFrom := Some t\<rparr>)"
    by (rule ex_env_inputs(4) [OF _ t(1)]) (simp add: ex_late_def)
  let ?w' = "ex_filed(ledger_url ex_rest ''acme'' := [(data, sha_name 2), (ex_text, sha_name 1)])"
  have get: "GetLedger (rest_github ex_server ex_rest) ''acme'' ?w' = (Inr (data, sha_name 2), ?w')"
    using ex_rest_get [where w = ?w' and a = "''acme''", OF utf8_sha_name] by simp
  have nb: "NotBefore (certs ex_ledger ! 0) \<le> t" using t(2) by (simp add: ex_found)
  let ?os = "ex_env []\<lparr>ReadFile := (\<lambda>p w. (Inr data, w))\<rparr>"
  have locked: "resolve_from (Some t) (NotBefore (certs ex_ledger ! 0)) = Inr t \<and>
      isl (fst (Enroll.loadLedger (ex_deps (rest_github ex_server ex_rest)) ''acme'' ?w')) \<and>
      isl (fst (Revoke.loadLedger (rest_github ex_server ex_rest) ''acme'' ?w')) \<and>
      isl (fst (load_paths ?os [''ledger/acme.json''] [] ?w'))"
    by (rule late_date_locks_the_app [OF ex_found(1) nb t(3) m [unfolded ex_revoked_def] get ex_deps_GH, of "''ledger/acme.json''"])
       simp_all
  then have "privrevoke_main ex_server (ex_env ex_late) (\<lambda>w. (0, w)) ex_filed = (0, ?w')"
    using ex_privrevoke [OF req _ m] by (simp add: ex_found(2))
  moreover have "ex_hist ?w' ''acme'' = [(data, sha_name 2), (ex_text, sha_name 1)]" by (simp add: ex_hist_def)
  ultimately show ?thesis using locked by blast
qed

section \<open>An API that is up\<close>

lemma serve_put_refused:
  assumes "serve rq w = (r, w')" "ReqMethod rq = ''PUT''" "asks_write rq ct p"
  shows "r = reply 201 [] \<or> w' = w \<and> p \<noteq> current_sha (w (ReqUrl rq)) \<and> r = reply (if p = [] then 422 else 409) []"
  using assms by (auto simp: serve_def serve_put_def asks_write_def split: if_splits)

lemma ex_answering_api: "answering_api ex_server ex_rest ex_hist ex_good"
  unfolding answering_api_def
proof (intro conjI allI impI)
  fix w rq a ct p r w'
  assume "RoundTrip ex_server rq w = (r, w')" "ReqMethod rq = ''PUT''" "ReqUrl rq = ledger_url ex_rest a" "asks_write rq ct p"
  then have "r = reply 201 [] \<or> w' = w \<and> p \<noteq> current_sha (ex_hist w a) \<and> r = reply (if p = [] then 422 else 409) []"
    using serve_put_refused [of rq w r w' ct p] by (simp add: ex_server_def ex_hist_def)
  then show "\<exists>resp. r = Inr resp \<and> (success resp \<or>
      (StatusCode resp = 409 \<or> StatusCode resp = 422 \<and> p = []) \<and> honest ex_hist w w' \<and> overtaken a p (ex_hist w a) (ex_hist w' a))"
    by (auto simp: reply_def overtaken_def)
next
  show "\<exists>resp. r = Inr resp \<and> (success resp \<or> StatusCode resp = 404)"
    if "RoundTrip ex_server rq w = (r, w')" "ReqMethod rq = ''GET''" "ReqUrl rq = ledger_url ex_rest a" for w rq a r w'
    using that by (auto simp: ex_server_def serve_def reply_def split: list.splits)
qed (simp add: ex_server_def)

lemma ex_filed_sound: "ex_good ex_filed" "all_sound ex_hist ex_filed"
  using ex_text_sound by (auto simp: ex_good_def ex_filed_def all_sound_def ex_hist_def) (simp add: sound_def)

lemma ex_filed_ledger: "ledger_of (ex_hist ex_filed ''acme'') = Some ex_ledger" "length (ex_hist ex_filed ''acme'') = 1"
  using Parse_ex by (simp_all add: ex_hist_def ex_filed_def ledger_of_def)

section \<open>A busy GitHub\<close>

text \<open>Somebody who revokes the first certificate of the ledger again and again.\<close>

definition ex_strategy :: strategy where
  "ex_strategy h =
     (case ledger_of (h ''acme'') of
        None \<Rightarrow> None
      | Some l \<Rightarrow>
          if well_formed ''acme'' l \<and> certs l \<noteq> []
          then (case Marshal (flip_at 0 ex_revocation l) of Inl e \<Rightarrow> None | Inr data \<Rightarrow> Some (''acme'', data))
          else None)"

lemma ex_strategy_honest: "honest_strategy ex_strategy"
  unfolding honest_strategy_def
proof (intro allI impI)
  fix h a c s assume "ex_strategy h = Some (a, c)"
  then obtain l where l: "ledger_of (h ''acme'') = Some l" "well_formed ''acme'' l" "certs l \<noteq> []"
    and c: "Marshal (flip_at 0 ex_revocation l) = Inr c" and a: "a = ''acme''"
    by (auto simp: ex_strategy_def split: option.splits if_splits sum.splits)
  have rv: "year_ok (RevFrom ex_revocation)" using canonical_time [OF time_canonical_0(1)] by (simp add: ex_revocation_def)
  have idx: "0 < length (certs l)" using l(3) by simp
  note st = flip_storable [OF l(2) idx rv]
  then have "Ledger.Parse c = Inr (stored (flip_at 0 ex_revocation l))" using Parse_Marshal_stored [OF _ _ c] by blast
  moreover have "registry_step ''acme'' (ledger_of (h ''acme'')) (Some (stored (flip_at 0 ex_revocation l)))"
    unfolding l(1) by (rule flip_is_step [OF l(2) idx])
  ultimately show "honest_write a (h a) ((c, s) # h a)"
    using st stored_well_formed unfolding a by (auto intro: honest_write.intros)
qed

definition ex_busy :: busy where
  "ex_busy = \<lparr>Store = ex_store, Calls = 0, Others = (\<lambda>n. [ex_strategy])\<rparr>"

theorem interleaved_bots_keep_the_registry_witness:
  "\<exists>w'. concurrent busy_github busy_hist busy_good ex_busy w' \<and> kept_honest busy_hist ex_busy w'"
proof -
  let ?d = "\<lparr>PrivGH = busy_github, PrivClock = (\<lambda>w. (0, w))\<rparr>"
  obtain r w' where "PrivilegedProcess ?d ex_operator ex_busy = (r, w')" by (metis surj_pair)
  then have c: "concurrent busy_github busy_hist busy_good ex_busy w'"
    by (intro concurrent.operator [OF _ ex_operator_ok]) simp_all
  have "busy_good ex_busy"
    using ex_store_consistent ex_strategy_honest by (simp add: busy_good_def ex_busy_def) (simp add: ex_store_def share_def)
  moreover have "all_sound busy_hist ex_busy"
    using ex_text_sound
    by (auto simp: all_sound_def busy_hist_def ex_busy_def ex_store_def share_def SetLedger_def mintSHA_def FakeClient.New_def Let_def)
       (simp add: sound_def)
  moreover have "(concurrent busy_github busy_hist busy_good)\<^sup>*\<^sup>* ex_busy w'" using c by blast
  ultimately show ?thesis using interleaved_bots_keep_the_registry c by blast
qed

section \<open>Two revocations at once\<close>

definition ex_signed :: x509_cert where
  "ex_signed =
     \<lparr>Raw = ''der'', XSerial = 31, Subject = empty_name, XPublicKey = None, XNotBefore = 0, XNotAfter = 0, KeyUsage = {},
      ExtKeyUsage = [], BasicConstraintsValid = True, IsCA = False, MaxPathLen = 0, MaxPathLenZero = False,
      SignatureAlgorithm = ECDSAWithSHA384, CRLDistributionPoints = []\<rparr>"

definition ex_shared_lib :: "shared crypto_lib" where
  "ex_shared_lib =
     \<lparr>ParseCertificateRequest = (\<lambda>b. Inl (Errorf [])), CheckSignature = (\<lambda>r. None), ParseCertificate = (\<lambda>b. Inr ex_signed),
      ParseECPrivateKey = (\<lambda>b. Inl (Errorf [])), ParsePKCS8PrivateKey = (\<lambda>b. Inl (Errorf [])),
      CreateCertificate = (\<lambda>r t p k s w. (Inr ''der'', w)), CreateRevocationList = (\<lambda>r l c s w. (Inr ''crl'', w)),
      EcdsaSigner = (\<lambda>k. \<lparr>SignerPublic = None, SignDigest = (\<lambda>d h w. (Inr [], w))\<rparr>),
      GenerateKey = (\<lambda>r w. (Inl (Errorf []), w)), Sha256 = (\<lambda>s. [CHR 0x00]), RandReader = (\<lambda>w. (Inr CHR ''x'', w))\<rparr>"

definition ex_shared_rdeps :: "shared Revoke.deps" where
  "ex_shared_rdeps =
     \<lparr>RevGH = shared_github, RevVerifier = \<lparr>Verify = (\<lambda>b w. (Inr \<lparr>SignerCert = ex_signed, Content = []\<rparr>, w))\<rparr>,
      RevClock = (\<lambda>w. (0, w))\<rparr>"

definition ex_own_issue :: issue where
  "ex_own_issue = \<lparr>Number = 1, IssueBody = [], Author = \<lparr>AuthorLogin = ''dev'', AuthorUserID = 7\<rparr>, Labels = []\<rparr>"

definition ex_by_operator :: revocation where
  "ex_by_operator = \<lparr>RevReason = ''lost key'', RevFrom = 0, RevActor = ''op''\<rparr>"

theorem conflict_overwrites_revocation_witness:
  "\<exists>data text1. Ledger.Parse text1 = Inr (flip_at 0 ex_by_operator ex_ledger) \<and>
     Marshal (flip_at 0 \<lparr>RevReason = ''self-service'', RevFrom = 0, RevActor = []\<rparr> ex_ledger) = Inr data \<and>
     map fst (History (snd (match_and_revoke ex_shared_lib ex_shared_rdeps ex_own_issue \<lparr>SignerCert = ex_signed, Content = []\<rparr>
       ''acme'' (changed_between ''acme'' ex_text text1 [[]]))) ''acme'') = [data, text1, ex_text]"
proof -
  obtain text1 where m: "Marshal (flip_at 0 ex_by_operator ex_ledger) = Inr text1" by (simp add: Marshal_def)
  have idx: "0 < length (certs ex_ledger)" by (simp add: ex_ledger_def certs_def)
  have "revocation_canonical ex_by_operator"
    by (simp add: revocation_canonical_def ex_by_operator_def time_canonical_0 is_ascii_def)
  then have p: "Ledger.Parse text1 = Inr (flip_at 0 ex_by_operator ex_ledger)"
    using Parse_Marshal_canonical [OF flip_canonical [OF ex_ledger_ok(1) idx] flip_ok [OF ex_ledger_ok(2)] m] by blast
  have "Fingerprint ex_shared_lib (Raw (SignerCert \<lparr>SignerCert = ex_signed, Content = []\<rparr>)) = ''sha256:00''"
    by (simp add: Fingerprint_def ex_shared_lib_def) code_simp
  then have f: "findByFingerprint (Some ex_ledger) (Fingerprint ex_shared_lib (Raw (SignerCert \<lparr>SignerCert = ex_signed, Content = []\<rparr>))) = Some 0"
    by (simp add: findByFingerprint_def ex_ledger_def certs_def ex_entry_def)
  have s: "Status (certs ex_ledger ! 0) \<noteq> StatusRevoked" "NotBefore (certs ex_ledger ! 0) = 0"
    by (simp_all add: ex_ledger_def certs_def ex_entry_def StatusActive_def StatusRevoked_def)
  have gh: "RevGH ex_shared_rdeps = shared_github" by (simp add: ex_shared_rdeps_def)
  from conflict_overwrites_revocation [OF Parse_ex p f s(1) gh, of ex_own_issue "''acme''", unfolded s(2)]
  show ?thesis by (elim exE conjE) (intro exI conjI, rule p)
qed

end
