(* ===== verification/CommandsUp.thy ===== *)
theory CommandsUp imports Availability Deployment begin

text \<open>
  Whole runs of issuer and revoker against an API that is up, from the environment to the exit status: they
  end, and they end well unless others have written in between.
\<close>

section \<open>The poll loops\<close>




section \<open>The API is up\<close>















section \<open>Acknowledged writes\<close>







section \<open>Properties\<close>



end
