(* ===== verification/WitnessesProgress.thy ===== *)
theory WitnessesProgress imports WitnessesStore CommandsUp begin

text \<open>
  Concrete worlds for the properties on progress: the server of the Contents API with nobody else, and with a
  rival who is always faster.
\<close>

section \<open>Nobody else\<close>

theorem privrevoke_gets_on_witness:
  "\<exists>w' l' i. privrevoke_main ex_server (ex_env []) (\<lambda>w. (0, w)) ex_filed = (0, w') \<and>
     ledger_of (ex_hist w' ''acme'') = Some l' \<and> i < length (certs l') \<and> Serial (certs l' ! i) = ''0x1f'' \<and>
     Status (certs l' ! i) = StatusRevoked \<and> RevokedFrom (certs l' ! i) = Some 0"
proof -
  obtain data where m: "Marshal (flip_at 0 (ex_revoked 0) ex_ledger) = Inr data" by (simp add: Marshal_def)
  have "request_of (ex_env []) = Inr (ex_operator\<lparr>PrivRevokedFrom := None\<rparr>)" by (simp add: ex_env_inputs(3)) (simp add: ex_operator_def)
  note run = ex_privrevoke [OF this _ m, unfolded resolve_from_def option.case, OF refl]
  have "check_request ex_operator = None" "trim_space ''0x1f'' = ''0x1f''" by code_simp+
  then have req: "check_request ex_operator = None" "PrivAppID ex_operator = ''acme''" "trim_space (PrivSerial ex_operator) = ''0x1f''"
    "PrivRevokedFrom ex_operator = None"
    by (simp_all add: ex_operator_def)
  from privrevoke_gets_on [OF ex_honest_api ex_answering_api ex_filed_sound ex_env_inputs(1,3) req(1) ex_operator_ok, of ex_ledger 0 0 "\<lambda>w. (0, w)",
      unfolded req, OF ex_filed_ledger(1) ex_found(1)]
  show ?thesis using run by (auto simp: ex_found resolve_from_def whole_def time_unix_def)
qed

section \<open>A rival\<close>

text \<open>An API whose files others change before each request.\<close>

definition after_others :: "(http_request \<Rightarrow> 'w \<Rightarrow> 'w) \<Rightarrow> 'w http_lib \<Rightarrow> 'w http_lib" where
  "after_others others http = http\<lparr>RoundTrip := (\<lambda>rq w. RoundTrip http rq (others rq w))\<rparr>"

lemma after_others_simps [simp]:
  "RoundTrip (after_others others http) rq w = RoundTrip http rq (others rq w)" "BadUrl (after_others others http) = BadUrl http"
  by (simp_all add: after_others_def)

lemma may_land_later:
  assumes "(honest_write a)\<^sup>*\<^sup>* vs0 vs" "may_land a ct p vs vs'"
  shows "may_land a ct p vs0 vs'"
proof -
  obtain older where o: "(honest_write a)\<^sup>*\<^sup>* vs older" "vs' = older \<or> (\<exists>s. vs' = (ct, s) # older \<and> p = current_sha older)"
    using assms(2) unfolding may_land_def by blast
  show ?thesis unfolding may_land_def by (rule exI, rule conjI, rule rtranclp_trans [OF assms(1) o(1)], rule o(2))
qed

definition honest_others :: "('w \<Rightarrow> string \<Rightarrow> version list) \<Rightarrow> ('w \<Rightarrow> bool) \<Rightarrow> (http_request \<Rightarrow> 'w \<Rightarrow> 'w) \<Rightarrow> bool" where
  "honest_others hist good others \<longleftrightarrow> (\<forall>rq w. good w \<longrightarrow> good (others rq w) \<and> honest hist w (others rq w))"

lemma honest_othersD:
  assumes "honest_others hist good others" "good w"
  shows "good (others rq w)" "honest hist w (others rq w)" "(honest_write a)\<^sup>*\<^sup>* (hist w a) (hist (others rq w) a)"
    "suffix (hist w a) (hist (others rq w) a)"
  using assms honest_extends [of hist w "others rq w"] unfolding honest_others_def honest_def extends_def by blast+

lemma contents_api_after_others:
  assumes ct: "contents_api http c hist good" and o: "honest_others hist good others"
  shows "contents_api (after_others others http) c hist good"
  unfolding contents_api_def after_others_simps
proof (intro conjI allI impI)
  fix w rq r w' assume w: "good w" and run: "RoundTrip http rq (others rq w) = (r, w')"
  then have "good w' \<and> extends hist (others rq w) w'"
    using contents_apiD(2) [OF ct honest_othersD(1) [OF o w]] by blast
  then show "good w'" "extends hist w w'"
    using honest_othersD(4) [OF o w] unfolding extends_def by (auto intro: suffix_order.trans)
next
  fix w rq a ct' p resp w'
  assume w: "good w" and run: "RoundTrip http rq (others rq w) = (Inr resp, w')" "success resp" "ReqMethod rq = ''PUT''"
    "ReqUrl rq = ledger_url c a" "asks_write rq ct' p"
  obtain s older where "hist w' a = (ct', s) # older" "suffix (hist (others rq w) a) older" "p = current_sha older"
    using contents_apiD(4) [OF ct honest_othersD(1) [OF o w] run] by blast
  then show "\<exists>s older. hist w' a = (ct', s) # older \<and> suffix (hist w a) older \<and> p = current_sha older"
    using honest_othersD(4) [OF o w] suffix_order.trans by blast
next
  fix w rq a resp w'
  assume w: "good w" and run: "RoundTrip http rq (others rq w) = (Inr resp, w')" "success resp" "ReqMethod rq = ''GET''"
    "ReqUrl rq = ledger_url c a"
  show "answers_read resp (hist w' a)" by (rule contents_apiD(3) [OF ct honest_othersD(1) [OF o w] run])
qed (use contents_apiD(1) [OF ct] in blast)

lemma honest_api_after_others:
  assumes api: "honest_api http c hist good" and o: "honest_others hist good others"
  shows "honest_api (after_others others http) c hist good"
  unfolding honest_api_def after_others_simps
proof (intro conjI allI impI)
  show "contents_api (after_others others http) c hist good"
    by (rule contents_api_after_others [OF honest_apiD(1) [OF api] o])
next
  fix w rq r w' assume w: "good w" and run: "RoundTrip http rq (others rq w) = (r, w')" "ReqMethod rq \<noteq> ''PUT'' \<or> ReqUrl rq \<notin> range (ledger_url c)"
  have "honest hist (others rq w) w'" by (rule honest_apiD(2) [OF api honest_othersD(1) [OF o w] run])
  then show "honest hist w w'" by (rule honest_trans [OF honest_othersD(2) [OF o w]])
next
  fix w rq a ct p r w' b
  assume w: "good w" and run: "RoundTrip http rq (others rq w) = (r, w')" "ReqMethod rq = ''PUT''" "ReqUrl rq = ledger_url c a" "asks_write rq ct p"
  have l: "may_land a ct p (hist (others rq w) a) (hist w' a)" "b \<noteq> a \<Longrightarrow> (honest_write b)\<^sup>*\<^sup>* (hist (others rq w) b) (hist w' b)"
    using honest_apiD(3) [OF api honest_othersD(1) [OF o w] run] by simp_all
  show "may_land a ct p (hist w a) (hist w' a)" by (rule may_land_later [OF honest_othersD(3) [OF o w] l(1)])
  show "(honest_write b)\<^sup>*\<^sup>* (hist w b) (hist w' b)" if "b \<noteq> a" by (rule rtranclp_trans [OF honest_othersD(3) [OF o w] l(2) [OF that]])
next
  fix w rq a resp w'
  assume w: "good w" and run: "RoundTrip http rq (others rq w) = (Inr resp, w')" "StatusCode resp = 404" "ReqMethod rq = ''GET''"
    "ReqUrl rq = ledger_url c a"
  show "hist w' a = []" by (rule honest_apiD(4) [OF api honest_othersD(1) [OF o w] run])
next
  show "\<not> errors_is e ErrNotFound" if "RoundTrip http rq (others rq w) = (Inl e, w')" for w rq e w'
    by (rule honest_apiD(5) [OF api that])
  show "\<not> errors_is e ErrNotFound" if "BadUrl http u = Some e" for u e
    by (rule honest_apiD(6) [OF api that])
qed

lemma answering_api_after_others:
  assumes api: "answering_api http c hist good" and o: "honest_others hist good others"
  shows "answering_api (after_others others http) c hist good"
  unfolding answering_api_def after_others_simps
proof (intro conjI allI impI)
  show "BadUrl http (ledger_url c a) = None" for a by (rule answering_apiD(1) [OF api])
next
  fix w rq a r w'
  assume w: "good w" and run: "RoundTrip http rq (others rq w) = (r, w')" "ReqMethod rq = ''GET''" "ReqUrl rq = ledger_url c a"
  show "\<exists>resp. r = Inr resp \<and> (success resp \<or> StatusCode resp = 404)"
    by (rule answering_apiD(2) [OF api honest_othersD(1) [OF o w] run])
next
  fix w rq a ct p r w'
  assume w: "good w" and run: "RoundTrip http rq (others rq w) = (r, w')" "ReqMethod rq = ''PUT''" "ReqUrl rq = ledger_url c a" "asks_write rq ct p"
  obtain resp where r: "r = Inr resp" "success resp \<or> (StatusCode resp = 409 \<or> StatusCode resp = 422 \<and> p = []) \<and>
      honest hist (others rq w) w' \<and> overtaken a p (hist (others rq w) a) (hist w' a)"
    using answering_apiD(3) [OF api honest_othersD(1) [OF o w] run] by blast
  show "\<exists>resp. r = Inr resp \<and> (success resp \<or> (StatusCode resp = 409 \<or> StatusCode resp = 422 \<and> p = []) \<and>
      honest hist w w' \<and> overtaken a p (hist w a) (hist w' a))"
    using r honest_trans [OF honest_othersD(2) [OF o w]] overtaken_later [OF honest_othersD(3) [OF o w]] by blast
qed

text \<open>The rival repeats the latest revocation of the first certificate before every write.\<close>

definition ex_repeat :: "version list \<Rightarrow> version list" where
  "ex_repeat vs =
     (case vs of
        [] \<Rightarrow> []
      | (c, s) # older \<Rightarrow>
          (case ledger_of vs of
             None \<Rightarrow> vs
           | Some l \<Rightarrow>
               if well_formed ''acme'' l \<and> certs l \<noteq> [] \<and> Status (hd (certs l)) = StatusRevoked \<and> RevokedFrom (hd (certs l)) \<noteq> None
               then (c, sha_name (Suc (length vs))) # vs else vs))"

definition ex_rival :: "http_request \<Rightarrow> server \<Rightarrow> server" where
  "ex_rival rq w =
     (let u = ledger_url ex_rest ''acme'' in if ReqMethod rq = ''PUT'' \<and> ReqUrl rq = u then w(u := ex_repeat (w u)) else w)"

lemma ex_repeat_honest: "(honest_write ''acme'')\<^sup>*\<^sup>* vs (ex_repeat vs)"
proof -
  have "honest_write ''acme'' vs ((c, sha_name (Suc (length vs))) # vs)"
    if vs: "vs = (c, s) # older" and l: "ledger_of vs = Some l" "well_formed ''acme'' l" "certs l \<noteq> []"
      "Status (hd (certs l)) = StatusRevoked" "RevokedFrom (hd (certs l)) \<noteq> None" for c s older l
  proof (rule honest_write)
    show "Ledger.Parse c = Inr l" using l(1) vs by (auto simp: ledger_of_def split: sum.splits)
    have "Certificates l \<noteq> None" using l(3) by (auto simp: certs_def split: option.splits)
    then have "l\<lparr>Certificates := Some ((certs l)[0 := hd (certs l)])\<rparr> = l"
      using l(3) by (auto simp: certs_def hd_conv_nth)
    then show "registry_step ''acme'' (ledger_of vs) (Some l)"
      using registry_step.revokes [of 0 l "hd (certs l)" "''acme''"] l by (simp add: hd_conv_nth same_identity_def)
  qed (rule l(2))
  then show ?thesis by (auto simp: ex_repeat_def split: list.split option.split)
qed

lemma ex_repeat_numbered: "numbered vs \<Longrightarrow> numbered (ex_repeat vs)"
  by (auto simp: ex_repeat_def split: list.split option.split)

lemma ex_rival_honest: "honest_others ex_hist ex_good ex_rival"
  using ex_repeat_honest ex_repeat_numbered
  by (auto simp: honest_others_def ex_rival_def Let_def honest_def ex_good_def ex_hist_def)

lemmas rival_apis = honest_api_after_others [OF ex_honest_api ex_rival_honest] answering_api_after_others [OF ex_answering_api ex_rival_honest]

abbreviation ex_contested :: "server http_lib" where
  "ex_contested \<equiv> after_others ex_rival ex_server"

definition contested :: "ledger \<Rightarrow> server \<Rightarrow> bool" where
  "contested l w \<longleftrightarrow> ex_good w \<and> ledger_of (ex_hist w ''acme'') = Some l \<and> well_formed ''acme'' l \<and> certs l \<noteq> [] \<and>
     Status (hd (certs l)) = StatusRevoked \<and> RevokedFrom (hd (certs l)) \<noteq> None"

lemma contested_top:
  assumes "contested l w"
  obtains c older where "w (ledger_url ex_rest ''acme'') = (c, sha_name (Suc (length older))) # older" "Ledger.Parse c = Inr l"
proof -
  obtain c s older where v: "w (ledger_url ex_rest ''acme'') = (c, s) # older" "Ledger.Parse c = Inr l"
    using assms by (auto simp: contested_def ex_hist_def ledger_of_def split: list.splits prod.splits sum.splits)
  moreover have "numbered (w (ledger_url ex_rest ''acme''))" using assms by (simp add: contested_def ex_good_def)
  ultimately show ?thesis using that by simp
qed

lemma rival_reads: "do_request ex_contested ex_rest ''GET'' path None dec out w = do_request ex_server ex_rest ''GET'' path None dec out w"
  by (simp add: do_request_def ex_rival_def Let_def cong: option.case_cong)

lemma rival_get:
  assumes w: "contested l w"
  shows "Enroll.loadLedger (ex_deps (rest_github ex_contested ex_rest)) ''acme'' w = (Inr (Some l, current_sha (ex_hist w ''acme'')), w)"
proof -
  obtain c older where v: "w (ledger_url ex_rest ''acme'') = (c, sha_name (Suc (length older))) # older" "Ledger.Parse c = Inr l"
    by (rule contested_top [OF w])
  have "rest_GetLedger ex_contested ex_rest ''acme'' w = rest_GetLedger ex_server ex_rest ''acme'' w"
    by (simp add: rest_GetLedger_def getContents_def rival_reads)
  then show ?thesis
    using ex_rest_get [where w = w, OF utf8_sha_name v(1)] v by (simp add: Enroll.loadLedger_def ex_hist_def current_sha_def)
qed

lemma rival_put:
  assumes w: "contested l w"
  shows "\<exists>w'. rest_PutLedger ex_contested ex_rest ''acme'' ct (current_sha (ex_hist w ''acme'')) m w = (Inl ErrConflict, w') \<and> contested l w'"
proof -
  let ?u = "ledger_url ex_rest ''acme''"
  obtain c older where v: "w ?u = (c, sha_name (Suc (length older))) # older" "Ledger.Parse c = Inr l" by (rule contested_top [OF w])
  let ?s = "sha_name (Suc (length older))"
  let ?w1 = "w(?u := (c, sha_name (Suc (Suc (length older)))) # w ?u)"
  have "ledger_of (w ?u) = Some l" using v by (simp add: ledger_of_def)
  then have again: "ex_repeat (w ?u) = (c, sha_name (Suc (Suc (length older)))) # w ?u"
    using v w by (simp add: ex_repeat_def contested_def)
  have w1: "contested l ?w1"
    using w v numbered.simps(2) [of c "sha_name (Suc (length older))" older]
    by (auto simp: contested_def ex_good_def ex_hist_def ledger_of_def simp del: numbered.simps(2)) (metis length_Cons numbered.simps(2))+
  have trim: "trim_space [] = []" by code_simp
  have "rest_PutLedger ex_contested ex_rest ''acme'' ct ?s m w = (Inl ErrConflict, ?w1)"
    using parse_put_body [of ct ?s m] decode_put_body [of ct ?s "to_valid m"] again
    by (simp add: rest_PutLedger_def putContents_def do_request_def ex_server_def serve_def serve_put_def reply_def ex_rival_def Let_def
        b64_decode_encode status_error_def ledger_url_path to_valid_id utf8_sha_name current_sha_def trim)
  then show ?thesis using w1 v by (auto simp: current_sha_def ex_hist_def)
qed

text \<open>The rival is always faster.\<close>

lemma rival_wins:
  "contested l w \<Longrightarrow> \<exists>e w'. commit_loop (ex_deps (rest_github ex_contested ex_rest)) ''acme'' repo entry now n lc (Some l)
     (current_sha (ex_hist w ''acme'')) w = (Inl e, w')"
proof (induction n arbitrary: lc w)
  case (Suc n)
  obtain data where data: "Marshal (next_ledger ''acme'' repo now entry (Some l)) = Inr data" by (simp add: Marshal_def)
  obtain w1 where w1: "rest_PutLedger ex_contested ex_rest ''acme'' data (current_sha (ex_hist w ''acme'')) (issue_message ''acme'') w = (Inl ErrConflict, w1)"
    "contested l w1"
    using rival_put [OF Suc.prems] by blast
  show ?case using Suc.IH [OF w1(2)] data w1 rival_get [OF w1(2)] by simp
qed (simp add: Let_def)

theorem retry_loops_are_lock_free_witness:
  "\<exists>w e w'. commit_loop (ex_deps (rest_github ex_contested ex_rest)) ''acme'' ''o/app'' ex_entry 0 5 None (ledger_of (ex_hist w ''acme''))
       (current_sha (ex_hist w ''acme'')) w = (Inl e, w') \<and>
     length (ex_hist w ''acme'') = 1 \<and> 6 \<le> length (ex_hist w' ''acme'')"
proof -
  let ?l = "flip_at 0 ex_revocation ex_ledger"
  obtain data where m: "Marshal ?l = Inr data" by (simp add: Marshal_def)
  let ?w = "(\<lambda>u. [])(ledger_url ex_rest ''acme'' := [(data, sha_name 1)]) :: server"
  have idx: "0 < length (certs ex_ledger)" by (simp add: ex_ledger_def certs_def)
  have rv: "year_ok (RevFrom ex_revocation)" using canonical_time [OF time_canonical_0(1)] by (simp add: ex_revocation_def)
  have st: "storable ?l" "ledger_ok ?l" "AppID ?l = ''acme''" using flip_storable [OF ex_well_formed idx rv] by simp_all
  have l: "ledger_of (ex_hist ?w ''acme'') = Some (stored ?l)"
    using Parse_Marshal_stored [OF st(1,2) m] by (simp add: ex_hist_def ledger_of_def)
  have c: "contested (stored ?l) ?w"
  proof -
    have "certs (stored ?l) = [stored_cert (flip_cert ex_revocation ex_entry)]"
      by (simp add: certs_flip) (simp add: ex_ledger_def certs_def)
    then show ?thesis
      using l stored_well_formed [OF st] stored_status
      by (simp add: contested_def ex_good_def flip_cert_def stored_cert_def)
  qed
  obtain e w' where run: "commit_loop (ex_deps (rest_github ex_contested ex_rest)) ''acme'' ''o/app'' ex_entry 0 5 None (Some (stored ?l))
       (current_sha (ex_hist ?w ''acme'')) ?w = (Inl e, w')"
    using rival_wins [OF c] by blast
  have "ex_good ?w" "all_sound ex_hist ?w"
    using c l by (auto simp: contested_def all_sound_def sound_def ex_hist_def ledger_of_def split: sum.splits)
  from retry_loops_are_lock_free [OF rival_apis this ex_deps_GH, of "\<lambda>l. findBySerial l ''0x1f''" "''0x1f''",
      where a = "''acme''" and repo = "''o/app''" and entry = ex_entry and now = 0 and n = 5 and rv = ex_revocation, THEN conjunct1, unfolded l run]
  have "6 \<le> length (ex_hist w' ''acme'')" by (simp add: ex_hist_def)
  then show ?thesis using run l by (intro exI [of _ ?w] exI [of _ e] exI [of _ w']) (simp add: ex_hist_def)
qed

section \<open>Whole commands\<close>






text \<open>Libraries that leave the world alone; openssl refuses every request.\<close>

definition ex_pem :: string where
  "ex_pem = ''-----BEGIN CERTIFICATE-----'' @ nl @ ''-----END CERTIFICATE-----'' @ nl"



definition ex_machine :: "server os_lib" where
  "ex_machine =
     \<lparr>CreateTemp = (\<lambda>p w. (Inr p, w)), RemoveFile = (\<lambda>p w. w), RunCommand = (\<lambda>c s w. ((ExitError, [], []), w)),
      ReadFile = (\<lambda>p w. (Inr ex_pem, w)), WriteFile = (\<lambda>p d w. (Inr (), w)), MkdirAll = (\<lambda>p w. (Inr (), w)),
      Getenv = (\<lambda>n. case map_of [(''GITHUB_TOKEN'', ''t''), (''ISSUER_BOT_LOGIN'', ''bot''), (''GITHUB_REPOSITORY'', ''o/r''),
        (''VAULT_ADDR'', ''http://v''), (''VAULT_TOKEN'', ''t''), (''VAULT_TRANSIT_KEY'', ''k''), (''INTERMEDIATE_CERT'', ''i.pem'')] n of
          None \<Rightarrow> [] | Some v \<Rightarrow> v)\<rparr>"

lemma ex_machine_env [simp]:
  "Getenv ex_machine ''GITHUB_TOKEN'' = ''t''" "Getenv ex_machine ''ISSUER_BOT_LOGIN'' = ''bot''"
  "Getenv ex_machine ''GITHUB_REPOSITORY'' = ''o/r''" "Getenv ex_machine ''VAULT_ADDR'' = ''http://v''"
  "Getenv ex_machine ''VAULT_TOKEN'' = ''t''" "Getenv ex_machine ''VAULT_TRANSIT_KEY'' = ''k''"
  "Getenv ex_machine ''INTERMEDIATE_CERT'' = ''i.pem''"
  by (simp_all add: ex_machine_def)




text \<open>Nobody else writes: every version is one that was acknowledged.\<close>

definition ex_own :: "server \<Rightarrow> string \<Rightarrow> nat" where
  "ex_own w a = length (ex_hist w a)"


lemma ex_alone [simp]: "by_others ex_hist ex_own w w' a = 0"
  by (simp add: by_others_def ex_own_def)




end
