(* ===== verification/Spec2Isabelle.thy ===== *)
theory Spec2Isabelle imports WitnessesRegistry WitnessesProgress begin

text \<open>
  Verification library of the ownCloud developer-certificates bots.

  The program. Five commands under \<open>cmd/\<close> run in GitHub workflows. \<open>issuer\<close> polls the open
  certificate requests and runs the pipeline \<open>internal/enroll\<close> on each: read the form, check the CSR
  and its appId, compare it with the id in the repository's \<open>appinfo/info.xml\<close>, post a challenge or
  check the answer to it, check who owns the appId, have the leaf signed, append it to the ledger of
  the appId, deliver it and close the issue. \<open>revoker\<close> polls the revocation requests and runs
  \<open>internal/revoke\<close>: verify the CMS blob, find the signer's certificate in the ledger, flip its
  entry. \<open>privrevoke\<close> flips an entry on the inputs of an operator. \<open>crlgen\<close> builds the revocation list
  from all ledgers, has it signed and publishes it; \<open>seedcrl\<close> makes the first, empty list. The state
  is outside: the ledger files \<open>ledger/<appId>.json\<close>, written under optimistic concurrency with the
  SHA of the version read, the issues with their comments and labels, and the list.

  The model. A Go \<open>string\<close> or \<open>[]byte\<close> is a \<open>char list\<close> of bytes, an \<open>error\<close> a \<open>go_error\<close> with
  \<open>errors.Is\<close>, a fallible call a sum with the error on the left, and a call with effects a function
  \<open>'w \<Rightarrow> 'a result \<times> 'w\<close> of an arbitrary world \<open>'w\<close>: what GitHub, the clock, the random source,
  a signer, the file system and a process answer is any function of the world, so that a theorem
  over all \<open>'w\<close> holds for every behaviour of them. A time is an \<open>int\<close> of nanoseconds since 1970;
  the 64-bit \<open>time.Duration\<close> saturates as in \<open>time.Sub\<close>. Definitions have the names of the Go
  functions; the operations of the fake and the REST client have the prefixes \<open>fake_\<close> and \<open>rest_\<close>.

  Go's library, as far as the source uses it:
    \<^item> \<open>Prelude\<close>: errors, results, lists. \<open>GoStrings\<close>: byte classes, \<open>strings\<close>, UTF-8, \<open>%q\<close>, \<open>%d\<close>, hex.
    \<^item> \<open>GoRegexp\<close>: backtracking matcher for the five patterns of the source, with its semantics.
    \<^item> \<open>GoTime\<close>: calendar, RFC 3339 formatting and parsing, and that a formatted time reads back.
    \<^item> \<open>GoJson\<close>, \<open>GoDecode\<close>, \<open>GoCompact\<close>: JSON values, \<open>MarshalIndent\<close>, \<open>Marshal\<close>, the parser,
      decoding into structs, and that what is printed reads back, for texts of any bytes.
    \<^item> \<open>GoPem\<close>, \<open>PemRoundTrip\<close>: PEM and base64, and that an encoded block decodes. \<open>GoHttp\<close>: requests,
      responses and the transport as a parameter. \<open>X509\<close>: certificates, keys and the crypto library
      as a record of functions.

  The components, each with its state, its operations in the order of the code and its lemmas:
    \<^item> \<open>Appid\<close>, \<open>Appinfo\<close>, \<open>Challenge\<close>, \<open>Csr\<close>, \<open>Certtmpl\<close>: the packages of these names.
    \<^item> \<open>Signer\<close> (\<open>internal/signer\<close>), \<open>SignerAdapters\<close> (its \<open>local\<close>, \<open>pem\<close> and \<open>vault\<close>).
    \<^item> \<open>Ledger\<close> (\<open>internal/ledger\<close>): the records, \<open>Parse\<close>, \<open>Marshal\<close>, \<open>Decide\<close>, and the round trip.
    \<^item> \<open>Ghclient\<close> (the interface), \<open>FakeClient\<close> (\<open>ghclient/fake\<close>), \<open>RestClient\<close> (\<open>ghclient/rest\<close>).
    \<^item> \<open>Cms\<close> (\<open>internal/cms\<close> with \<open>fake\<close> and \<open>openssl\<close>), \<open>Crl\<close> (\<open>internal/crl\<close> and its \<open>store\<close>).
    \<^item> \<open>EnrollForm\<close>, \<open>Enroll\<close> (\<open>internal/enroll\<close>), \<open>Revoke\<close> (\<open>internal/revoke\<close>).
    \<^item> \<open>CmdIssuer\<close>, \<open>CmdRevoker\<close> (\<open>revoker\<close> and \<open>privrevoke\<close>), \<open>CmdCrlgen\<close> (\<open>crlgen\<close> and \<open>seedcrl\<close>).

  What the lemmas show:
    \<^item> \<open>InputChecks\<close>, \<open>IssuingChecks\<close>, \<open>CommandRuns\<close>: the components one by one: the grammar of an appId,
      the challenge, the form, the CSR, the serial, the profile of a leaf, the signers, a poll loop,
      a run of \<open>crlgen\<close>.
    \<^item> \<open>Trace\<close>, \<open>EnrollSafety\<close>, \<open>RevokeSafety\<close>: the pipelines on an observed world that records every call.
      Nothing is issued or revoked without the complete proof, whatever the outside world does.
    \<^item> \<open>LedgerStore\<close>, \<open>Contention\<close>, \<open>NoLostUpdate\<close>: the retry loops against other writers. The locale
      \<open>ledger_files\<close> is the contract of a versioned file; \<open>shared_files\<close> interprets it on the fake
      client with a queue of foreign writes. A successful write stands directly on the version it
      was made from.
    \<^item> \<open>HonestStore\<close>, \<open>BusyGithub\<close>, \<open>RestStore\<close>: the pipelines among other writers, by rely and guarantee. What
      a bot relies on of the others, that they add registry steps only (\<open>honest_write\<close>), it guarantees
      to them, so that any number of bots may be interleaved call by call. The locale
      \<open>honest_files\<close> extends \<open>ledger_files\<close> and gives \<open>ledger_view\<close>; \<open>busy_files\<close> interprets it on the
      fake client with writers that act before every call, and \<open>rest_honest_files\<close> derives it for
      the REST client from the documented Contents API (\<open>contents_api\<close>, \<open>honest_api\<close>), stated on
      the text of requests and responses.
    \<^item> \<open>Deployment\<close>: whole runs of the five commands, from the environment to the exit status, as steps
      (\<open>deployed\<close>) of one repository: configuration, signer, verifier, poll loop, pipeline, client and
      the publication of the list together keep every ledger.
    \<^item> \<open>Progress\<close>, \<open>Availability\<close>, \<open>BusyProgress\<close>: on a GitHub that answers (the locale \<open>answering_files\<close>,
      which extends \<open>honest_files\<close>), a retry loop gives up only when others have written at least as
      often as it tried, so that one of the writers always gets on; where everything else is up too
      (\<open>up_files\<close>), nothing but contention makes a poll fail. \<open>quiet_files\<close> and \<open>quiet_up\<close>
      interpret both on the fake client among other writers, \<open>rest_answering_files\<close> and
      \<open>rest_up_files\<close> derive them for the REST client from \<open>answering_api\<close> and \<open>up_api\<close>.
    \<^item> \<open>Counting\<close>: whose versions they are. A counter that only observes goes up with every write that is
      acknowledged to the run (\<open>counts_writes\<close>, the locales \<open>counted_files\<close> and \<open>counted_up\<close>); the
      versions beyond it are of others (\<open>by_others\<close>). The contract of a GitHub that answers holds
      again of the worlds in which others have written no less than at a first world (\<open>since\<close>, the
      locale \<open>begun_files\<close>), so that the lemmas on the pipelines give that this number never falls.
      \<open>tallied_up\<close> and \<open>tallied_begun\<close> interpret them on the fake client with a tally beside it.
    \<^item> \<open>CommandsUp\<close>: whole runs of issuer and revoker against an API that is up end, with status 0 or
      after others have written, whatever the requests say.
    \<^item> \<open>StoredLedger\<close>: what a ledger file keeps of the ledger written to it: times to the second, texts
      with bytes that are not UTF-8 replaced, and nothing else lost, unless a time has no year of four
      digits. \<open>LateDates\<close>: how the operator writes such a time, and what then no longer reads the file.
    \<^item> \<open>LedgerView\<close>, \<open>Registry\<close>: the locale \<open>ledger_view\<close> is the contract of the calls that are not a write,
      interpreted on the fake client and on the observed world; every poll refines the abstract
      registry of ledgers (\<open>registry_step\<close>), and all reachable states (\<open>bot_poll\<close>) are well formed.
    \<^item> \<open>HonestIssue\<close>, \<open>Lifecycle\<close>: a request with all its steps done succeeds; owner, issue, revocation and list
      of one appId fit together.
    \<^item> \<open>Crl\<close>: the locale \<open>slice_sort\<close> is what \<open>sort.Slice\<close> promises for any comparison that is a strict weak
      order, interpreted on Go's insertion sort and on one that orders equal elements in another way;
      the comparison of the code (\<open>less_serial\<close>) is one, and with it the list has exactly the revoked
      certificates in the order of their serials, whatever the order of the ledgers.
    \<^item> \<open>Witnesses\<close>, \<open>WitnessesServices\<close>, \<open>WitnessesRuns\<close>, \<open>WitnessesRegistry\<close>, \<open>WitnessesStore\<close>,
      \<open>WitnessesProgress\<close>: concrete inputs for every property with a hypothesis.

  Bounds. The retry loops are structural recursions on the rounds left, which start with the five of
  \<open>maxLedgerRetries\<close>, so that they end; their last round is the error of the source. The draw of a
  serial may go on for ever: \<open>randomSerial\<close> is a partial function, \<open>None\<close> where it does not
  return, and it is shown to return exactly if the source does not deliver zeros for ever; a pipeline
  with \<open>None\<close> is one that hangs there, and the honest run is shown to return. No other model has
  fuel: the regular expression matcher, the JSON parser and the PEM decoder end by a measure on the
  input that is left. JSON is parsed without Go's limit of 10000 nested values.

  Parameters. DER and signatures (\<open>crypto_lib\<close>), the XML syntax (\<open>xml_parser\<close>), the HTTP transport,
  files and processes (\<open>os_lib\<close>, \<open>dir_lib\<close>), \<open>sort.Slice\<close> (its comparison is the code's), clock and
  random source. The hypotheses about them are named: \<open>steady\<close> (they answer), \<open>answering_api\<close> and
  \<open>up_api\<close> (GitHub answers), \<open>counts_writes\<close> (a counter of its acknowledgements), \<open>signs\<close> (the signer
  signs a leaf for any key a CSR may have), \<open>delivers\<close> (the random source gives bytes, and not zeros
  for ever), \<open>runs_openssl\<close> (the program can be started and has written its output when it ends well; that
  its other failures are refusals is then shown of \<open>openssl_Verify\<close>), \<open>separate\<close> (they do not touch the ledgers), \<open>tame_crypto\<close>, \<open>tame_os\<close>, \<open>tame_dir\<close> (nor do
  they, though others may meanwhile), \<open>outside_ok\<close> and \<open>dates_ok\<close> (times of the clock and of certificates
  lie in years of four digits, ids have 64 bits), \<open>operator_ok\<close> (so does the operator's date, read in
  UTC).

  Not modelled: log lines, contexts and timeouts, the text of usage messages, the parsing of
  command line flags (only their values), Go's maps as iteration orders (none is iterated), the
  packages of the tests and the shell scripts of the ceremony.

  What the model showed. After a conflict the issuer appends to the ledger it re-reads without
  checking the owner again (\<open>conflict_skips_ownership_check\<close>); likewise the revoker does not look again
  whether the entry was revoked meanwhile, and overwrites that revocation
  (\<open>conflict_overwrites_revocation\<close>). A revocation date with an offset that takes it past the year 9999
  makes a ledger that nothing reads any more (\<open>late_date_locks_the_app\<close>), which is why the registry is
  kept, and \<open>privrevoke\<close> shown to get on, under \<open>operator_ok\<close> only. A form may name a repository with
  characters that change the meaning of a URL (\<open>plain_form\<close> is their absence), and then its poll may
  fail every time. Of two first enrolments for an appId at once one fails without a
  retry, because GitHub does not report a create of a file that is there as a conflict. A ledger is not compared with the name of its file. Only the
  first hundred comments of an issue are read.
\<close>

end
